(* ===== verification/Prelude.thy ===== *)
theory Prelude imports Main "HOL-Library.Char_ord" "HOL-Library.List_Lexorder" begin

text \<open>
  The prelude of the development: the C++ exceptions the service can raise, the sum type that
  carries them, the machine-integer conversions the code performs implicitly, and the generic
  lemmas on lists, sums and characters that the components share.  Byte strings
  (\<open>std::string\<close>, payloads, topics) are HOL strings, one character per byte.
\<close>

section \<open>Theorem collections\<close>

named_theorems step_defs \<open>definitions of the operations of a component, unfolded in its proofs\<close>
named_theorems inv_defs \<open>definitions of the invariants\<close>
named_theorems inv_intros \<open>preservation of an invariant by one operation\<close>

section \<open>C++ exceptions as values\<close>

text \<open>
  The exception classes that some handler of the program distinguishes.  The classes of the json
  library carry the library's numeric id; \<open>std::runtime_error\<close> carries its \<open>what()\<close> text,
  which the service sends back to the backend.  \<open>Undefined_behaviour\<close> is no exception: it is the
  outcome of an access outside of a buffer, of a null pointer dereferenced and the like, which a model
  that computed on would hide.
\<close>

datatype cxx_exn =
    Json_parse_error nat
  | Json_invalid_iterator nat
  | Json_type_error nat
  | Json_out_of_range nat
  | Json_other_error nat
  | Std_out_of_range
  | Std_runtime_error string
  | Undefined_behaviour

type_synonym 'a res = "cxx_exn + 'a"

definition rbind :: "'e + 'a \<Rightarrow> ('a \<Rightarrow> 'e + 'b) \<Rightarrow> 'e + 'b" where
  "rbind m f = (case m of Inl e \<Rightarrow> Inl e | Inr a \<Rightarrow> f a)"

lemma rbind_simps [simp]:
  "rbind (Inl e) f = Inl e"
  "rbind (Inr a) f = f a"
  by (simp_all add: rbind_def)

lemma rbind_eq_Inr [simp]:
  "rbind m f = Inr b \<longleftrightarrow> (\<exists>a. m = Inr a \<and> f a = Inr b)"
  by (cases m) auto

lemma rbind_eq_Inl:
  "rbind m f = Inl e \<longleftrightarrow> m = Inl e \<or> (\<exists>a. m = Inr a \<and> f a = Inl e)"
  by (cases m) auto

lemma rbind_assoc [simp]: "rbind (rbind m f) g = rbind m (\<lambda>x. rbind (f x) g)"
  by (cases m) auto

lemma rbind_return [simp]: "rbind m Inr = m"
  by (cases m) auto

lemma rbind_cong [fundef_cong]:
  "m = m' \<Longrightarrow> (\<And>a. m' = Inr a \<Longrightarrow> f a = f' a) \<Longrightarrow> rbind m f = rbind m' f'"
  by (cases m') auto

text \<open>\<open>rmap\<close> runs a fallible function over a list from the left and stops at the first error.\<close>

fun rmap :: "('a \<Rightarrow> 'e + 'b) \<Rightarrow> 'a list \<Rightarrow> 'e + 'b list" where
  "rmap f [] = Inr []"
| "rmap f (x # xs) = rbind (f x) (\<lambda>y. rbind (rmap f xs) (\<lambda>ys. Inr (y # ys)))"

lemma rmap_length: "rmap f xs = Inr ys \<Longrightarrow> length ys = length xs"
  by (induction xs arbitrary: ys) auto

lemma rmap_Inr_iff: "rmap f xs = Inr ys \<longleftrightarrow> list_all2 (\<lambda>x y. f x = Inr y) xs ys"
proof (induction xs arbitrary: ys)
  case Nil
  then show ?case by auto
next
  case (Cons x xs)
  then show ?case by (cases ys) auto
qed

section \<open>Machine integers\<close>

text \<open>
  A C++ \<open>int\<close> of the program's targets has 32 bits.  The model keeps such a value as the HOL
  integer it denotes; \<open>wrap32\<close> and \<open>wrap64\<close> are the conversions \<open>static_cast<int>\<close> and
  \<open>static_cast<int64_t>\<close> perform on a wider integer (two's complement, as gcc defines them).
\<close>

definition wrap32 :: "int \<Rightarrow> int" where
  "wrap32 x = (x + 2147483648) mod 4294967296 - 2147483648"

definition wrap64 :: "int \<Rightarrow> int" where
  "wrap64 x = (x + 9223372036854775808) mod 18446744073709551616 - 9223372036854775808"

definition is_int32 :: "int \<Rightarrow> bool" where
  "is_int32 x \<longleftrightarrow> -2147483648 \<le> x \<and> x \<le> 2147483647"

lemma wrap32_is_int32 [simp, intro]: "is_int32 (wrap32 x)"
  unfolding is_int32_def wrap32_def by simp

lemma wrap32_id [simp]: "is_int32 x \<Longrightarrow> wrap32 x = x"
  unfolding is_int32_def wrap32_def by simp

lemma wrap32_idem [simp]: "wrap32 (wrap32 x) = wrap32 x"
  by simp

lemma wrap64_id: "-9223372036854775808 \<le> x \<Longrightarrow> x \<le> 9223372036854775807 \<Longrightarrow> wrap64 x = x"
  unfolding wrap64_def by simp

text \<open>The C string a \<open>std::string\<close> gives through \<open>c_str()\<close>: it ends at the first NUL.\<close>

definition c_str :: "string \<Rightarrow> string" where
  "c_str s = takeWhile (\<lambda>c. c \<noteq> CHR 0x00) s"

lemma c_str_idem [simp]: "c_str (c_str s) = c_str s"
  by (simp add: c_str_def)

lemma c_str_id: "CHR 0x00 \<notin> set s \<Longrightarrow> c_str s = s"
  by (induction s) (auto simp: c_str_def)

section \<open>Lists\<close>

lemma update_two:
  assumes "2 \<le> p" "p \<le> length xs"
  shows "xs[p - 1 := c, p - 2 := d] = take (p - 2) xs @ [d, c] @ drop p xs"
proof -
  obtain k where p: "p = Suc (Suc k)" using assms(1) by (metis add_2_eq_Suc le_Suc_ex)
  with assms have "xs = take k xs @ xs ! k # xs ! Suc k # drop p xs"
    by (metis Cons_nth_drop_Suc Suc_le_lessD Suc_lessD append_take_drop_id)
  moreover have "length (take k xs) = k" using assms(2) p by simp
  ultimately obtain as a b bs where x: "xs = as @ a # b # bs" "k = length as" by metis
  then show ?thesis using p by (simp add: list_update_append)
qed

lemma takeWhile_append_stop:
  "(\<forall>x\<in>set xs. P x) \<Longrightarrow> \<not> P y \<Longrightarrow> takeWhile P (xs @ y # ys) = xs"
  by (induction xs) auto

lemma dropWhile_append_stop:
  "(\<forall>x\<in>set xs. P x) \<Longrightarrow> \<not> P y \<Longrightarrow> dropWhile P (xs @ y # ys) = y # ys"
  by (induction xs) auto

lemma takeWhile_dropWhile_shorter: "x \<in> set xs \<Longrightarrow> \<not> P x \<Longrightarrow> length (takeWhile P xs) < length xs"
  by (induction xs) auto

text \<open>The first element that satisfies a predicate, removed: \<open>vector::erase\<close> at the iterator a
  search loop stops at.\<close>

fun erase_first :: "('a \<Rightarrow> bool) \<Rightarrow> 'a list \<Rightarrow> 'a list" where
  "erase_first P [] = []"
| "erase_first P (x # xs) = (if P x then xs else x # erase_first P xs)"

lemma erase_first_none [simp]: "(\<forall>x\<in>set xs. \<not> P x) \<Longrightarrow> erase_first P xs = xs"
  by (induction xs) auto

lemma set_erase_first_subset: "set (erase_first P xs) \<subseteq> set xs"
  by (induction xs) auto

lemma length_erase_first:
  "length (erase_first P xs) = (if \<exists>x\<in>set xs. P x then length xs - 1 else length xs)"
  by (induction xs) (auto dest: length_pos_if_in_set)

lemma distinct_map_erase_first: "distinct (map f xs) \<Longrightarrow> distinct (map f (erase_first P xs))"
  by (induction xs) (use set_erase_first_subset in fastforce)+

lemma erase_first_eq_filter:
  "distinct (map f xs) \<Longrightarrow> erase_first (\<lambda>x. f x = k) xs = filter (\<lambda>x. f x \<noteq> k) xs"
proof (induction xs)
  case Nil
  then show ?case by simp
next
  case (Cons x xs)
  show ?case
  proof (cases "f x = k")
    case True
    with Cons.prems have "\<forall>y\<in>set xs. f y \<noteq> k" by (auto simp: image_iff)
    with True show ?thesis by (simp add: filter_id_conv)
  qed (use Cons in simp)
qed

end
