(* ===== verification/StdMap.thy ===== *)
theory StdMap imports Prelude begin

text \<open>
  \<open>std::map\<close> as the program uses it: json objects (\<open>std::map<std::string, json>\<close>), the device list
  of the robot and the action tables of the devices.  The contract is the locale \<open>std_map\<close>; the
  model of the container is an association list kept strictly sorted by key, whose iteration order is
  the container's.  Keys of type string compare byte by byte as unsigned characters, as
  \<open>std::char_traits<char>\<close> does.
\<close>

section \<open>The contract\<close>

locale std_map =
  fixes mempty :: "'m"
    and mlookup :: "'m \<Rightarrow> 'k::linorder \<Rightarrow> 'v option"
    and massign :: "'k \<Rightarrow> 'v \<Rightarrow> 'm \<Rightarrow> 'm"
    and merase :: "'k \<Rightarrow> 'm \<Rightarrow> 'm"
    and mkeys :: "'m \<Rightarrow> 'k list"
    and minv :: "'m \<Rightarrow> bool"
  assumes lookup_empty: "mlookup mempty k = None"
    and lookup_assign: "minv m \<Longrightarrow> mlookup (massign k v m) k' = (if k' = k then Some v else mlookup m k')"
    and lookup_erase: "minv m \<Longrightarrow> mlookup (merase k m) k' = (if k' = k then None else mlookup m k')"
    and keys_dom: "minv m \<Longrightarrow> set (mkeys m) = {k. mlookup m k \<noteq> None}"
    and keys_sorted: "minv m \<Longrightarrow> sorted_wrt (<) (mkeys m)"
    and inv_empty: "minv mempty"
    and inv_assign: "minv m \<Longrightarrow> minv (massign k v m)"
    and inv_erase: "minv m \<Longrightarrow> minv (merase k m)"
begin

lemma lookup_assign_same: "minv m \<Longrightarrow> mlookup (massign k v m) k = Some v"
  by (simp add: lookup_assign)

lemma lookup_assign_other: "minv m \<Longrightarrow> k' \<noteq> k \<Longrightarrow> mlookup (massign k v m) k' = mlookup m k'"
  by (simp add: lookup_assign)

lemma keys_distinct: "minv m \<Longrightarrow> distinct (mkeys m)"
  using keys_sorted strict_sorted_iff by blast

lemma keys_assign: "minv m \<Longrightarrow> set (mkeys (massign k v m)) = insert k (set (mkeys m))"
  by (auto simp: keys_dom inv_assign lookup_assign split: if_splits)

lemma keys_erase: "minv m \<Longrightarrow> set (mkeys (merase k m)) = set (mkeys m) - {k}"
  by (auto simp: keys_dom inv_erase lookup_erase split: if_splits)

lemma erase_absent: "minv m \<Longrightarrow> mlookup m k = None \<Longrightarrow> mlookup (merase k m) = mlookup m"
  by (rule ext) (simp add: lookup_erase)

end

section \<open>The model: strictly sorted association lists\<close>

type_synonym ('k, 'v) smap = "('k \<times> 'v) list"

definition sm_inv :: "('k::linorder, 'v) smap \<Rightarrow> bool" where
  "sm_inv m \<longleftrightarrow> sorted_wrt (<) (map fst m)"

fun sm_assign :: "'k::linorder \<Rightarrow> 'v \<Rightarrow> ('k, 'v) smap \<Rightarrow> ('k, 'v) smap" where
  "sm_assign k v [] = [(k, v)]"
| "sm_assign k v ((k', v') # m) =
     (if k < k' then (k, v) # (k', v') # m
      else if k = k' then (k, v) # m
      else (k', v') # sm_assign k v m)"

fun sm_erase :: "'k::linorder \<Rightarrow> ('k, 'v) smap \<Rightarrow> ('k, 'v) smap" where
  "sm_erase k [] = []"
| "sm_erase k ((k', v') # m) = (if k = k' then m else (k', v') # sm_erase k m)"

text \<open>\<open>map::emplace\<close> leaves the value of a key that is present unchanged.\<close>

definition sm_emplace :: "'k::linorder \<Rightarrow> 'v \<Rightarrow> ('k, 'v) smap \<Rightarrow> ('k, 'v) smap" where
  "sm_emplace k v m = (case map_of m k of None \<Rightarrow> sm_assign k v m | Some _ \<Rightarrow> m)"

lemma sm_inv_Nil [simp]: "sm_inv []"
  by (simp add: sm_inv_def)

lemma sm_inv_Cons [simp]: "sm_inv (kv # m) \<longleftrightarrow> (\<forall>k\<in>fst ` set m. fst kv < k) \<and> sm_inv m"
  by (auto simp: sm_inv_def)

lemma fst_sm_assign: "fst ` set (sm_assign k v m) = insert k (fst ` set m)"
  by (induction k v m rule: sm_assign.induct) (simp_all add: insert_commute)

lemma fst_sm_erase_subset: "fst ` set (sm_erase k m) \<subseteq> fst ` set m"
  by (induction k m rule: sm_erase.induct) (simp_all, blast)

lemma sm_inv_assign [intro, simp]: "sm_inv m \<Longrightarrow> sm_inv (sm_assign k v m)"
proof (induction k v m rule: sm_assign.induct)
  case (2 k v k' v' m)
  then show ?case
    by (simp add: fst_sm_assign) (meson dual_order.strict_trans linorder_neqE)
qed simp

lemma sm_inv_erase [intro, simp]: "sm_inv m \<Longrightarrow> sm_inv (sm_erase k m)"
proof (induction k m rule: sm_erase.induct)
  case (2 k k' v' m)
  then show ?case using fst_sm_erase_subset [of k m]
    by (simp add: subset_eq) (metis (no_types, lifting) imageE)
qed simp

lemma sm_notin: "sm_inv m \<Longrightarrow> (\<forall>k'\<in>fst ` set m. k < k') \<Longrightarrow> map_of m k = None"
  by (force simp: map_of_eq_None_iff)

lemma map_of_sm_assign: "sm_inv m \<Longrightarrow> map_of (sm_assign k v m) = (map_of m)(k \<mapsto> v)"
  by (induction m) (auto simp: fun_eq_iff)

lemma map_of_sm_erase: "sm_inv m \<Longrightarrow> map_of (sm_erase k m) = (map_of m)(k := None)"
proof (induction m)
  case (Cons kv m)
  show ?case
  proof (cases "fst kv = k")
    case True
    with Cons.prems have "map_of m k = None" by (auto intro: sm_notin)
    with True show ?thesis by (cases kv) (auto simp: fun_eq_iff)
  qed (use Cons in \<open>cases kv, auto simp: fun_eq_iff\<close>)
qed simp

lemma sm_inv_distinct: "sm_inv m \<Longrightarrow> distinct (map fst m)"
  unfolding sm_inv_def using strict_sorted_iff by blast

lemma sm_inv_emplace [intro, simp]: "sm_inv m \<Longrightarrow> sm_inv (sm_emplace k v m)"
  by (auto simp: sm_emplace_def split: option.splits)

interpretation sm: std_map "[]" map_of sm_assign sm_erase "map fst" "sm_inv"
proof unfold_locales
  fix m :: "('k::linorder, 'v) smap" and k k' :: 'k and v :: 'v
  show "map_of [] k = None" by simp
  show "sm_inv ([] :: ('k, 'v) smap)" by simp
  assume i: "sm_inv m"
  show "map_of (sm_assign k v m) k' = (if k' = k then Some v else map_of m k')"
    using i by (simp add: map_of_sm_assign)
  show "map_of (sm_erase k m) k' = (if k' = k then None else map_of m k')"
    using i by (simp add: map_of_sm_erase)
  show "set (map fst m) = {k. map_of m k \<noteq> None}"
    by (force simp: map_of_eq_None_iff)
  show "sorted_wrt (<) (map fst m)" using i by (simp add: sm_inv_def)
  show "sm_inv (sm_assign k v m)" "sm_inv (sm_erase k m)" using i by auto
qed

text \<open>The representation is canonical: two sorted lists with the same lookups are equal.\<close>

lemma sm_ext:
  assumes "sm_inv m" "sm_inv m'" "map_of m = map_of m'"
  shows "m = m'"
proof -
  have d: "distinct (map fst m)" "distinct (map fst m')" using assms by (auto dest: sm_inv_distinct)
  have "set m = set m'" using map_of_inject_set [OF d] assms(3) by simp
  moreover have "sorted (map fst m)" "sorted (map fst m')"
    using assms unfolding sm_inv_def by (auto dest: strict_sorted_imp_sorted)
  ultimately show ?thesis using d map_sorted_distinct_set_unique [of fst m m']
    by (metis (mono_tags, lifting) Un_absorb distinct_map)
qed

lemma sm_assign_idem: "sm_inv m \<Longrightarrow> map_of m k = Some v \<Longrightarrow> sm_assign k v m = m"
  by (rule sm_ext) (auto simp: map_of_sm_assign)

lemma sm_assign_twice: "sm_inv m \<Longrightarrow> sm_assign k v (sm_assign k w m) = sm_assign k v m"
  by (rule sm_ext) (auto simp: map_of_sm_assign)

lemma sm_assign_commute:
  "sm_inv m \<Longrightarrow> k \<noteq> l \<Longrightarrow> sm_assign k v (sm_assign l w m) = sm_assign l w (sm_assign k v m)"
  by (rule sm_ext) (auto simp: map_of_sm_assign)

end
