(* ===== verification/Ieee754.thy ===== *)
theory Ieee754 imports Prelude Complex_Main begin

text \<open>
  The C++ type \<open>double\<close> (IEEE 754 binary64, round to nearest even) as the program computes with it:
  battery capacities are added, subtracted, divided, scaled, compared and converted to \<open>int\<close>, and
  the json library stores, compares and converts numbers of this type.  A finite nonzero value is the
  rational number it denotes; every operation computes the exact rational result and rounds it once.
\<close>

datatype double =
    D_nan
  | D_inf (d_neg: bool)
  | D_zero (d_neg: bool)
  | D_fin (d_val: rat)

section \<open>Rounding\<close>

definition pow2r :: "int \<Rightarrow> rat" where
  "pow2r e = (if 0 \<le> e then 2 ^ nat e else 1 / 2 ^ nat (- e))"

text \<open>\<open>int_bits n\<close> is the number of bits of \<open>n\<close> and \<open>flog2 r\<close> the exponent of a positive rational:
  the \<open>e\<close> with \<open>2^e \<le> r < 2^(e+1)\<close>.\<close>

function int_bits :: "int \<Rightarrow> int" where
  "int_bits n = (if n \<le> 0 then 0 else 1 + int_bits (n div 2))"
  by pat_completeness auto
termination
  by (relation "measure nat") auto

declare int_bits.simps [simp del]

definition flog2 :: "rat \<Rightarrow> int" where
  "flog2 r = (let (a, b) = quotient_of r; k = int_bits a - int_bits b
              in if pow2r k \<le> r then k else k - 1)"

definition round_half_even :: "rat \<Rightarrow> int" where
  "round_half_even r =
     (let f = \<lfloor>r\<rfloor>; d = r - of_int f
      in if d < 1 / 2 then f else if 1 / 2 < d then f + 1 else if even f then f else f + 1)"

definition round_double :: "bool \<Rightarrow> rat \<Rightarrow> double" where
  "round_double zero_neg r =
     (if r = 0 then D_zero zero_neg
      else let m = \<bar>r\<bar>; e = max (flog2 m) (-1022); u = pow2r (e - 52);
               v = of_int (round_half_even (m / u)) * u
           in if v = 0 then D_zero (r < 0)
              else if (if e < 1023 then False else pow2r 1024 \<le> v) then D_inf (r < 0)
              else D_fin (if r < 0 then - v else v))"

text \<open>A value is representable when rounding does not change it.\<close>

definition d_ok :: "double \<Rightarrow> bool" where
  "d_ok d = (case d of D_fin r \<Rightarrow> round_double False r = D_fin r | _ \<Rightarrow> True)"

section \<open>Arithmetic\<close>

text \<open>The rational value of a finite double.\<close>

definition d_rat :: "double \<Rightarrow> rat" where
  "d_rat d = (case d of D_fin r \<Rightarrow> r | _ \<Rightarrow> 0)"

definition d_sign :: "double \<Rightarrow> bool" where
  "d_sign d = (case d of D_nan \<Rightarrow> False | D_inf s \<Rightarrow> s | D_zero s \<Rightarrow> s | D_fin r \<Rightarrow> r < 0)"

definition d_uminus :: "double \<Rightarrow> double" where
  "d_uminus d = (case d of D_nan \<Rightarrow> D_nan | D_inf s \<Rightarrow> D_inf (\<not> s) | D_zero s \<Rightarrow> D_zero (\<not> s)
                 | D_fin r \<Rightarrow> D_fin (- r))"

definition d_abs :: "double \<Rightarrow> double" where
  "d_abs d = (if d_sign d then d_uminus d else d)"

definition d_add :: "double \<Rightarrow> double \<Rightarrow> double" where
  "d_add x y = (case (x, y) of
      (D_nan, _) \<Rightarrow> D_nan | (_, D_nan) \<Rightarrow> D_nan
    | (D_inf s, D_inf t) \<Rightarrow> (if s = t then D_inf s else D_nan)
    | (D_inf s, _) \<Rightarrow> D_inf s | (_, D_inf t) \<Rightarrow> D_inf t
    | (D_zero s, D_zero t) \<Rightarrow> D_zero (s \<and> t)
    | _ \<Rightarrow> round_double False (d_rat x + d_rat y))"

definition d_sub :: "double \<Rightarrow> double \<Rightarrow> double" where
  "d_sub x y = d_add x (d_uminus y)"

definition d_mul :: "double \<Rightarrow> double \<Rightarrow> double" where
  "d_mul x y = (let s = (d_sign x \<noteq> d_sign y) in case (x, y) of
      (D_nan, _) \<Rightarrow> D_nan | (_, D_nan) \<Rightarrow> D_nan
    | (D_inf _, D_zero _) \<Rightarrow> D_nan | (D_zero _, D_inf _) \<Rightarrow> D_nan
    | (D_inf _, _) \<Rightarrow> D_inf s | (_, D_inf _) \<Rightarrow> D_inf s
    | (D_zero _, _) \<Rightarrow> D_zero s | (_, D_zero _) \<Rightarrow> D_zero s
    | _ \<Rightarrow> round_double s (d_rat x * d_rat y))"

definition d_div :: "double \<Rightarrow> double \<Rightarrow> double" where
  "d_div x y = (let s = (d_sign x \<noteq> d_sign y) in case (x, y) of
      (D_nan, _) \<Rightarrow> D_nan | (_, D_nan) \<Rightarrow> D_nan
    | (D_inf _, D_inf _) \<Rightarrow> D_nan | (D_zero _, D_zero _) \<Rightarrow> D_nan
    | (D_inf _, _) \<Rightarrow> D_inf s | (_, D_inf _) \<Rightarrow> D_zero s
    | (D_zero _, _) \<Rightarrow> D_zero s | (_, D_zero _) \<Rightarrow> D_inf s
    | _ \<Rightarrow> round_double s (d_rat x / d_rat y))"

section \<open>Comparison and conversion\<close>

definition d_eq :: "double \<Rightarrow> double \<Rightarrow> bool" where
  "d_eq x y = (case (x, y) of
      (D_nan, _) \<Rightarrow> False | (_, D_nan) \<Rightarrow> False
    | (D_inf s, D_inf t) \<Rightarrow> s = t
    | (D_inf _, _) \<Rightarrow> False | (_, D_inf _) \<Rightarrow> False
    | _ \<Rightarrow> d_rat x = d_rat y)"

definition d_lt :: "double \<Rightarrow> double \<Rightarrow> bool" where
  "d_lt x y = (case (x, y) of
      (D_nan, _) \<Rightarrow> False | (_, D_nan) \<Rightarrow> False
    | (D_inf s, D_inf t) \<Rightarrow> s \<and> \<not> t
    | (D_inf s, _) \<Rightarrow> s | (_, D_inf t) \<Rightarrow> \<not> t
    | _ \<Rightarrow> d_rat x < d_rat y)"

definition d_le :: "double \<Rightarrow> double \<Rightarrow> bool" where
  "d_le x y \<longleftrightarrow> d_lt x y \<or> d_eq x y"

definition d_of_int :: "int \<Rightarrow> double" where
  "d_of_int i = round_double False (of_int i)"

text \<open>
  Conversion to an integer type truncates towards zero; it is undefined behaviour (\<open>None\<close>) for NaN,
  infinities and values whose truncation the target type cannot hold.
\<close>

definition rat_trunc :: "rat \<Rightarrow> int" where
  "rat_trunc r = (if r < 0 then - \<lfloor>- r\<rfloor> else \<lfloor>r\<rfloor>)"

definition d_to_int :: "int \<Rightarrow> int \<Rightarrow> double \<Rightarrow> int option" where
  "d_to_int lo hi d = (case d of
      D_nan \<Rightarrow> None | D_inf _ \<Rightarrow> None | D_zero _ \<Rightarrow> Some 0
    | D_fin r \<Rightarrow> (let i = rat_trunc r in if lo \<le> i \<and> i \<le> hi then Some i else None))"

definition d_to_int32 :: "double \<Rightarrow> int option" where
  "d_to_int32 = d_to_int (-2147483648) 2147483647"

text \<open>
  What the program's cast \<open>(int)d\<close> yields on its target (linux-arm64, instruction \<open>fcvtzs\<close>): the
  defined conversion where there is one, saturation out of range and 0 for NaN where the language
  leaves the result undefined.
\<close>

definition d_cast_int32 :: "double \<Rightarrow> int" where
  "d_cast_int32 d = (case d_to_int32 d of Some i \<Rightarrow> i
     | None \<Rightarrow> if d = D_nan then 0 else if d_sign d then -2147483648 else 2147483647)"

section \<open>Facts\<close>

lemma d_to_int32_is_int32: "d_to_int32 d = Some i \<Longrightarrow> is_int32 i"
  by (auto simp: d_to_int32_def d_to_int_def is_int32_def Let_def split: double.splits if_splits)

lemma d_cast_int32_is_int32 [simp]: "is_int32 (d_cast_int32 d)"
  by (auto simp: d_cast_int32_def d_to_int32_is_int32 is_int32_def [of 0] is_int32_def [of "-2147483648"]
      is_int32_def [of 2147483647] split: option.splits)

lemma d_eq_sym: "d_eq x y = d_eq y x"
  by (cases x; cases y) (auto simp: d_eq_def d_rat_def)

lemma d_eq_nan [simp]: "\<not> d_eq D_nan y" "\<not> d_eq y D_nan"
  by (cases y; simp add: d_eq_def)+

lemma d_lt_irrefl [simp]: "\<not> d_lt x x"
  by (cases x) (auto simp: d_lt_def)

lemma d_lt_trans: "d_lt x y \<Longrightarrow> d_lt y z \<Longrightarrow> d_lt x z"
  by (cases x; cases y; cases z) (auto simp: d_lt_def d_rat_def)

lemma d_div_zero_zero [simp]: "d_div (D_zero s) (D_zero t) = D_nan"
  by (simp add: d_div_def Let_def)

lemma round_double_zero [simp]: "round_double s 0 = D_zero s"
  by (simp add: round_double_def)

section \<open>The binary exponent\<close>

lemma int_bits_bounds: "0 < n \<Longrightarrow> 0 < int_bits n \<and> 2 ^ nat (int_bits n - 1) \<le> n \<and> n < 2 ^ nat (int_bits n)"
proof (induction n rule: int_bits.induct)
  case (1 n)
  show ?case
  proof (cases "n = 1")
    case True
    then show ?thesis by (simp add: int_bits.simps [of 1] int_bits.simps [of 0])
  next
    case False
    with 1 have n: "0 < n div 2" by auto
    let ?k = "int_bits (n div 2)"
    have ih: "0 < ?k" "2 ^ nat (?k - 1) \<le> n div 2" "n div 2 < 2 ^ nat ?k" using 1 n by auto
    have b: "int_bits n = 1 + ?k" using "1.prems" by (subst int_bits.simps) simp
    have "nat ?k = Suc (nat (?k - 1))" "nat (1 + ?k) = Suc (nat ?k)" using ih(1) by linarith+
    then have "(2::int) ^ nat ?k = 2 * 2 ^ nat (?k - 1)" "(2::int) ^ nat (1 + ?k) = 2 * 2 ^ nat ?k" by simp_all
    moreover have "n div 2 * 2 \<le> n" "n < n div 2 * 2 + 2" by presburger+
    ultimately show ?thesis using ih unfolding b by (auto simp: b)
  qed
qed

lemma pow2r_pos [simp]: "0 < pow2r e"
  by (simp add: pow2r_def)

lemma pow2r_nonneg [simp]: "0 \<le> pow2r e"
  by (rule less_imp_le) simp

lemma pow2r_powi: "pow2r e = 2 powi e"
  by (simp add: pow2r_def power_int_def field_simps)

lemma pow2r_add: "pow2r (a + b) = pow2r a * pow2r b"
  by (simp add: pow2r_powi power_int_add)

lemma pow2r_nat: "0 \<le> e \<Longrightarrow> pow2r e = 2 ^ nat e"
  by (simp add: pow2r_def)

lemma pow2r_mono: "a \<le> b \<Longrightarrow> pow2r a \<le> pow2r b"
  by (simp add: pow2r_powi power_int_increasing)

lemma pow2r_diff: "pow2r (a - b) = pow2r a / pow2r b"
  by (simp add: pow2r_powi power_int_diff)

lemma flog2_bounds:
  assumes "0 < r"
  shows "pow2r (flog2 r) \<le> r" "r < pow2r (flog2 r + 1)"
proof -
  obtain a b where ab: "quotient_of r = (a, b)" by fastforce
  then have r: "r = of_int a / of_int b" "0 < b" using quotient_of_div quotient_of_denom_pos by auto
  then have a: "0 < a" using assms by (simp add: zero_less_divide_iff)
  let ?k = "int_bits a - int_bits b"
  have bits: "pow2r (int_bits n - 1) \<le> of_int n" "(of_int n :: rat) < pow2r (int_bits n)" if "0 < n" for n
  proof -
    note b = int_bits_bounds [OF that]
    then have "(of_int (2 ^ nat (int_bits n - 1)) :: rat) \<le> of_int n" "(of_int n :: rat) < of_int (2 ^ nat (int_bits n))"
      using of_int_le_iff of_int_less_iff by blast+
    with b show "pow2r (int_bits n - 1) \<le> of_int n" "(of_int n :: rat) < pow2r (int_bits n)"
      by (simp_all add: pow2r_nat)
  qed
  note bits [OF a] bits [OF r(2)]
  then have "r < pow2r (int_bits a) / pow2r (int_bits b - 1)" "pow2r (int_bits a - 1) / pow2r (int_bits b) \<le> r"
    unfolding r(1) by (intro frac_less frac_le; simp add: a r(2) less_imp_le)+
  then have u: "r < pow2r (?k + 1)" and l: "pow2r (?k - 1) \<le> r"
    by (simp_all add: algebra_simps flip: pow2r_diff)
  show "pow2r (flog2 r) \<le> r" using l by (simp add: flog2_def ab Let_def)
  show "r < pow2r (flog2 r + 1)" using u by (simp add: flog2_def ab Let_def)
qed


lemma round_half_even_of_int [simp]: "round_half_even (of_int m) = m"
  by (simp add: round_half_even_def Let_def)

lemma round_half_even_floor: "x = of_int (round_half_even x) \<Longrightarrow> \<lfloor>x\<rfloor> = round_half_even x"
  by (metis floor_of_int)

section \<open>Rounded values are representable\<close>

lemma round_half_even_mono_int:
  assumes "of_int a \<le> x" "x < of_int b"
  shows "a \<le> round_half_even x" "round_half_even x \<le> b"
proof -
  have "a \<le> \<lfloor>x\<rfloor>" "\<lfloor>x\<rfloor> < b" using assms by (simp_all add: le_floor_iff floor_less_iff)
  then show "a \<le> round_half_even x" "round_half_even x \<le> b"
    by (auto simp: round_half_even_def Let_def)
qed

lemma round_double_ok: "d_ok (round_double z r)"
proof (cases "round_double z r")
  case (D_fin w)
  let ?v = "\<bar>r\<bar>"
  define e where "e = max (flog2 ?v) (-1022)"
  define u where "u = pow2r (e - 52)"
  define m where "m = round_half_even (?v / u)"
  have r: "r \<noteq> 0" using D_fin by auto
  then have v: "0 < ?v" by simp
  have up: "0 < u" by (simp add: u_def)
  have w: "w = (if r < 0 then - (of_int m * u) else of_int m * u)" "of_int m * u \<noteq> 0"
    "\<not> (1023 \<le> e \<and> pow2r 1024 \<le> of_int m * u)"
    using D_fin r by (auto simp: round_double_def Let_def m_def u_def e_def not_less split: if_splits)
  have e53: "pow2r (e + 1) = pow2r 53 * u" by (simp add: u_def add.commute flip: pow2r_add)
  have "?v < pow2r (e + 1)"
    using flog2_bounds(2) [OF v] pow2r_mono [of "flog2 ?v + 1" "e + 1"] by (simp add: e_def)
  then have q: "0 \<le> ?v / u" "?v / u < of_int 9007199254740992"
    using v up e53 by (simp_all add: pow2r_def field_simps)
  have m: "0 \<le> m" "m \<le> 9007199254740992"
    using round_half_even_mono_int [of 0 "?v / u" 9007199254740992] q by (simp_all add: m_def)
  then have m1: "1 \<le> m" using w(2) by (cases "m = 0") auto
  define x where "x = of_int m * u"
  have x: "0 < x" "\<bar>w\<bar> = x" using m1 up w(1) by (auto simp: x_def)
  define e' where "e' = max (flog2 x) (-1022)"
  have lo: "e \<le> e'"
  proof (cases "e = -1022")
    case False
    then have "e = flog2 ?v" by (auto simp: e_def)
    then have "pow2r e \<le> ?v" using flog2_bounds(1) [OF v] by simp
    moreover have "pow2r e = pow2r 52 * u" by (simp add: u_def flip: pow2r_add)
    ultimately have "of_int 4503599627370496 \<le> ?v / u" using up by (simp add: pow2r_def field_simps)
    then have "4503599627370496 \<le> m" using round_half_even_mono_int(1) q(2) unfolding m_def by blast
    then have "pow2r 52 * u \<le> x" unfolding x_def using up by (intro mult_right_mono) (simp_all add: pow2r_def)
    then have "pow2r e \<le> x" by (simp add: u_def flip: pow2r_add)
    also have "x < pow2r (flog2 x + 1)" by (rule flog2_bounds(2) [OF x(1)])
    finally have "\<not> flog2 x + 1 \<le> e" using pow2r_mono by (meson not_le)
    then show ?thesis by (simp add: e'_def)
  qed (simp add: e'_def)
  have hi: "x \<le> pow2r (e + 1)" unfolding e53 x_def using m(2) up by (intro mult_right_mono) (simp_all add: pow2r_def)
  have "e' \<le> e + 1"
  proof -
    have "pow2r (flog2 x) \<le> pow2r (e + 1)" using flog2_bounds(1) [OF x(1)] hi by linarith
    moreover have "pow2r (e + 2) = 2 * pow2r (e + 1)"
      using pow2r_add [of "e + 1" 1] by (simp add: pow2r_def [of 1] algebra_simps)
    ultimately have "\<not> e + 2 \<le> flog2 x"
      using pow2r_mono [of "e + 2" "flog2 x"] pow2r_pos [of "e + 1"] by auto
    moreover have "-1022 \<le> e" by (simp add: e_def)
    ultimately show ?thesis by (simp add: e'_def)
  qed
  then consider "e' = e" | "e' = e + 1" using lo by linarith
  then obtain m' where m': "x = of_int m' * pow2r (e' - 52)"
  proof cases
    case 1
    then show ?thesis using that [of m] by (simp add: x_def u_def)
  next
    case 2
    have "-1022 \<le> e" by (simp add: e_def)
    with 2 have "flog2 x = e + 1" by (simp add: e'_def max_def split: if_splits)
    then have "pow2r (e + 1) \<le> x" using flog2_bounds(1) [OF x(1)] by simp
    then have "x = pow2r (e + 1)" using hi by simp
    moreover have "pow2r (e + 1) = pow2r 52 * pow2r (e' - 52)" using 2 by (simp add: add.commute flip: pow2r_add)
    ultimately show ?thesis using that [of 4503599627370496] by (simp add: pow2r_def [of 52])
  qed
  have "x / pow2r (e' - 52) = of_int m'" using m' less_imp_neq [OF pow2r_pos, of "e' - 52"] by simp
  then have rnd: "of_int (round_half_even (x / pow2r (e' - 52))) * pow2r (e' - 52) = x" using m' by simp
  have "\<not> (1023 \<le> e' \<and> pow2r 1024 \<le> x)"
  proof (cases "1023 \<le> e")
    case True
    then show ?thesis using w(3) by (simp add: x_def)
  next
    case False
    then have "x \<le> pow2r 1023" using hi pow2r_mono [of "e + 1" 1023] by linarith
    moreover have "pow2r 1023 < pow2r 1024" using pow2r_add [of 1023 1] pow2r_pos [of 1023] by (simp add: pow2r_def [of 1])
    ultimately show ?thesis by linarith
  qed
  moreover have "w = (if r < 0 then - x else x)" using w(1) by (simp add: x_def)
  ultimately have "round_double False w = D_fin w"
    using x rnd unfolding round_double_def Let_def x(2) e'_def [symmetric] by (auto simp: not_less)
  with D_fin show ?thesis by (simp add: d_ok_def)
qed (simp_all add: d_ok_def)

section \<open>Values near a representable one\<close>

lemma flog2_eqI:
  assumes "pow2r e \<le> x" "x < pow2r (e + 1)"
  shows "flog2 x = e"
proof -
  have x: "0 < x" using assms(1) pow2r_pos [of e] by linarith
  note b = flog2_bounds [OF x]
  have "\<not> flog2 x + 1 \<le> e" using pow2r_mono [of "flog2 x + 1" e] b(2) assms(1) by linarith
  moreover have "\<not> e + 1 \<le> flog2 x" using pow2r_mono [of "e + 1" "flog2 x"] b(1) assms(2) by linarith
  ultimately show ?thesis by linarith
qed

lemma round_half_even_near:
  assumes "of_int m - 1 / 2 < x" "x < of_int m + 1 / 2"
  shows "round_half_even x = m"
proof (cases "of_int m \<le> x")
  case True
  then have "\<lfloor>x\<rfloor> = m" using assms(2) by linarith
  with assms(2) show ?thesis by (simp add: round_half_even_def Let_def)
next
  case False
  then have "\<lfloor>x\<rfloor> = m - 1" using assms(1) by linarith
  with assms(1) show ?thesis by (simp add: round_half_even_def Let_def)
qed

text \<open>
  A positive double is \<open>f * 2 ^ e\<close> with \<open>f\<close> below \<open>2 ^ 53\<close>, at least \<open>2 ^ 52\<close> unless \<open>e\<close> is least.  Everything
  strictly inside half a unit in the last place rounds to it; below a power of two the unit is half as
  large.
\<close>

lemma round_double_near:
  assumes f: "1 \<le> f" "f < 9007199254740992" and e: "-1074 \<le> e" "e \<le> 971"
    and n: "e = -1074 \<or> 4503599627370496 \<le> f"
    and hi: "x < (of_int f + 1 / 2) * pow2r e"
    and lo: "(of_int f - (if f = 4503599627370496 \<and> e \<noteq> -1074 then 1 / 4 else 1 / 2)) * pow2r e < x"
  shows "round_double z x = D_fin (of_int f * pow2r e)"
proof -
  let ?v = "of_int f * pow2r e"
  have pe: "0 < pow2r e" by simp
  have "(0::rat) \<le> (of_int f - (if f = 4503599627370496 \<and> e \<noteq> -1074 then 1 / 4 else 1 / 2)) * pow2r e"
    using f(1) less_imp_le [OF pe] by (intro mult_nonneg_nonneg) auto
  then have x: "0 < x" using lo by linarith
  have "?v < of_int 9007199254740992 * pow2r e" using f(2) pe by (intro mult_strict_right_mono) simp_all
  also have "\<dots> = pow2r (53 + e)" by (simp add: pow2r_add pow2r_def [of 53])
  also have "\<dots> \<le> pow2r 1024" using e by (intro pow2r_mono) simp
  finally have v: "?v < pow2r 1024" .
  have "x < of_int 9007199254740992 * pow2r e"
  proof -
    have "(of_int f + 1 / 2 :: rat) \<le> of_int 9007199254740992" using f(2) by linarith
    then have "(of_int f + 1 / 2) * pow2r e \<le> of_int 9007199254740992 * pow2r e" using pe by (intro mult_right_mono) simp_all
    with hi show ?thesis by linarith
  qed
  also have "of_int 9007199254740992 * pow2r e = pow2r (53 + e)" by (simp add: pow2r_add pow2r_def [of 53])
  finally have x53: "x < pow2r (52 + e + 1)" by (simp add: algebra_simps)
  have "\<exists>m. max (flog2 x) (-1022) - 52 = m \<and> of_int (round_half_even (x / pow2r m)) * pow2r m = ?v"
  proof (cases "pow2r (52 + e) \<le> x \<or> e = -1074")
    case True
    have "max (flog2 x) (-1022) = 52 + e"
    proof (cases "pow2r (52 + e) \<le> x")
      case True
      then show ?thesis using flog2_eqI [OF _ x53] e by simp
    next
      case False
      then have "e = -1074" using \<open>pow2r (52 + e) \<le> x \<or> e = -1074\<close> by simp
      moreover have "\<not> -1021 \<le> flog2 x"
        using flog2_bounds(1) [OF x] pow2r_mono [of "-1021" "flog2 x"] x53 \<open>e = -1074\<close> by auto
      ultimately show ?thesis by simp
    qed
    moreover have "round_half_even (x / pow2r e) = f"
    proof (rule round_half_even_near)
      show "x / pow2r e < of_int f + 1 / 2" using hi pe by (simp add: pos_divide_less_eq)
      have "(of_int f - 1 / 2) * pow2r e \<le> (of_int f - (if f = 4503599627370496 \<and> e \<noteq> -1074 then 1 / 4 else 1 / 2)) * pow2r e"
        using pe by (intro mult_right_mono) auto
      then have "(of_int f - 1 / 2) * pow2r e < x" using lo by linarith
      then show "of_int f - 1 / 2 < x / pow2r e" using pe by (simp add: pos_less_divide_eq)
    qed
    ultimately show ?thesis by auto
  next
    case False
    then have xl: "x < of_int 4503599627370496 * pow2r e" and ee: "e \<noteq> -1074"
      by (simp_all add: pow2r_add pow2r_def [of 52])
    have f52: "f = 4503599627370496"
    proof (rule ccontr)
      assume ne: "f \<noteq> 4503599627370496"
      then have "(of_int 4503599627370496 :: rat) \<le> of_int f - 1 / 2" using n ee by linarith
      then have "of_int 4503599627370496 * pow2r e \<le> (of_int f - 1 / 2) * pow2r e" using pe by (intro mult_right_mono) simp_all
      with xl lo ne show False by simp
    qed
    have half: "pow2r e = 2 * pow2r (e - 1)" using pow2r_add [of "e - 1" 1] by (simp add: pow2r_def [of 1])
    have "pow2r (51 + e) \<le> x"
    proof -
      have "pow2r (51 + e) = of_int 2251799813685248 * pow2r e" by (simp add: pow2r_add pow2r_def [of 51])
      also have "\<dots> \<le> (of_int f - 1 / 4) * pow2r e" unfolding f52 using pe by (intro mult_right_mono) simp_all
      finally show ?thesis using lo f52 ee by simp
    qed
    moreover have "x < pow2r (51 + e + 1)" using xl by (simp add: pow2r_add pow2r_def [of 52])
    ultimately have "flog2 x = 51 + e" by (rule flog2_eqI)
    then have "max (flog2 x) (-1022) - 52 = e - 1" using e ee by simp
    moreover have "round_half_even (x / pow2r (e - 1)) = 9007199254740992"
    proof (rule round_half_even_near)
      have "x < of_int 9007199254740992 * pow2r (e - 1)" using xl half by simp
      then show "x / pow2r (e - 1) < of_int 9007199254740992 + 1 / 2"
        by (simp add: pos_divide_less_eq algebra_simps) (use pow2r_pos [of "e - 1"] in linarith)
      have "(of_int 9007199254740992 - 1 / 2) * pow2r (e - 1) < x" using lo f52 ee half by (simp add: algebra_simps)
      then show "of_int 9007199254740992 - 1 / 2 < x / pow2r (e - 1)" by (simp add: pos_less_divide_eq)
    qed
    ultimately show ?thesis using half f52 by (intro exI [of _ "e - 1"]) simp
  qed
  then have r: "of_int (round_half_even (x / pow2r (max (flog2 x) (-1022) - 52))) * pow2r (max (flog2 x) (-1022) - 52) = ?v"
    by blast
  have "0 < ?v" using f(1) pe by simp
  moreover have "\<bar>x\<bar> = x" "\<not> x < 0" "x \<noteq> 0" using x by simp_all
  ultimately show ?thesis using v by (simp only: round_double_def Let_def r if_False if_True) (auto simp: not_le)
qed

lemma round_double_neg:
  assumes "0 < x" "round_double z x = D_fin v"
  shows "round_double z' (- x) = D_fin (- v)"
  using assms by (auto simp: round_double_def Let_def split: if_splits)

end
