(* ===== verification/Json.thy ===== *)
theory Json imports StdMap Ieee754 begin

text \<open>
  The values of the json library (\<open>json.hpp\<close>, \<open>basic_json\<close>) and the operations the service calls on
  them: checked access \<open>at\<close>, \<open>operator[]\<close>, \<open>contains\<close>, \<open>value\<close> with a default, the conversions
  \<open>get<T>\<close> and \<open>operator==\<close>.  An object is a \<open>std::map<std::string, json>\<close> (theory \<open>StdMap\<close>).  The
  value types \<open>binary\<close> and \<open>discarded\<close> never arise: the text parser of the service does not produce
  them and no code constructs them.
\<close>

section \<open>Values\<close>

datatype json =
    J_null
  | J_object "(string \<times> json) list"
  | J_array "json list"
  | J_string string
  | J_boolean bool
  | J_integer int
  | J_unsigned int
  | J_float double

text \<open>Well-formed values: numbers fit their 64-bit types (or are doubles) and object keys are in map order.\<close>

fun json_ok :: "json \<Rightarrow> bool" where
  "json_ok (J_object m) \<longleftrightarrow> sm_inv m \<and> (\<forall>kv\<in>set m. json_ok (snd kv))"
| "json_ok (J_array xs) \<longleftrightarrow> (\<forall>x\<in>set xs. json_ok x)"
| "json_ok (J_integer i) \<longleftrightarrow> -9223372036854775808 \<le> i \<and> i \<le> 9223372036854775807"
| "json_ok (J_unsigned n) \<longleftrightarrow> 0 \<le> n \<and> n \<le> 18446744073709551615"
| "json_ok (J_float d) \<longleftrightarrow> d_ok d"
| "json_ok _ \<longleftrightarrow> True"

definition is_object :: "json \<Rightarrow> bool" where
  "is_object j = (case j of J_object _ \<Rightarrow> True | _ \<Rightarrow> False)"

definition is_array :: "json \<Rightarrow> bool" where
  "is_array j = (case j of J_array _ \<Rightarrow> True | _ \<Rightarrow> False)"

definition is_null :: "json \<Rightarrow> bool" where
  "is_null j = (case j of J_null \<Rightarrow> True | _ \<Rightarrow> False)"

section \<open>Element access\<close>

text \<open>\<open>at(key)\<close>: type error 304 off objects, out of range 403 for a missing key.\<close>

definition json_at :: "json \<Rightarrow> string \<Rightarrow> json res" where
  "json_at j key = (case j of
      J_object m \<Rightarrow> (case map_of m key of Some v \<Rightarrow> Inr v | None \<Rightarrow> Inl (Json_out_of_range 403))
    | _ \<Rightarrow> Inl (Json_type_error 304))"

text \<open>
  \<open>operator[](key)\<close> on a mutable value returns a reference: null becomes an empty object, a missing key
  is emplaced with null, any other type raises type error 305.  \<open>json_ref\<close> is the value after the call;
  \<open>json_set j key v\<close> is the statement \<open>j[key] = v\<close>.
\<close>

definition json_ref :: "json \<Rightarrow> string \<Rightarrow> json res" where
  "json_ref j key = (case j of
      J_null \<Rightarrow> Inr (J_object (sm_emplace key J_null []))
    | J_object m \<Rightarrow> Inr (J_object (sm_emplace key J_null m))
    | _ \<Rightarrow> Inl (Json_type_error 305))"

definition json_set :: "json \<Rightarrow> string \<Rightarrow> json \<Rightarrow> json res" where
  "json_set j key v = rbind (json_ref j key) (\<lambda>j'. case j' of
      J_object m \<Rightarrow> Inr (J_object (sm_assign key v m)) | _ \<Rightarrow> Inr j')"

text \<open>\<open>j.at(key) = v\<close>: assignment through the checked reference.\<close>

definition json_at_set :: "json \<Rightarrow> string \<Rightarrow> json \<Rightarrow> json res" where
  "json_at_set j key v = rbind (json_at j key) (\<lambda>_. case j of
      J_object m \<Rightarrow> Inr (J_object (sm_assign key v m)) | _ \<Rightarrow> Inr j)"

definition json_contains :: "json \<Rightarrow> string \<Rightarrow> bool" where
  "json_contains j key = (case j of J_object m \<Rightarrow> map_of m key \<noteq> None | _ \<Rightarrow> False)"

text \<open>
  What a range-based \<open>for\<close> visits: the elements of an array, the values of an object in key order,
  nothing for null, and any other value once, as itself.
\<close>

definition json_items :: "json \<Rightarrow> json list" where
  "json_items j = (case j of
      J_array xs \<Rightarrow> xs
    | J_object m \<Rightarrow> map snd m
    | J_null \<Rightarrow> []
    | _ \<Rightarrow> [j])"

section \<open>Conversions\<close>

text \<open>
  \<open>get<int>\<close> goes through the generic arithmetic overload, which also accepts booleans; a wider integer
  is converted with \<open>static_cast<int>\<close>, a float with the cast of the target.
\<close>

definition get_int :: "json \<Rightarrow> int res" where
  "get_int j = (case j of
      J_unsigned n \<Rightarrow> Inr (wrap32 n)
    | J_integer i \<Rightarrow> Inr (wrap32 i)
    | J_float d \<Rightarrow> Inr (d_cast_int32 d)
    | J_boolean b \<Rightarrow> Inr (if b then 1 else 0)
    | _ \<Rightarrow> Inl (Json_type_error 302))"

definition get_double :: "json \<Rightarrow> double res" where
  "get_double j = (case j of
      J_unsigned n \<Rightarrow> Inr (d_of_int n)
    | J_integer i \<Rightarrow> Inr (d_of_int i)
    | J_float d \<Rightarrow> Inr d
    | _ \<Rightarrow> Inl (Json_type_error 302))"

definition get_string :: "json \<Rightarrow> string res" where
  "get_string j = (case j of J_string s \<Rightarrow> Inr s | _ \<Rightarrow> Inl (Json_type_error 302))"

text \<open>\<open>value(key, default)\<close> for \<open>int\<close>: type error 306 off objects.\<close>

definition json_value_int :: "json \<Rightarrow> string \<Rightarrow> int \<Rightarrow> int res" where
  "json_value_int j key dflt = (case j of
      J_object m \<Rightarrow> (case map_of m key of Some v \<Rightarrow> get_int v | None \<Rightarrow> Inr dflt)
    | _ \<Rightarrow> Inl (Json_type_error 306))"

section \<open>Equality\<close>

text \<open>
  \<open>operator==\<close>: structural on equal types, by value after conversion on mixed numbers, false
  otherwise; NaN equals nothing.
\<close>

fun json_eq :: "json \<Rightarrow> json \<Rightarrow> bool"
  and json_eq_list :: "json list \<Rightarrow> json list \<Rightarrow> bool"
  and json_eq_object :: "(string \<times> json) list \<Rightarrow> (string \<times> json) list \<Rightarrow> bool" where
  "json_eq (J_array xs) (J_array ys) = json_eq_list xs ys"
| "json_eq (J_object m) (J_object n) = json_eq_object m n"
| "json_eq J_null J_null = True"
| "json_eq (J_string s) (J_string t) = (s = t)"
| "json_eq (J_boolean a) (J_boolean b) = (a = b)"
| "json_eq (J_integer i) (J_integer k) = (i = k)"
| "json_eq (J_unsigned i) (J_unsigned k) = (i = k)"
| "json_eq (J_float x) (J_float y) = d_eq x y"
| "json_eq (J_integer i) (J_float y) = d_eq (d_of_int i) y"
| "json_eq (J_float x) (J_integer k) = d_eq x (d_of_int k)"
| "json_eq (J_unsigned i) (J_float y) = d_eq (d_of_int i) y"
| "json_eq (J_float x) (J_unsigned k) = d_eq x (d_of_int k)"
| "json_eq (J_unsigned i) (J_integer k) = (wrap64 i = k)"
| "json_eq (J_integer i) (J_unsigned k) = (i = wrap64 k)"
| "json_eq _ _ = False"
| "json_eq_list [] [] = True"
| "json_eq_list (x # xs) (y # ys) = (json_eq x y \<and> json_eq_list xs ys)"
| "json_eq_list _ _ = False"
| "json_eq_object [] [] = True"
| "json_eq_object ((k, x) # xs) ((l, y) # ys) = (k = l \<and> json_eq x y \<and> json_eq_object xs ys)"
| "json_eq_object _ _ = False"

section \<open>Facts\<close>

lemma json_at_object [simp]:
  "json_at (J_object m) k = (case map_of m k of Some v \<Rightarrow> Inr v | None \<Rightarrow> Inl (Json_out_of_range 403))"
  by (simp add: json_at_def)

lemma json_set_object [simp]:
  "sm_inv m \<Longrightarrow> json_set (J_object m) k v = Inr (J_object (sm_assign k v m))"
  by (auto simp: json_set_def json_ref_def sm_emplace_def sm_assign_twice split: option.splits)

lemma json_set_null [simp]: "json_set J_null k v = Inr (J_object [(k, v)])"
  by (simp add: json_set_def json_ref_def sm_emplace_def)

lemma json_set_Inr_iff:
  "json_set j k v = Inr j' \<Longrightarrow> (\<exists>m. j' = J_object m \<and> map_of m k = Some v) \<or> \<not> json_ok j"
  by (cases j) (auto simp: json_set_def json_ref_def sm_emplace_def map_of_sm_assign sm_assign_twice
      split: option.splits)

lemma json_at_json_set:
  assumes "json_ok j" "json_set j k v = Inr j'"
  shows "json_at j' k' = (if k' = k then Inr v
    else case j of J_null \<Rightarrow> Inl (Json_out_of_range 403) | _ \<Rightarrow> json_at j k')"
proof (cases j)
  case (J_object m)
  with assms have "sm_inv m" by simp
  with J_object assms show ?thesis by (auto simp: map_of_sm_assign split: option.splits)
qed (use assms in \<open>auto simp: json_set_def json_ref_def sm_emplace_def\<close>)

lemma json_ok_set:
  assumes "json_ok j" "json_ok v" "json_set j k v = Inr j'"
  shows "json_ok j'"
proof (cases j)
  case (J_object m)
  have "snd ` set (sm_assign k v m) \<subseteq> insert v (snd ` set m)"
    by (induction k v m rule: sm_assign.induct) auto
  with J_object assms show ?thesis by (fastforce simp: image_subset_iff)
qed (use assms in \<open>auto simp: json_set_def json_ref_def sm_emplace_def\<close>)

lemma get_int_is_int32: "get_int j = Inr i \<Longrightarrow> is_int32 i"
  by (cases j) (auto simp: get_int_def is_int32_def [of 0] is_int32_def [of 1]
      split: if_splits)

lemma json_eq_string [simp]: "json_eq (J_string s) j \<longleftrightarrow> j = J_string s"
  by (cases j) auto

lemma json_eq_string' [simp]: "json_eq j (J_string s) \<longleftrightarrow> j = J_string s"
  by (cases j) auto

lemma json_eq_sym: "json_eq x y = json_eq y x"
  and json_eq_list_sym: "json_eq_list xs ys = json_eq_list ys xs"
  and json_eq_object_sym: "json_eq_object m n = json_eq_object n m"
  by (induction x y and xs ys and m n rule: json_eq_json_eq_list_json_eq_object.induct)
    (auto simp: d_eq_sym)

end
