(* ===== verification/JsonLexer.thy ===== *)
theory JsonLexer imports Json begin

text \<open>
  The lexer of the json library (\<open>json.hpp\<close>, class \<open>lexer\<close>).  The input adapter is the list of bytes
  not yet read: \<open>get()\<close> takes its head (the end of the list is EOF) and \<open>unget()\<close> leaves the byte in
  place.  Positions and the text of error messages only feed diagnostics and are not modelled; the
  reason of a failure is a value of \<open>lex_error\<close>.  The process never calls \<open>setlocale\<close>, so the decimal
  point is \<open>.\<close>, and the service never enables comments.
\<close>

section \<open>Tokens\<close>

datatype lex_error =
    Missing_quote | Bad_hex | Bad_surrogate | Lone_surrogate | Bad_escape
  | Control_char nat | Ill_formed_utf8
  | Digit_after_minus | Digit_after_point | Exponent_expected | Digit_after_exponent_sign
  | Invalid_literal | Invalid_bom

datatype token =
    T_true | T_false | T_null
  | T_string string
  | T_unsigned int
  | T_integer int
  | T_float double
  | T_begin_array | T_begin_object | T_end_array | T_end_object
  | T_name_separator | T_value_separator
  | T_error lex_error
  | T_end_of_input

abbreviation ord :: "char \<Rightarrow> nat" where "ord c \<equiv> of_char c"

definition is_digit :: "char \<Rightarrow> bool" where
  "is_digit c \<longleftrightarrow> 48 \<le> ord c \<and> ord c \<le> 57"

definition digit_val :: "char \<Rightarrow> nat" where
  "digit_val c = ord c - 48"

definition is_ws :: "char \<Rightarrow> bool" where
  "is_ws c \<longleftrightarrow> c = CHR '' '' \<or> c = CHR 0x09 \<or> c = CHR 0x0A \<or> c = CHR 0x0D"

section \<open>Strings\<close>

definition hex_val :: "char \<Rightarrow> nat option" where
  "hex_val c =
     (if 48 \<le> ord c \<and> ord c \<le> 57 then Some (ord c - 48)
      else if 65 \<le> ord c \<and> ord c \<le> 70 then Some (ord c - 55)
      else if 97 \<le> ord c \<and> ord c \<le> 102 then Some (ord c - 87)
      else None)"

text \<open>\<open>get_codepoint\<close>: four hex digits after \<open>\u\<close>; \<open>None\<close> is the code's \<open>-1\<close>.\<close>

fun get_codepoint :: "string \<Rightarrow> (nat \<times> string) option" where
  "get_codepoint (a # b # c # d # rest) =
     (case (hex_val a, hex_val b, hex_val c, hex_val d) of
        (Some w, Some x, Some y, Some z) \<Rightarrow> Some (w * 4096 + x * 256 + y * 16 + z, rest)
      | _ \<Rightarrow> None)"
| "get_codepoint _ = None"

text \<open>The translation of a code point into bytes (the operands of each \<open>|\<close> have no bit in common).\<close>

definition encode_codepoint :: "nat \<Rightarrow> string" where
  "encode_codepoint cp =
     (if cp < 0x80 then [char_of cp]
      else if cp \<le> 0x7FF then [char_of (0xC0 + cp div 64), char_of (0x80 + cp mod 64)]
      else if cp \<le> 0xFFFF then
        [char_of (0xE0 + cp div 4096), char_of (0x80 + (cp div 64) mod 64), char_of (0x80 + cp mod 64)]
      else
        [char_of (0xF0 + cp div 262144), char_of (0x80 + (cp div 4096) mod 64),
         char_of (0x80 + (cp div 64) mod 64), char_of (0x80 + cp mod 64)])"

text \<open>The case \<open>'u'\<close> of the escapes: one escape, or a surrogate pair of two.\<close>

definition scan_unicode_escape :: "string \<Rightarrow> lex_error + (string \<times> string)" where
  "scan_unicode_escape s = (case get_codepoint s of
      None \<Rightarrow> Inl Bad_hex
    | Some (cp1, rest) \<Rightarrow>
        if 0xD800 \<le> cp1 \<and> cp1 \<le> 0xDBFF then
          (case rest of
             b # u # rest1 \<Rightarrow>
               if b = CHR 0x5C \<and> u = CHR ''u'' then
                 (case get_codepoint rest1 of
                    None \<Rightarrow> Inl Bad_hex
                  | Some (cp2, rest2) \<Rightarrow>
                      if 0xDC00 \<le> cp2 \<and> cp2 \<le> 0xDFFF
                      then Inr (encode_codepoint (cp1 * 1024 + cp2 - 0x35FDC00), rest2)
                      else Inl Bad_surrogate)
               else Inl Bad_surrogate
           | _ \<Rightarrow> Inl Bad_surrogate)
        else if 0xDC00 \<le> cp1 \<and> cp1 \<le> 0xDFFF then Inl Lone_surrogate
        else Inr (encode_codepoint cp1, rest))"

definition scan_escape :: "string \<Rightarrow> lex_error + (string \<times> string)" where
  "scan_escape s = (case s of
      [] \<Rightarrow> Inl Bad_escape
    | c # cs \<Rightarrow>
        if c = CHR 0x22 then Inr ([CHR 0x22], cs)
        else if c = CHR 0x5C then Inr ([CHR 0x5C], cs)
        else if c = CHR ''/'' then Inr (''/'', cs)
        else if c = CHR ''b'' then Inr ([CHR 0x08], cs)
        else if c = CHR ''f'' then Inr ([CHR 0x0C], cs)
        else if c = CHR ''n'' then Inr ([CHR 0x0A], cs)
        else if c = CHR ''r'' then Inr ([CHR 0x0D], cs)
        else if c = CHR ''t'' then Inr ([CHR 0x09], cs)
        else if c = CHR ''u'' then scan_unicode_escape cs
        else Inl Bad_escape)"

text \<open>\<open>next_byte_in_range\<close>: the continuation bytes of a UTF-8 sequence, each within its range.\<close>

fun next_byte_in_range :: "(nat \<times> nat) list \<Rightarrow> string \<Rightarrow> lex_error + (string \<times> string)" where
  "next_byte_in_range [] s = Inr ([], s)"
| "next_byte_in_range ((lo, hi) # rs) [] = Inl Ill_formed_utf8"
| "next_byte_in_range ((lo, hi) # rs) (c # cs) =
     (if lo \<le> ord c \<and> ord c \<le> hi
      then (case next_byte_in_range rs cs of Inl e \<Rightarrow> Inl e | Inr (bs, r) \<Rightarrow> Inr (c # bs, r))
      else Inl Ill_formed_utf8)"

text \<open>The ranges each lead byte asks for (the case labels from \<open>0x20\<close> on); \<open>None\<close> is ill-formed.\<close>

definition utf8_ranges :: "nat \<Rightarrow> (nat \<times> nat) list option" where
  "utf8_ranges b =
     (if 0x20 \<le> b \<and> b \<le> 0x7F then Some []
      else if 0xC2 \<le> b \<and> b \<le> 0xDF then Some [(0x80, 0xBF)]
      else if b = 0xE0 then Some [(0xA0, 0xBF), (0x80, 0xBF)]
      else if (0xE1 \<le> b \<and> b \<le> 0xEC) \<or> b = 0xEE \<or> b = 0xEF then Some [(0x80, 0xBF), (0x80, 0xBF)]
      else if b = 0xED then Some [(0x80, 0x9F), (0x80, 0xBF)]
      else if b = 0xF0 then Some [(0x90, 0xBF), (0x80, 0xBF), (0x80, 0xBF)]
      else if 0xF1 \<le> b \<and> b \<le> 0xF3 then Some [(0x80, 0xBF), (0x80, 0xBF), (0x80, 0xBF)]
      else if b = 0xF4 then Some [(0x80, 0x8F), (0x80, 0xBF), (0x80, 0xBF)]
      else None)"

text \<open>One iteration of the loop of \<open>scan_string\<close> on a byte that is not the closing quote: the bytes
  added to the token buffer and the input left.\<close>

definition scan_char :: "char \<Rightarrow> string \<Rightarrow> lex_error + (string \<times> string)" where
  "scan_char c cs =
     (if c = CHR 0x5C then scan_escape cs
      else if ord c \<le> 0x1F then Inl (Control_char (ord c))
      else (case utf8_ranges (ord c) of
              None \<Rightarrow> Inl Ill_formed_utf8
            | Some rs \<Rightarrow> (case next_byte_in_range rs cs of
                 Inl e \<Rightarrow> Inl e | Inr (bs, r) \<Rightarrow> Inr (c # bs, r))))"

lemma get_codepoint_length: "get_codepoint s = Some (cp, r) \<Longrightarrow> length r < length s"
  by (induction s rule: get_codepoint.induct) (auto split: option.splits)

lemma next_byte_length: "next_byte_in_range rs s = Inr (bs, r) \<Longrightarrow> length r \<le> length s"
  by (induction rs s arbitrary: bs rule: next_byte_in_range.induct)
    (auto split: if_splits sum.splits)

lemma scan_unicode_length: "scan_unicode_escape s = Inr (bs, r) \<Longrightarrow> length r \<le> length s"
  by (auto simp: scan_unicode_escape_def split: option.splits if_splits list.splits
      dest!: get_codepoint_length)

lemma scan_escape_length: "scan_escape s = Inr (bs, r) \<Longrightarrow> length r \<le> length s"
  by (auto simp: scan_escape_def split: list.splits if_splits dest!: scan_unicode_length)

lemma scan_char_length: "scan_char c cs = Inr (bs, r) \<Longrightarrow> length r \<le> length cs"
  by (auto simp: scan_char_def split: option.splits if_splits sum.splits
      dest!: scan_escape_length next_byte_length)

function scan_string :: "string \<Rightarrow> lex_error + (string \<times> string)" where
  "scan_string [] = Inl Missing_quote"
| "scan_string (c # cs) =
     (if c = CHR 0x22 then Inr ([], cs)
      else case scan_char c cs of
             Inl e \<Rightarrow> Inl e
           | Inr (bs, r) \<Rightarrow> (case scan_string r of Inl e \<Rightarrow> Inl e | Inr (t, r') \<Rightarrow> Inr (bs @ t, r')))"
  by pat_completeness auto
termination
  by (relation "measure length") (auto dest: scan_char_length)

section \<open>Numbers\<close>

text \<open>
  The automaton of \<open>scan_number\<close>, one function per label.  Each takes the input and returns the bytes
  added to the buffer and the input left; the flag says whether the state sets \<open>value_float\<close>.  The
  self-loops of the labels \<open>any1\<close>, \<open>decimal2\<close> and \<open>any2\<close> are \<open>scan_digits\<close>.
\<close>

fun scan_digits :: "string \<Rightarrow> string \<times> string" where
  "scan_digits (c # cs) = (if is_digit c then apfst ((#) c) (scan_digits cs) else ([], c # cs))"
| "scan_digits [] = ([], [])"

definition num_any2 :: "string \<Rightarrow> string \<times> string" where
  "num_any2 = scan_digits"

definition num_sign :: "string \<Rightarrow> lex_error + (string \<times> string)" where
  "num_sign s = (case s of
      c # cs \<Rightarrow> if is_digit c then Inr (apfst ((#) c) (num_any2 cs)) else Inl Digit_after_exponent_sign
    | [] \<Rightarrow> Inl Digit_after_exponent_sign)"

definition num_exponent :: "string \<Rightarrow> lex_error + (string \<times> string)" where
  "num_exponent s = (case s of
      c # cs \<Rightarrow>
        if c = CHR ''+'' \<or> c = CHR ''-'' then
          (case num_sign cs of Inl e \<Rightarrow> Inl e | Inr p \<Rightarrow> Inr (apfst ((#) c) p))
        else if is_digit c then Inr (apfst ((#) c) (num_any2 cs))
        else Inl Exponent_expected
    | [] \<Rightarrow> Inl Exponent_expected)"

definition num_decimal2 :: "string \<Rightarrow> lex_error + (string \<times> string)" where
  "num_decimal2 s = (let (ds, r) = scan_digits s in case r of
      c # cs \<Rightarrow>
        if c = CHR ''e'' \<or> c = CHR ''E'' then
          (case num_exponent cs of Inl e \<Rightarrow> Inl e | Inr p \<Rightarrow> Inr (apfst (\<lambda>b. ds @ c # b) p))
        else Inr (ds, r)
    | [] \<Rightarrow> Inr (ds, r))"

definition num_decimal1 :: "string \<Rightarrow> lex_error + (string \<times> string)" where
  "num_decimal1 s = (case s of
      c # cs \<Rightarrow>
        if is_digit c then (case num_decimal2 cs of Inl e \<Rightarrow> Inl e | Inr p \<Rightarrow> Inr (apfst ((#) c) p))
        else Inl Digit_after_point
    | [] \<Rightarrow> Inl Digit_after_point)"

text \<open>Label \<open>zero\<close>, and the exit of label \<open>any1\<close>: point, exponent or done.\<close>

definition num_zero :: "string \<Rightarrow> lex_error + (bool \<times> string \<times> string)" where
  "num_zero s = (case s of
      c # cs \<Rightarrow>
        if c = CHR ''.'' then
          (case num_decimal1 cs of Inl e \<Rightarrow> Inl e | Inr (b, r) \<Rightarrow> Inr (True, c # b, r))
        else if c = CHR ''e'' \<or> c = CHR ''E'' then
          (case num_exponent cs of Inl e \<Rightarrow> Inl e | Inr (b, r) \<Rightarrow> Inr (True, c # b, r))
        else Inr (False, [], s)
    | [] \<Rightarrow> Inr (False, [], s))"

definition num_any1 :: "string \<Rightarrow> lex_error + (bool \<times> string \<times> string)" where
  "num_any1 s = (let (ds, r) = scan_digits s in
     case num_zero r of Inl e \<Rightarrow> Inl e | Inr (f, b, r') \<Rightarrow> Inr (f, ds @ b, r'))"

text \<open>The first digit of the integer part chooses between \<open>zero\<close> and \<open>any1\<close>.\<close>

definition num_int :: "char \<Rightarrow> string \<Rightarrow> lex_error + (bool \<times> string \<times> string)" where
  "num_int c cs = (case (if c = CHR ''0'' then num_zero cs else num_any1 cs) of
      Inl e \<Rightarrow> Inl e | Inr (f, b, r) \<Rightarrow> Inr (f, c # b, r))"

definition num_minus :: "string \<Rightarrow> lex_error + (bool \<times> string \<times> string)" where
  "num_minus s = (case s of
      c # cs \<Rightarrow> if is_digit c then num_int c cs else Inl Digit_after_minus
    | [] \<Rightarrow> Inl Digit_after_minus)"

fun dec_nat :: "string \<Rightarrow> nat \<Rightarrow> nat" where
  "dec_nat [] n = n"
| "dec_nat (c # cs) n = dec_nat cs (n * 10 + digit_val c)"

text \<open>
  \<open>strtod\<close> on a text the automaton accepted: the correctly rounded value of the decimal it denotes
  (digits, fraction, exponent), as the C library computes it in the default rounding mode.
\<close>

definition dec_exponent :: "string \<Rightarrow> int" where
  "dec_exponent s = (case s of
      [] \<Rightarrow> 0
    | e # t \<Rightarrow> (case t of
        c # cs \<Rightarrow> if c = CHR ''-'' then - int (dec_nat cs 0)
                  else if c = CHR ''+'' then int (dec_nat cs 0) else int (dec_nat t 0)
      | [] \<Rightarrow> 0))"

definition strtod_abs :: "string \<Rightarrow> bool \<Rightarrow> double" where
  "strtod_abs s neg =
     (let (ip, r) = scan_digits s;
          (fp, r') = (case r of c # cs \<Rightarrow> if c = CHR ''.'' then scan_digits cs else ([], r) | [] \<Rightarrow> ([], r));
          m = int (dec_nat (ip @ fp) 0);
          e = dec_exponent r' - int (length fp);
          q = (if 0 \<le> e then of_int (m * 10 ^ nat e) else of_int m / of_int (10 ^ nat (- e)))
      in round_double neg (if neg then - q else q))"

definition strtod :: "string \<Rightarrow> double" where
  "strtod s = (case s of
      c # cs \<Rightarrow> if c = CHR ''-'' then strtod_abs cs True else strtod_abs s False
    | [] \<Rightarrow> D_zero False)"

text \<open>Label \<open>done\<close>: integers first (\<open>strtoull\<close>, \<open>strtoll\<close>), floating point when they do not fit.\<close>

definition num_done_unsigned :: "bool \<Rightarrow> string \<Rightarrow> token" where
  "num_done_unsigned is_float buf =
     (if is_float then T_float (strtod buf)
      else let x = int (dec_nat buf 0) in
           if x \<le> 18446744073709551615 then T_unsigned x else T_float (strtod buf))"

definition num_done_integer :: "bool \<Rightarrow> string \<Rightarrow> token" where
  "num_done_integer is_float buf =
     (if is_float then T_float (strtod buf)
      else let x = - int (dec_nat (tl buf) 0) in
           if -9223372036854775808 \<le> x then T_integer x else T_float (strtod buf))"

definition scan_number :: "char \<Rightarrow> string \<Rightarrow> token \<times> string" where
  "scan_number c cs =
     (if c = CHR ''-'' then
        (case num_minus cs of
           Inl e \<Rightarrow> (T_error e, []) | Inr (f, b, r) \<Rightarrow> (num_done_integer f (c # b), r))
      else
        (case num_int c cs of
           Inl e \<Rightarrow> (T_error e, []) | Inr (f, b, r) \<Rightarrow> (num_done_unsigned f b, r)))"

section \<open>The scanner\<close>

fun scan_literal :: "string \<Rightarrow> token \<Rightarrow> string \<Rightarrow> token \<times> string" where
  "scan_literal [] t s = (t, s)"
| "scan_literal (l # ls) t [] = (T_error Invalid_literal, [])"
| "scan_literal (l # ls) t (c # cs) =
     (if c = l then scan_literal ls t cs else (T_error Invalid_literal, []))"

definition skip_bom :: "string \<Rightarrow> string option" where
  "skip_bom s = (case s of
      c # cs \<Rightarrow>
        if c = CHR 0xEF then
          (case cs of
             d # e # rest \<Rightarrow> if d = CHR 0xBB \<and> e = CHR 0xBF then Some rest else None
           | _ \<Rightarrow> None)
        else Some s
    | [] \<Rightarrow> Some s)"

fun skip_whitespace :: "string \<Rightarrow> string" where
  "skip_whitespace (c # cs) = (if is_ws c then skip_whitespace cs else c # cs)"
| "skip_whitespace [] = []"

text \<open>\<open>scan\<close> after the byte order mark: one token and the input left.\<close>

definition scan_token :: "char \<Rightarrow> string \<Rightarrow> token \<times> string" where
  "scan_token c cs =
     (if c = CHR ''['' then (T_begin_array, cs)
      else if c = CHR '']'' then (T_end_array, cs)
      else if c = CHR ''{'' then (T_begin_object, cs)
      else if c = CHR ''}'' then (T_end_object, cs)
      else if c = CHR '':'' then (T_name_separator, cs)
      else if c = CHR '','' then (T_value_separator, cs)
      else if c = CHR ''t'' then scan_literal ''rue'' T_true cs
      else if c = CHR ''f'' then scan_literal ''alse'' T_false cs
      else if c = CHR ''n'' then scan_literal ''ull'' T_null cs
      else if c = CHR 0x22 then
        (case scan_string cs of Inl e \<Rightarrow> (T_error e, []) | Inr (t, r) \<Rightarrow> (T_string t, r))
      else if c = CHR ''-'' \<or> is_digit c then scan_number c cs
      else if c = CHR 0x00 then (T_end_of_input, cs)
      else (T_error Invalid_literal, []))"

definition scan :: "string \<Rightarrow> token \<times> string" where
  "scan s = (case skip_whitespace s of [] \<Rightarrow> (T_end_of_input, []) | c # cs \<Rightarrow> scan_token c cs)"

section \<open>Every token consumes input\<close>

lemma scan_string_length: "scan_string s = Inr (t, r) \<Longrightarrow> length r < length s"
  by (induction s arbitrary: t r rule: scan_string.induct)
    (fastforce split: if_splits sum.splits prod.splits dest: scan_char_length)+

lemma scan_digits_length: "scan_digits s = (ds, r) \<Longrightarrow> length r \<le> length s"
  by (induction s arbitrary: ds) (auto simp: apfst_def map_prod_def split: if_splits prod.splits)

lemma num_sign_length: "num_sign s = Inr (b, r) \<Longrightarrow> length r \<le> length s"
  by (auto simp: num_sign_def num_any2_def apfst_def map_prod_def split: list.splits if_splits prod.splits
      dest!: scan_digits_length)

lemma num_exponent_length: "num_exponent s = Inr (b, r) \<Longrightarrow> length r \<le> length s"
  by (auto simp: num_exponent_def num_any2_def apfst_def map_prod_def
      split: list.splits if_splits prod.splits sum.splits dest!: scan_digits_length num_sign_length)

lemma num_decimal2_length: "num_decimal2 s = Inr (b, r) \<Longrightarrow> length r \<le> length s"
  by (auto simp: num_decimal2_def apfst_def map_prod_def
      split: list.splits if_splits prod.splits sum.splits dest!: scan_digits_length num_exponent_length)

lemma num_decimal1_length: "num_decimal1 s = Inr (b, r) \<Longrightarrow> length r \<le> length s"
  by (auto simp: num_decimal1_def apfst_def map_prod_def
      split: list.splits if_splits prod.splits sum.splits dest!: num_decimal2_length)

lemma num_zero_length: "num_zero s = Inr (f, b, r) \<Longrightarrow> length r \<le> length s"
  by (auto simp: num_zero_def split: list.splits if_splits prod.splits sum.splits
      dest!: num_decimal1_length num_exponent_length)

lemma num_any1_length: "num_any1 s = Inr (f, b, r) \<Longrightarrow> length r \<le> length s"
  by (auto simp: num_any1_def split: prod.splits sum.splits dest!: scan_digits_length num_zero_length)

lemma num_int_length: "num_int c s = Inr (f, b, r) \<Longrightarrow> length r \<le> length s"
  by (auto simp: num_int_def split: prod.splits sum.splits if_splits dest!: num_any1_length num_zero_length)

lemma num_minus_length: "num_minus s = Inr (f, b, r) \<Longrightarrow> length r \<le> length s"
  by (auto simp: num_minus_def split: list.splits if_splits dest!: num_int_length)

lemma scan_literal_length: "scan_literal ls t s = (t', r) \<Longrightarrow> length r \<le> length s"
  by (induction ls t s rule: scan_literal.induct) (auto split: if_splits)

lemma scan_number_length: "scan_number c cs = (t, r) \<Longrightarrow> length r \<le> length cs"
  by (auto simp: scan_number_def split: if_splits sum.splits prod.splits
      dest!: num_int_length num_minus_length)

lemma scan_token_length: "scan_token c cs = (t, r) \<Longrightarrow> length r \<le> length cs"
  by (auto simp: scan_token_def split: if_splits sum.splits
      dest!: scan_literal_length scan_number_length scan_string_length)

lemma skip_whitespace_length: "length (skip_whitespace s) \<le> length s"
  by (induction s) auto

lemma scan_length: "scan s = (t, r) \<Longrightarrow> length r \<le> length s"
  using skip_whitespace_length [of s]
  by (auto simp: scan_def split: list.splits dest!: scan_token_length)

lemma scan_consumes: "scan s = (t, r) \<Longrightarrow> t \<noteq> T_end_of_input \<Longrightarrow> length r < length s"
  using skip_whitespace_length [of s]
  by (auto simp: scan_def split: list.splits dest!: scan_token_length)

end
