(* ===== verification/JsonDtoa.thy ===== *)
theory JsonDtoa imports Ieee754 begin

text \<open>
  The conversion of a floating-point number to the shortest-looking decimal text (\<open>json.hpp\<close>, namespace
  \<open>dtoa_impl\<close> and \<open>to_chars\<close>): the Grisu2 algorithm on 64-bit significands, then the formatting of the
  digits.  A \<open>uint64_t\<close> is the integer it denotes, with the wrap-around \<open>u64\<close> where the code's
  arithmetic can leave the type; \<open>x >> k\<close> and \<open>x & (2^k - 1)\<close> are \<open>div\<close> and \<open>mod\<close> by \<open>2^k\<close>.  The digit
  buffer is the list of the digits written so far.
\<close>

section \<open>Do-it-yourself floating point\<close>

record diyfp =
  dp_f :: int
  dp_e :: int

definition u64 :: "int \<Rightarrow> int" where
  "u64 x = x mod 18446744073709551616"

definition diyfp_sub :: "diyfp \<Rightarrow> diyfp \<Rightarrow> diyfp" where
  "diyfp_sub x y = \<lparr>dp_f = u64 (dp_f x - dp_f y), dp_e = dp_e x\<rparr>"

definition diyfp_mul :: "diyfp \<Rightarrow> diyfp \<Rightarrow> diyfp" where
  "diyfp_mul x y =
     (let u_lo = dp_f x mod 4294967296; u_hi = dp_f x div 4294967296;
          v_lo = dp_f y mod 4294967296; v_hi = dp_f y div 4294967296;
          p0 = u64 (u_lo * v_lo); p1 = u64 (u_lo * v_hi);
          p2 = u64 (u_hi * v_lo); p3 = u64 (u_hi * v_hi);
          Q = u64 (p0 div 4294967296 + p1 mod 4294967296 + p2 mod 4294967296);
          Q = u64 (Q + 2147483648);
          h = u64 (p3 + p2 div 4294967296 + p1 div 4294967296 + Q div 4294967296)
      in \<lparr>dp_f = h, dp_e = dp_e x + dp_e y + 64\<rparr>)"

text \<open>The loop of \<open>normalize\<close>; its precondition \<open>x.f != 0\<close> (an assertion of the code) is the first test.\<close>

function diyfp_normalize :: "int \<Rightarrow> int \<Rightarrow> diyfp" where
  "diyfp_normalize f e =
     (if 0 < f \<and> f < 9223372036854775808 then diyfp_normalize (2 * f) (e - 1)
      else \<lparr>dp_f = f, dp_e = e\<rparr>)"
  by pat_completeness auto
termination
  by (relation "measure (\<lambda>(f, e). nat (9223372036854775808 - f))") auto

declare diyfp_normalize.simps [simp del]

definition diyfp_normalize_to :: "diyfp \<Rightarrow> int \<Rightarrow> diyfp" where
  "diyfp_normalize_to x target =
     \<lparr>dp_f = u64 (dp_f x * 2 ^ nat (dp_e x - target)), dp_e = target\<rparr>"

text \<open>The bit fields of a positive finite double: the biased exponent \<open>E\<close> and the fraction \<open>F\<close>.\<close>

definition ieee_fields :: "rat \<Rightarrow> int \<times> int" where
  "ieee_fields r =
     (let e = max (flog2 r) (-1022); m = \<lfloor>r / pow2r (e - 52)\<rfloor>
      in if m < 4503599627370496 then (0, m) else (e + 1023, m - 4503599627370496))"

record boundaries =
  bnd_w :: diyfp
  bnd_minus :: diyfp
  bnd_plus :: diyfp

definition compute_boundaries :: "rat \<Rightarrow> boundaries" where
  "compute_boundaries value =
     (let (E, F) = ieee_fields value;
          is_denormal = (E = 0);
          vf = (if is_denormal then F else F + 4503599627370496);
          ve = (if is_denormal then -1074 else E - 1075);
          lower_boundary_is_closer = (F = 0 \<and> 1 < E);
          m_minus = (if lower_boundary_is_closer then \<lparr>dp_f = 4 * vf - 1, dp_e = ve - 2\<rparr>
                     else \<lparr>dp_f = 2 * vf - 1, dp_e = ve - 1\<rparr>);
          w_plus = diyfp_normalize (2 * vf + 1) (ve - 1);
          w_minus = diyfp_normalize_to m_minus (dp_e w_plus)
      in \<lparr>bnd_w = diyfp_normalize vf ve, bnd_minus = w_minus, bnd_plus = w_plus\<rparr>)"

section \<open>Cached powers of ten\<close>

definition kCachedPowers :: "(int \<times> int \<times> int) list" where
  "kCachedPowers =
    [(0xAB70FE17C79AC6CA, -1060, -300), (0xFF77B1FCBEBCDC4F, -1034, -292),
     (0xBE5691EF416BD60C, -1007, -284), (0x8DD01FAD907FFC3C, -980, -276),
     (0xD3515C2831559A83, -954, -268), (0x9D71AC8FADA6C9B5, -927, -260),
     (0xEA9C227723EE8BCB, -901, -252), (0xAECC49914078536D, -874, -244),
     (0x823C12795DB6CE57, -847, -236), (0xC21094364DFB5637, -821, -228),
     (0x9096EA6F3848984F, -794, -220), (0xD77485CB25823AC7, -768, -212),
     (0xA086CFCD97BF97F4, -741, -204), (0xEF340A98172AACE5, -715, -196),
     (0xB23867FB2A35B28E, -688, -188), (0x84C8D4DFD2C63F3B, -661, -180),
     (0xC5DD44271AD3CDBA, -635, -172), (0x936B9FCEBB25C996, -608, -164),
     (0xDBAC6C247D62A584, -582, -156), (0xA3AB66580D5FDAF6, -555, -148),
     (0xF3E2F893DEC3F126, -529, -140), (0xB5B5ADA8AAFF80B8, -502, -132),
     (0x87625F056C7C4A8B, -475, -124), (0xC9BCFF6034C13053, -449, -116),
     (0x964E858C91BA2655, -422, -108), (0xDFF9772470297EBD, -396, -100),
     (0xA6DFBD9FB8E5B88F, -369, -92), (0xF8A95FCF88747D94, -343, -84),
     (0xB94470938FA89BCF, -316, -76), (0x8A08F0F8BF0F156B, -289, -68),
     (0xCDB02555653131B6, -263, -60), (0x993FE2C6D07B7FAC, -236, -52),
     (0xE45C10C42A2B3B06, -210, -44), (0xAA242499697392D3, -183, -36),
     (0xFD87B5F28300CA0E, -157, -28), (0xBCE5086492111AEB, -130, -20),
     (0x8CBCCC096F5088CC, -103, -12), (0xD1B71758E219652C, -77, -4),
     (0x9C40000000000000, -50, 4), (0xE8D4A51000000000, -24, 12),
     (0xAD78EBC5AC620000, 3, 20), (0x813F3978F8940984, 30, 28),
     (0xC097CE7BC90715B3, 56, 36), (0x8F7E32CE7BEA5C70, 83, 44),
     (0xD5D238A4ABE98068, 109, 52), (0x9F4F2726179A2245, 136, 60),
     (0xED63A231D4C4FB27, 162, 68), (0xB0DE65388CC8ADA8, 189, 76),
     (0x83C7088E1AAB65DB, 216, 84), (0xC45D1DF942711D9A, 242, 92),
     (0x924D692CA61BE758, 269, 100), (0xDA01EE641A708DEA, 295, 108),
     (0xA26DA3999AEF774A, 322, 116), (0xF209787BB47D6B85, 348, 124),
     (0xB454E4A179DD1877, 375, 132), (0x865B86925B9BC5C2, 402, 140),
     (0xC83553C5C8965D3D, 428, 148), (0x952AB45CFA97A0B3, 455, 156),
     (0xDE469FBD99A05FE3, 481, 164), (0xA59BC234DB398C25, 508, 172),
     (0xF6C69A72A3989F5C, 534, 180), (0xB7DCBF5354E9BECE, 561, 188),
     (0x88FCF317F22241E2, 588, 196), (0xCC20CE9BD35C78A5, 614, 204),
     (0x98165AF37B2153DF, 641, 212), (0xE2A0B5DC971F303A, 667, 220),
     (0xA8D9D1535CE3B396, 694, 228), (0xFB9B7CD9A4A7443C, 720, 236),
     (0xBB764C4CA7A44410, 747, 244), (0x8BAB8EEFB6409C1A, 774, 252),
     (0xD01FEF10A657842C, 800, 260), (0x9B10A4E5E9913129, 827, 268),
     (0xE7109BFBA19C0C9D, 853, 276), (0xAC2820D9623BF429, 880, 284),
     (0x80444B5E7AA7CF85, 907, 292), (0xBF21E44003ACDD2D, 933, 300),
     (0x8E679C2F5E44FF8F, 960, 308), (0xD433179D9C8CB841, 986, 316),
     (0x9E19DB92B4E31BA9, 1013, 324)]"

text \<open>C++ integer division truncates towards zero.\<close>

definition c_div :: "int \<Rightarrow> int \<Rightarrow> int" where
  "c_div a b = (if (a < 0) = (b < 0) then \<bar>a\<bar> div \<bar>b\<bar> else - (\<bar>a\<bar> div \<bar>b\<bar>))"

definition get_cached_power_for_binary_exponent :: "int \<Rightarrow> int \<times> int \<times> int" where
  "get_cached_power_for_binary_exponent e =
     (let f = -60 - e - 1;
          k = c_div (f * 78913) 262144 + (if 0 < f then 1 else 0);
          index = c_div (300 + k + 7) 8
      in kCachedPowers ! nat index)"

section \<open>Digit generation\<close>

definition find_largest_pow10 :: "int \<Rightarrow> int \<times> int" where
  "find_largest_pow10 n =
     (if 1000000000 \<le> n then (10, 1000000000)
      else if 100000000 \<le> n then (9, 100000000)
      else if 10000000 \<le> n then (8, 10000000)
      else if 1000000 \<le> n then (7, 1000000)
      else if 100000 \<le> n then (6, 100000)
      else if 10000 \<le> n then (5, 10000)
      else if 1000 \<le> n then (4, 1000)
      else if 100 \<le> n then (3, 100)
      else if 10 \<le> n then (2, 10)
      else (1, 1))"

definition dec_last :: "int list \<Rightarrow> int list" where
  "dec_last buf = butlast buf @ [last buf - 1]"

text \<open>The loop of \<open>grisu2_round\<close>; \<open>ten_k > 0\<close> and \<open>rest \<le> delta\<close> are assertions of the code.\<close>

function grisu2_round :: "int list \<Rightarrow> int \<Rightarrow> int \<Rightarrow> int \<Rightarrow> int \<Rightarrow> int list" where
  "grisu2_round buf dst delta rest ten_k =
     (if 0 < ten_k \<and> rest < dst \<and> ten_k \<le> delta - rest
         \<and> (rest + ten_k < dst \<or> rest + ten_k - dst < dst - rest)
      then grisu2_round (dec_last buf) dst delta (rest + ten_k) ten_k
      else buf)"
  by pat_completeness auto
termination
  by (relation "measure (\<lambda>(buf, dst, delta, rest, ten_k). nat (delta - rest))") auto

declare grisu2_round.simps [simp del]

text \<open>
  The second loop of \<open>grisu2_digit_gen\<close> (the fractional part).  With \<open>p2 < one \<le> 2^60\<close> no product
  wraps: the loop leaves as soon as \<open>p2 \<le> delta\<close>.  A positive \<open>delta\<close> is what \<open>M+ > M-\<close> gives; it is
  what makes the loop stop.
\<close>

function digit_gen_frac :: "int list \<Rightarrow> int \<Rightarrow> int \<Rightarrow> int \<Rightarrow> int \<Rightarrow> int \<Rightarrow> int list \<times> int" where
  "digit_gen_frac buf m p2 delta dst one =
     (let d = (10 * p2) div one; r = (10 * p2) mod one;
          buf' = buf @ [d]; delta' = 10 * delta; dst' = 10 * dst
      in if r \<le> delta' \<or> delta \<le> 0 \<or> one \<le> 0
         then (grisu2_round buf' dst' delta' r one, m + 1)
         else digit_gen_frac buf' (m + 1) r delta' dst' one)"
  by pat_completeness auto
termination
proof (relation "measure (\<lambda>(buf, m, p2, delta, dst, one). nat (one - delta))", goal_cases)
  case (2 buf m p2 delta dst one)
  then have "(10 * p2) mod one < one" by simp
  with 2 have "delta < one" by linarith
  with 2 show ?case by simp
qed simp

declare digit_gen_frac.simps [simp del]

text \<open>The first loop (the integral part): \<open>n\<close> digits of \<open>p1\<close> are left, \<open>pow10 = 10^(n-1)\<close>.\<close>

fun digit_gen_int :: "nat \<Rightarrow> int list \<Rightarrow> int \<Rightarrow> int \<Rightarrow> int \<Rightarrow> int \<Rightarrow> int \<Rightarrow> int \<Rightarrow> int list \<times> int" where
  "digit_gen_int 0 buf p1 pow10 p2 delta dst one =
     apsnd uminus (digit_gen_frac buf 0 p2 delta dst one)"
| "digit_gen_int (Suc n) buf p1 pow10 p2 delta dst one =
     (let d = p1 div pow10; r = p1 mod pow10; buf' = buf @ [d]; rest = r * one + p2
      in if rest \<le> delta then (grisu2_round buf' dst delta rest (pow10 * one), int n)
         else digit_gen_int n buf' r (pow10 div 10) p2 delta dst one)"

definition grisu2_digit_gen :: "int \<Rightarrow> diyfp \<Rightarrow> diyfp \<Rightarrow> diyfp \<Rightarrow> int list \<times> int" where
  "grisu2_digit_gen decimal_exponent M_minus w M_plus =
     (let delta = dp_f (diyfp_sub M_plus M_minus);
          dst = dp_f (diyfp_sub M_plus w);
          one = 2 ^ nat (- dp_e M_plus);
          p1 = dp_f M_plus div one; p2 = dp_f M_plus mod one;
          (k, pow10) = find_largest_pow10 p1;
          (buf, de) = digit_gen_int (nat k) [] p1 pow10 p2 delta dst one
      in (buf, decimal_exponent + de))"

definition grisu2 :: "rat \<Rightarrow> int list \<times> int" where
  "grisu2 value =
     (let b = compute_boundaries value;
          (cf, ce, ck) = get_cached_power_for_binary_exponent (dp_e (bnd_plus b));
          c = \<lparr>dp_f = cf, dp_e = ce\<rparr>;
          w = diyfp_mul (bnd_w b) c;
          w_minus = diyfp_mul (bnd_minus b) c;
          w_plus = diyfp_mul (bnd_plus b) c;
          M_minus = \<lparr>dp_f = u64 (dp_f w_minus + 1), dp_e = dp_e w_minus\<rparr>;
          M_plus = \<lparr>dp_f = u64 (dp_f w_plus - 1), dp_e = dp_e w_plus\<rparr>
      in grisu2_digit_gen (- ck) M_minus w M_plus)"

section \<open>Formatting\<close>

definition digit_char :: "int \<Rightarrow> char" where
  "digit_char d = char_of (nat (48 + d))"

definition append_exponent :: "int \<Rightarrow> string" where
  "append_exponent e =
     (let s = (if e < 0 then ''-'' else ''+''); k = \<bar>e\<bar>
      in s @ (if k < 10 then [CHR ''0'', digit_char k]
              else if k < 100 then [digit_char (k div 10), digit_char (k mod 10)]
              else [digit_char (k div 100), digit_char (k mod 100 div 10), digit_char (k mod 100 mod 10)]))"

definition format_buffer :: "string \<Rightarrow> int \<Rightarrow> int \<Rightarrow> int \<Rightarrow> string" where
  "format_buffer buf decimal_exponent min_exp max_exp =
     (let k = int (length buf); n = k + decimal_exponent
      in if k \<le> n \<and> n \<le> max_exp then buf @ replicate (nat (n - k)) CHR ''0'' @ ''.0''
         else if 0 < n \<and> n \<le> max_exp then take (nat n) buf @ ''.'' @ drop (nat n) buf
         else if min_exp < n \<and> n \<le> 0 then ''0.'' @ replicate (nat (- n)) CHR ''0'' @ buf
         else if k = 1 then buf @ ''e'' @ append_exponent (n - 1)
         else take 1 buf @ ''.'' @ drop 1 buf @ ''e'' @ append_exponent (n - 1))"

definition to_chars :: "double \<Rightarrow> string" where
  "to_chars d =
     (let sgn = (if d_sign d then ''-'' else [])
      in case d of
           D_fin r \<Rightarrow> (let (digits, de) = grisu2 \<bar>r\<bar>
                       in sgn @ format_buffer (map digit_char digits) de (-4) 15)
         | _ \<Rightarrow> sgn @ ''0.0'')"

section \<open>Facts\<close>

lemma diyfp_normalize_range:
  "0 < f \<Longrightarrow> f < 18446744073709551616 \<Longrightarrow>
   9223372036854775808 \<le> dp_f (diyfp_normalize f e) \<and> dp_f (diyfp_normalize f e) < 18446744073709551616"
proof (induction f e rule: diyfp_normalize.induct)
  case (1 f e)
  then show ?case by (cases "f < 9223372036854775808") (simp_all add: diyfp_normalize.simps [of f e])
qed

text \<open>Normalisation shifts the significand and adjusts the exponent: the value stays the same.\<close>

lemma diyfp_normalize_value:
  "\<exists>k. dp_f (diyfp_normalize f e) = f * 2 ^ k \<and> dp_e (diyfp_normalize f e) = e - int k"
proof (induction f e rule: diyfp_normalize.induct)
  case (1 f e)
  show ?case
  proof (cases "0 < f \<and> f < 9223372036854775808")
    case True
    then obtain k where "dp_f (diyfp_normalize (2 * f) (e - 1)) = 2 * f * 2 ^ k"
      "dp_e (diyfp_normalize (2 * f) (e - 1)) = e - 1 - int k" using 1 by blast
    with True show ?thesis
      by (intro exI [of _ "Suc k"]) (simp add: diyfp_normalize.simps [of f e])
  next
    case False
    then have "diyfp_normalize f e = \<lparr>dp_f = f, dp_e = e\<rparr>"
      by (subst diyfp_normalize.simps) (rule if_not_P)
    then show ?thesis by (intro exI [of _ 0]) simp
  qed
qed

lemma c_div_trunc: "0 < b \<Longrightarrow> c_div a b = (if 0 \<le> a then a div b else - ((- a) div b))"
  by (auto simp: c_div_def)

lemma length_kCachedPowers: "length kCachedPowers = 79"
  by (simp add: kCachedPowers_def)

end
