(* ===== verification/JsonParser.thy ===== *)
theory JsonParser imports JsonLexer begin

text \<open>
  The parser of the json library (\<open>json.hpp\<close>, \<open>parser::sax_parse_internal\<close> with the receiver
  \<open>json_sax_dom_parser\<close>).  The code's bit vector \<open>states\<close> and the receiver's \<open>ref_stack\<close> grow and shrink
  together; the model keeps one stack of frames, each the container under construction: the elements of
  an array, or the members of an object with the key whose value comes next.  Errors are the exceptions
  the code throws: parse error 101, or out of range 406 for a number beyond the range of \<open>double\<close>.
\<close>

section \<open>The pushdown machine\<close>

datatype frame =
    F_array "json list"
  | F_object "(string \<times> json) list" string

definition d_isfinite :: "double \<Rightarrow> bool" where
  "d_isfinite d = (case d of D_nan \<Rightarrow> False | D_inf _ \<Rightarrow> False | _ \<Rightarrow> True)"

abbreviation "err101 \<equiv> Inl (Json_parse_error 101)"

text \<open>A key, its colon and the first token of its value: the shared tail of both key positions.\<close>

definition scan_member :: "string \<Rightarrow> string \<Rightarrow> (token \<times> string) option" where
  "scan_member k s = (case scan s of (T_name_separator, r) \<Rightarrow> Some (scan r) | _ \<Rightarrow> None)"

lemma scan_member_length:
  assumes "scan_member k s = Some (t, r)"
  shows "length r < length s"
proof -
  obtain r1 where 1: "scan s = (T_name_separator, r1)" and 2: "scan r1 = (t, r)"
    using assms by (auto simp: scan_member_def split: token.splits prod.splits)
  show ?thesis
    using scan_consumes [OF 1] scan_length [OF 2] by simp
qed

text \<open>
  \<open>sax_value t s fs\<close> is an iteration of the loop with \<open>last_token = t\<close>; \<open>sax_state v s fs\<close> is the code
  after the switch, reached with a completed value \<open>v\<close>.
\<close>

function (sequential)
  sax_value :: "token \<Rightarrow> string \<Rightarrow> frame list \<Rightarrow> (json \<times> string) res"
  and sax_state :: "json \<Rightarrow> string \<Rightarrow> frame list \<Rightarrow> (json \<times> string) res" where
  "sax_value T_begin_object s fs = (case scan s of
      (T_end_object, r) \<Rightarrow> sax_state (J_object []) r fs
    | (T_string k, r) \<Rightarrow> (case scan_member k r of
          Some (t, r') \<Rightarrow> sax_value t r' (F_object [] k # fs)
        | None \<Rightarrow> err101)
    | _ \<Rightarrow> err101)"
| "sax_value T_begin_array s fs = (case scan s of
      (T_end_array, r) \<Rightarrow> sax_state (J_array []) r fs
    | (t, r) \<Rightarrow> sax_value t r (F_array [] # fs))"
| "sax_value (T_float d) s fs =
     (if d_isfinite d then sax_state (J_float d) s fs else Inl (Json_out_of_range 406))"
| "sax_value T_false s fs = sax_state (J_boolean False) s fs"
| "sax_value T_null s fs = sax_state J_null s fs"
| "sax_value T_true s fs = sax_state (J_boolean True) s fs"
| "sax_value (T_integer i) s fs = sax_state (J_integer i) s fs"
| "sax_value (T_string t) s fs = sax_state (J_string t) s fs"
| "sax_value (T_unsigned n) s fs = sax_state (J_unsigned n) s fs"
| "sax_value _ s fs = err101"
| "sax_state v s [] = Inr (v, s)"
| "sax_state v s (F_array xs # fs) = (case scan s of
      (T_value_separator, r) \<Rightarrow> (case scan r of (t, r') \<Rightarrow> sax_value t r' (F_array (xs @ [v]) # fs))
    | (T_end_array, r) \<Rightarrow> sax_state (J_array (xs @ [v])) r fs
    | _ \<Rightarrow> err101)"
| "sax_state v s (F_object m k # fs) = (case scan s of
      (T_value_separator, r) \<Rightarrow> (case scan r of
          (T_string k', r1) \<Rightarrow> (case scan_member k' r1 of
              Some (t, r2) \<Rightarrow> sax_value t r2 (F_object (sm_assign k v m) k' # fs)
            | None \<Rightarrow> err101)
        | _ \<Rightarrow> err101)
    | (T_end_object, r) \<Rightarrow> sax_state (J_object (sm_assign k v m)) r fs
    | _ \<Rightarrow> err101)"
  by pat_completeness auto

text \<open>Every iteration reads a token, so the input left decreases; at the end of the input no value
  starts.\<close>

definition sax_measure :: "token \<times> string \<times> frame list + json \<times> string \<times> frame list \<Rightarrow> nat" where
  "sax_measure c = (case c of
      Inl (t, s, fs) \<Rightarrow> 2 * length s + (if t = T_end_of_input then 0 else 1)
    | Inr (v, s, fs) \<Rightarrow> 2 * length s)"

lemma scan_shortens:
  "(t, r) = scan s \<Longrightarrow> length r \<le> length s \<and> (t = T_end_of_input \<or> length r < length s)"
  by (metis scan_length scan_consumes)

termination sax_value
  by (relation "measure sax_measure")
    (auto simp: sax_measure_def dest!: scan_shortens scan_member_length split: if_splits)

declare sax_value.simps [simp del] sax_state.simps [simp del]

text \<open>\<open>parser::parse\<close> in strict mode: one value, then the end of the input.\<close>

definition json_parse :: "string \<Rightarrow> json res" where
  "json_parse s = (case skip_bom s of
      None \<Rightarrow> err101
    | Some s0 \<Rightarrow> (case scan s0 of (t, r) \<Rightarrow>
        rbind (sax_value t r []) (\<lambda>(j, r'). if fst (scan r') = T_end_of_input then Inr j else err101)))"

text \<open>\<open>json::parse(const char*)\<close> reads up to the terminating NUL.\<close>

definition json_parse_cstr :: "string \<Rightarrow> json res" where
  "json_parse_cstr s = json_parse (takeWhile (\<lambda>c. c \<noteq> CHR 0x00) s)"

end
