(* ===== verification/JsonString.thy ===== *)
theory JsonString imports JsonSerializer JsonParser begin

text \<open>
  Strings in and out of json text: the decoder table of the serializer against the byte ranges of the
  lexer, the bounds of the 512-byte buffer, and the round trip of \<open>dump_escaped\<close> and \<open>scan_string\<close>.
\<close>

section \<open>The decoder table\<close>

definition byte_class :: "nat \<Rightarrow> nat" where
  "byte_class b =
     (if b < 0x80 then 0 else if b < 0x90 then 1 else if b < 0xA0 then 9 else if b < 0xC0 then 7
      else if b < 0xC2 then 8 else if b < 0xE0 then 2 else if b = 0xE0 then 10 else if b = 0xED then 4
      else if b < 0xF0 then 3 else if b = 0xF0 then 11 else if b < 0xF4 then 6 else if b = 0xF4 then 5 else 8)"

lemma utf8d_class_all: "map ((!) utf8d) [0..<256] = map byte_class [0..<256]"
  by code_simp

lemma utf8d_class: "b < 256 \<Longrightarrow> utf8d ! b = byte_class b"
  using arg_cong [OF utf8d_class_all, of "\<lambda>xs. xs ! b"] by simp

definition state_row :: "nat \<Rightarrow> nat list" where
  "state_row st = map (\<lambda>k. utf8d ! (256 + st * 16 + k)) [0..<12]"

lemma state_rows:
  "state_row 0 = [0, 1, 2, 3, 5, 8, 7, 1, 1, 1, 4, 6]"
  "state_row 2 = [1, 0, 1, 1, 1, 1, 1, 0, 1, 0, 1, 1]"
  "state_row 3 = [1, 2, 1, 1, 1, 1, 1, 2, 1, 2, 1, 1]"
  "state_row 4 = [1, 1, 1, 1, 1, 1, 1, 2, 1, 1, 1, 1]"
  "state_row 5 = [1, 2, 1, 1, 1, 1, 1, 1, 1, 2, 1, 1]"
  "state_row 6 = [1, 1, 1, 1, 1, 1, 1, 3, 1, 3, 1, 1]"
  "state_row 7 = [1, 3, 1, 1, 1, 1, 1, 3, 1, 3, 1, 1]"
  "state_row 8 = [1, 3, 1, 1, 1, 1, 1, 1, 1, 1, 1, 1]"
  by code_simp+

lemma utf8d_state: "k < 12 \<Longrightarrow> utf8d ! (256 + st * 16 + k) = state_row st ! k"
  by (simp add: state_row_def)

lemma byte_class_less: "byte_class b < 12"
  by (simp add: byte_class_def)

lemma decode_next: "b < 256 \<Longrightarrow> fst (utf8_decode st cp b) = state_row st ! byte_class b"
  by (simp add: utf8_decode_def Let_def utf8d_class utf8d_state byte_class_less)

lemma decode_next_states:
  assumes "b < 256"
  shows "fst (utf8_decode 0 cp b) = (if b < 0x80 then 0 else if b < 0xC2 then 1 else if b < 0xE0 then 2
    else if b = 0xE0 then 4 else if b = 0xED then 5 else if b < 0xF0 then 3 else if b = 0xF0 then 6
    else if b < 0xF4 then 7 else if b = 0xF4 then 8 else 1)"
  "fst (utf8_decode 2 cp b) = (if 0x80 \<le> b \<and> b \<le> 0xBF then 0 else 1)"
  "fst (utf8_decode 3 cp b) = (if 0x80 \<le> b \<and> b \<le> 0xBF then 2 else 1)"
  "fst (utf8_decode 4 cp b) = (if 0xA0 \<le> b \<and> b \<le> 0xBF then 2 else 1)"
  "fst (utf8_decode 5 cp b) = (if 0x80 \<le> b \<and> b \<le> 0x9F then 2 else 1)"
  "fst (utf8_decode 6 cp b) = (if 0x90 \<le> b \<and> b \<le> 0xBF then 3 else 1)"
  "fst (utf8_decode 7 cp b) = (if 0x80 \<le> b \<and> b \<le> 0xBF then 3 else 1)"
  "fst (utf8_decode 8 cp b) = (if 0x80 \<le> b \<and> b \<le> 0x8F then 3 else 1)"
  unfolding decode_next [OF assms] state_rows by (auto simp: byte_class_def)

lemma decode_codepoint:
  "b < 256 \<Longrightarrow> snd (utf8_decode 0 cp b) = b mod (255 div 2 ^ byte_class b + 1)"
  "st \<noteq> 0 \<Longrightarrow> snd (utf8_decode st cp b) = b mod 64 + cp * 64 mod 4294967296"
  by (simp_all add: utf8_decode_def Let_def utf8d_class)


section \<open>Escaping without the buffer\<close>

fun escape_ref :: "bool \<Rightarrow> nat \<Rightarrow> nat \<Rightarrow> string \<Rightarrow> string res" where
  "escape_ref ea st cp [] = (if st = 0 then Inr [] else Inl (Json_type_error 316))"
| "escape_ref ea st cp (c # cs) =
     (case utf8_decode st cp (ord c) of (st', cp') \<Rightarrow>
        if st' = 0 then rbind (escape_ref ea st' cp' cs) (\<lambda>t. Inr (escape_codepoint ea cp' c @ t))
        else if st' = 1 then Inl (Json_type_error 316)
        else rbind (escape_ref ea st' cp' cs) (\<lambda>t. Inr (if ea then t else c # t)))"

text \<open>How many bytes of an unfinished sequence the buffer can hold in each state.\<close>

definition state_depth :: "nat \<Rightarrow> nat" where
  "state_depth st = (if st = 0 then 0 else if st = 2 then 3 else if st = 3 then 2 else 1)"

definition live_state :: "nat \<Rightarrow> bool" where
  "live_state st \<longleftrightarrow> st = 0 \<or> 2 \<le> st \<and> st \<le> 8"

lemma live_state_cases:
  "live_state st \<longleftrightarrow> st = 0 \<or> st = 2 \<or> st = 3 \<or> st = 4 \<or> st = 5 \<or> st = 6 \<or> st = 7 \<or> st = 8"
  by (auto simp: live_state_def)

lemma decode_live:
  assumes "live_state st" "utf8_decode st cp (ord c) = (st', cp')" "st' \<noteq> 1" "st' \<noteq> 0"
  shows "live_state st' \<and> state_depth st < state_depth st'"
  using assms(1,3,4) arg_cong [OF assms(2), of fst]
  by (auto simp: live_state_cases decode_next_states state_depth_def split: if_splits)

lemma length_print_u [simp]: "length (print_u n) = 6"
  by (simp add: print_u_def)

lemma escape_room_bound: "escape_room ea cp c \<le> (if ea then 13 else 7)"
  if "ea \<or> cp \<le> 0xFFFF \<or> 0x20 \<le> cp"
  using that by (auto simp: escape_room_def escape_codepoint_def Let_def)

lemma escape_room_bounds: "escape_room True cp c \<le> 13" "escape_room False cp c \<le> 7"
  "length (escape_codepoint ea cp c) \<le> escape_room ea cp c"
  by (auto simp: escape_room_def escape_codepoint_def Let_def)

lemma escape_loop_ref:
  "live_state st \<Longrightarrow> length buf \<le> 499 + (if ea then 0 else state_depth st) \<Longrightarrow>
   escape_loop 512 ea st cp out buf s = rbind (escape_ref ea st cp s) (\<lambda>t. Inr (out @ buf @ t))"
proof (induction s arbitrary: st cp out buf)
  case Nil
  then show ?case by simp
next
  case (Cons c cs)
  obtain st' cp' where d: "utf8_decode st cp (ord c) = (st', cp')" by force
  have depth: "state_depth st \<le> 3" by (simp add: state_depth_def)
  show ?case
  proof (cases "st' = 0")
    case True
    have "length buf + escape_room ea cp' c \<le> 512"
      using Cons.prems(2) depth escape_room_bounds(1,2) [of cp' c] by (cases ea) auto
    moreover have "live_state 0" "state_depth 0 = 0" by (simp_all add: live_state_def state_depth_def)
    ultimately show ?thesis
      using d True Cons.IH [of 0] by (simp add: Let_def not_less)
  next
    case False
    show ?thesis
    proof (cases "st' = 1")
      case False
      with \<open>st' \<noteq> 0\<close> Cons.prems(1) d have "live_state st'" "state_depth st < state_depth st'"
        using decode_live by blast+
      then show ?thesis
        using d False \<open>st' \<noteq> 0\<close> Cons.prems(2) depth Cons.IH [of st'] by (cases ea) simp_all
    qed (use d False in simp)
  qed
qed

lemma dump_escaped_ref: "dump_escaped s ea = escape_ref ea 0 0 s"
  by (simp add: dump_escaped_def escape_loop_ref live_state_def)

section \<open>Well-formed UTF-8\<close>

definition utf8_lead :: "nat \<Rightarrow> (nat \<times> nat) list option" where
  "utf8_lead b = (if b < 0x20 then Some [] else utf8_ranges b)"

function utf8_valid :: "string \<Rightarrow> bool" where
  "utf8_valid [] = True"
| "utf8_valid (c # cs) = (case utf8_lead (ord c) of
      None \<Rightarrow> False
    | Some rs \<Rightarrow> (case next_byte_in_range rs cs of Inl _ \<Rightarrow> False | Inr (bs, r) \<Rightarrow> utf8_valid r))"
  by pat_completeness auto
termination
  by (relation "measure length") (auto dest: next_byte_length)

lemma escape_ref_codepoint: "escape_ref ea 0 cp s = escape_ref ea 0 0 s"
  by (cases s) (simp_all add: utf8_decode_def)

definition after_bytes :: "(nat \<times> nat) list \<Rightarrow> string \<Rightarrow> string res" where
  "after_bytes rs s = (case next_byte_in_range rs s of
      Inl _ \<Rightarrow> Inl (Json_type_error 316)
    | Inr (bs, r) \<Rightarrow> rbind (escape_ref False 0 0 r) (\<lambda>t. Inr (bs @ t)))"

lemma after_bytes_Nil [simp]: "after_bytes [] s = escape_ref False 0 0 s"
  by (simp add: after_bytes_def)

lemma after_bytes_empty [simp]: "after_bytes (r # rs) [] = Inl (Json_type_error 316)"
  by (cases r) (simp add: after_bytes_def)

lemma after_bytes_Cons [simp]:
  "after_bytes ((lo, hi) # rs) (c # cs) =
     (if lo \<le> ord c \<and> ord c \<le> hi then rbind (after_bytes rs cs) (\<lambda>t. Inr (c # t))
      else Inl (Json_type_error 316))"
  by (auto simp: after_bytes_def split: sum.splits)

lemma decode_pair: "utf8_decode st cp b = (fst (utf8_decode st cp b), snd (utf8_decode st cp b))"
  by simp

lemma escape_codepoint_copy: "0x80 \<le> cp \<Longrightarrow> escape_codepoint False cp c = [c]"
  by (simp add: escape_codepoint_def)

lemma escape_state_2:
  assumes "2 \<le> cp" "cp < 67108864"
  shows "escape_ref False 2 cp s = after_bytes [(0x80, 0xBF)] s"
proof (cases s)
  case (Cons c cs)
  show ?thesis
    using assms by (subst Cons, subst escape_ref.simps, subst decode_pair)
      (simp add: decode_next_states decode_codepoint escape_codepoint_copy Cons
        escape_ref_codepoint [of _ "_ + _"])
qed simp

lemma escape_state_3:
  assumes "1 \<le> cp" "cp < 1048576"
  shows "escape_ref False 3 cp s = after_bytes [(0x80, 0xBF), (0x80, 0xBF)] s"
proof (cases s)
  case (Cons c cs)
  have "ord c mod 64 < 64" by simp
  with assms have "2 \<le> ord c mod 64 + cp * 64 mod 4294967296" "ord c mod 64 + cp * 64 mod 4294967296 < 67108864"
    by auto
  then show ?thesis
    by (subst Cons, subst escape_ref.simps, subst decode_pair)
      (simp add: decode_next_states decode_codepoint Cons escape_state_2)
qed simp

lemma escape_state_4:
  assumes "cp < 1048576"
  shows "escape_ref False 4 cp s = after_bytes [(0xA0, 0xBF), (0x80, 0xBF)] s"
proof (cases s)
  case (Cons c cs)
  have "2 \<le> ord c mod 64 + cp * 64 mod 4294967296 \<and> ord c mod 64 + cp * 64 mod 4294967296 < 67108864"
    if "0xA0 \<le> ord c" "ord c \<le> 0xBF"
  proof -
    have "ord c mod 64 = ord c - 128" using that by (simp add: mod_if)
    moreover have "cp * 64 mod 4294967296 = cp * 64" using assms by simp
    ultimately show ?thesis using that assms by linarith
  qed
  then show ?thesis
    by (subst Cons, subst escape_ref.simps, subst decode_pair)
      (simp add: decode_next_states decode_codepoint Cons escape_state_2)
qed simp

lemma escape_state_5:
  assumes "1 \<le> cp" "cp < 1048576"
  shows "escape_ref False 5 cp s = after_bytes [(0x80, 0x9F), (0x80, 0xBF)] s"
proof (cases s)
  case (Cons c cs)
  have "ord c mod 64 < 64" by simp
  with assms have "2 \<le> ord c mod 64 + cp * 64 mod 4294967296" "ord c mod 64 + cp * 64 mod 4294967296 < 67108864"
    by auto
  then show ?thesis
    by (subst Cons, subst escape_ref.simps, subst decode_pair)
      (simp add: decode_next_states decode_codepoint Cons escape_state_2)
qed simp

lemma escape_state_6:
  assumes "cp < 16384"
  shows "escape_ref False 6 cp s = after_bytes [(0x90, 0xBF), (0x80, 0xBF), (0x80, 0xBF)] s"
proof (cases s)
  case (Cons c cs)
  have "1 \<le> ord c mod 64 + cp * 64 mod 4294967296 \<and> ord c mod 64 + cp * 64 mod 4294967296 < 1048576"
    if "0x90 \<le> ord c" "ord c \<le> 0xBF"
  proof -
    have "ord c mod 64 = ord c - 128" using that by (simp add: mod_if)
    moreover have "cp * 64 mod 4294967296 = cp * 64" using assms by simp
    ultimately show ?thesis using that assms by linarith
  qed
  then show ?thesis
    by (subst Cons, subst escape_ref.simps, subst decode_pair)
      (simp add: decode_next_states decode_codepoint Cons escape_state_3)
qed simp

lemma escape_state_7_8:
  assumes "1 \<le> cp" "cp < 16384"
  shows "escape_ref False 7 cp s = after_bytes [(0x80, 0xBF), (0x80, 0xBF), (0x80, 0xBF)] s"
    "escape_ref False 8 cp s = after_bytes [(0x80, 0x8F), (0x80, 0xBF), (0x80, 0xBF)] s"
proof -
  have *: "1 \<le> b mod 64 + cp * 64 mod 4294967296 \<and> b mod 64 + cp * 64 mod 4294967296 < 1048576" for b
  proof -
    have "b mod 64 < 64" by simp
    with assms show ?thesis by simp
  qed
  show "escape_ref False 7 cp s = after_bytes [(0x80, 0xBF), (0x80, 0xBF), (0x80, 0xBF)] s"
    by (cases s, simp, simp only: escape_ref.simps, subst decode_pair)
      (use * in \<open>simp add: decode_next_states decode_codepoint escape_state_3\<close>)
  show "escape_ref False 8 cp s = after_bytes [(0x80, 0x8F), (0x80, 0xBF), (0x80, 0xBF)] s"
    by (cases s, simp, simp only: escape_ref.simps, subst decode_pair)
      (use * in \<open>simp add: decode_next_states decode_codepoint escape_state_3\<close>)
qed

lemma escape_lead_state:
  "escape_ref False 0 0 (c # cs) = (case utf8_lead (ord c) of
      None \<Rightarrow> Inl (Json_type_error 316)
    | Some rs \<Rightarrow> if rs = [] then rbind (escape_ref False 0 0 cs) (\<lambda>t. Inr (escape_codepoint False (ord c) c @ t))
        else rbind (after_bytes rs cs) (\<lambda>t. Inr (c # t)))"
proof -
  have b: "ord c < 256" by simp
  let ?b = "ord c"
  let ?cp = "?b mod (255 div 2 ^ byte_class ?b + 1)"
  have e: "escape_ref False 0 0 (c # cs) =
      (let st' = fst (utf8_decode 0 0 ?b) in
        if st' = 0 then rbind (escape_ref False st' ?cp cs) (\<lambda>t. Inr (escape_codepoint False ?cp c @ t))
        else if st' = 1 then Inl (Json_type_error 316)
        else rbind (escape_ref False st' ?cp cs) (\<lambda>t. Inr (c # t)))"
    by (subst escape_ref.simps, subst decode_pair) (simp add: decode_codepoint Let_def)
  consider "?b < 0x80" | "0x80 \<le> ?b" "?b < 0xC2" | "0xC2 \<le> ?b" "?b < 0xE0" | "?b = 0xE0"
    | "0xE0 < ?b" "?b < 0xF0" "?b \<noteq> 0xED" | "?b = 0xED" | "?b = 0xF0" | "0xF0 < ?b" "?b < 0xF4"
    | "?b = 0xF4" | "0xF4 < ?b" "?b < 256"
    using b by linarith
  then show ?thesis
  proof cases
    case 1
    then show ?thesis
      unfolding e by (simp add: decode_next_states utf8_lead_def utf8_ranges_def byte_class_def
          escape_ref_codepoint [of _ "ord c"])
  next
    case 2
    then show ?thesis
      unfolding e by (simp add: decode_next_states utf8_lead_def utf8_ranges_def)
  next
    case 3
    have "\<forall>b\<in>{194..<224}. 2 \<le> b mod (64 :: nat)" by (simp add: atLeastLessThan_nat_numeral)
    with 3 have "2 \<le> ?b mod 64" "?b mod 64 < 64" by auto
    with 3 show ?thesis
      unfolding e by (simp add: decode_next_states utf8_lead_def utf8_ranges_def byte_class_def
          escape_state_2)
  next
    case 4
    then show ?thesis
      unfolding e by (simp add: decode_next_states utf8_lead_def utf8_ranges_def byte_class_def
          escape_state_4)
  next
    case 5
    have "\<forall>b\<in>{225..<240}. 1 \<le> b mod (32 :: nat)" by (simp add: atLeastLessThan_nat_numeral)
    with 5 have "1 \<le> ?b mod 32" "?b mod 32 < 32" by auto
    with 5 show ?thesis
      unfolding e by (auto simp add: decode_next_states utf8_lead_def utf8_ranges_def byte_class_def
          escape_state_3)
  next
    case 6
    then show ?thesis
      unfolding e by (simp add: decode_next_states utf8_lead_def utf8_ranges_def byte_class_def
          escape_state_5)
  next
    case 7
    then show ?thesis
      unfolding e by (simp add: decode_next_states utf8_lead_def utf8_ranges_def byte_class_def
          escape_state_6)
  next
    case 8
    have "\<forall>b\<in>{241..<244}. 1 \<le> b mod (4 :: nat)" by (simp add: atLeastLessThan_nat_numeral)
    with 8 have "1 \<le> ?b mod 4" "?b mod 4 < 4" by auto
    with 8 show ?thesis
      unfolding e by (simp add: decode_next_states utf8_lead_def utf8_ranges_def byte_class_def
          escape_state_7_8)
  next
    case 9
    then show ?thesis
      unfolding e by (simp add: decode_next_states utf8_lead_def utf8_ranges_def byte_class_def
          escape_state_7_8)
  next
    case 10
    then show ?thesis
      unfolding e by (simp add: decode_next_states utf8_lead_def utf8_ranges_def)
  qed
qed

declare escape_ref.simps(2) [simp del]

lemma escape_valid_iff: "(\<exists>t. escape_ref False 0 0 s = Inr t) \<longleftrightarrow> utf8_valid s"
proof (induction s rule: utf8_valid.induct)
  case 1
  then show ?case by simp
next
  case (2 c cs)
  show ?case
  proof (cases "utf8_lead (ord c)")
    case None
    then show ?thesis by (simp add: escape_lead_state)
  next
    case (Some rs)
    show ?thesis
    proof (cases "next_byte_in_range rs cs")
      case (Inl e)
      then show ?thesis using Some by (cases rs) (auto simp: escape_lead_state after_bytes_def)
    next
      case (Inr p)
      then show ?thesis
        using Some 2 [OF Some Inr] by (cases p, cases rs) (auto simp: escape_lead_state after_bytes_def)
    qed
  qed
qed

lemma escape_ref_error: "escape_ref ea st cp s = Inl e \<Longrightarrow> e = Json_type_error 316"
  by (induction s arbitrary: st cp) (auto simp: rbind_eq_Inl escape_ref.simps(2) split: prod.splits if_splits)

lemma next_byte_append:
  "next_byte_in_range rs s = Inr (bs, r) \<Longrightarrow> next_byte_in_range rs (s @ x) = Inr (bs, r @ x)"
  by (induction rs s arbitrary: bs rule: next_byte_in_range.induct) (auto split: if_splits sum.splits)

lemma next_byte_split: "next_byte_in_range rs s = Inr (bs, r) \<Longrightarrow> s = bs @ r"
  by (induction rs s arbitrary: bs rule: next_byte_in_range.induct) (auto split: if_splits sum.splits)

lemma next_byte_self:
  "next_byte_in_range rs s = Inr (bs, r) \<Longrightarrow> next_byte_in_range rs (bs @ x) = Inr (bs, x)"
  by (induction rs s arbitrary: bs rule: next_byte_in_range.induct) (auto split: if_splits sum.splits)

lemma hex4_value: "n < 65536 \<Longrightarrow>
  n div 4096 mod 16 * 4096 + n div 256 mod 16 * 256 + n div 16 mod 16 * 16 + n mod 16 = (n :: nat)"
proof -
  assume n: "n < 65536"
  have "n = n div 16 * 16 + n mod 16" by simp
  moreover have "n div 16 = n div 256 * 16 + n div 16 mod 16"
    using div_mult_mod_eq [of "n div 16" 16] by (simp add: div_mult2_eq [symmetric])
  moreover have "n div 256 = n div 4096 * 16 + n div 256 mod 16"
    using div_mult_mod_eq [of "n div 256" 16] by (simp add: div_mult2_eq [symmetric])
  moreover have "n div 4096 mod 16 = n div 4096" using n by simp
  ultimately show ?thesis by linarith
qed

lemma hex_val_digit: "d < 16 \<Longrightarrow> hex_val (hex_digit d) = Some d"
  by (auto simp: hex_val_def hex_digit_def)

lemma get_codepoint_hex4: "n < 65536 \<Longrightarrow>
  get_codepoint (hex_digit (n div 4096 mod 16) # hex_digit (n div 256 mod 16) #
    hex_digit (n div 16 mod 16) # hex_digit (n mod 16) # r) = Some (n, r)"
  using hex4_value [of n] by (simp add: hex_val_digit)

lemma scan_print_u:
  assumes "n < 0x80"
  shows "scan_string (print_u n @ r) =
    (case scan_string r of Inl e \<Rightarrow> Inl e | Inr (t, r') \<Rightarrow> Inr (char_of n # t, r'))"
  using assms get_codepoint_hex4 [of n r]
  by (simp add: print_u_def scan_char_def scan_escape_def scan_unicode_escape_def encode_codepoint_def
      del: get_codepoint.simps split: sum.splits)

lemma char_eq_iff_ord: "c = d \<longleftrightarrow> ord c = ord d"
  by (metis char_of_char)

lemma scan_escaped_ascii:
  assumes "ord c < 0x80"
  shows "scan_string (escape_codepoint False (ord c) c @ r) =
    (case scan_string r of Inl e \<Rightarrow> Inl e | Inr (t, r') \<Rightarrow> Inr (c # t, r'))"
proof (cases "ord c \<le> 0x1F \<or> ord c = 0x22 \<or> ord c = 0x5C")
  case True
  then show ?thesis
    using assms scan_print_u [of "ord c" r]
    by (auto simp: escape_codepoint_def scan_char_def scan_escape_def char_eq_iff_ord split: sum.splits)
next
  case False
  with assms have "utf8_ranges (ord c) = Some []" by (simp add: utf8_ranges_def)
  with False show ?thesis
    by (auto simp: escape_codepoint_def scan_char_def char_eq_iff_ord split: sum.splits)
qed

lemma scan_string_escape_ref:
  "escape_ref False 0 0 s = Inr t \<Longrightarrow> scan_string (t @ CHR 0x22 # x) = Inr (s, x)"
proof (induction s arbitrary: t rule: utf8_valid.induct)
  case 1
  then show ?case by simp
next
  case (2 c cs)
  from 2(2) obtain rs where rs: "utf8_lead (ord c) = Some rs"
    by (auto simp: escape_lead_state split: option.splits)
  show ?case
  proof (cases "rs = []")
    case True
    with rs have a: "ord c < 0x80"
      by (auto simp: utf8_lead_def utf8_ranges_def split: if_splits)
    from 2(2) rs True obtain t' where t': "escape_ref False 0 0 cs = Inr t'"
      "t = escape_codepoint False (ord c) c @ t'"
      by (auto simp: escape_lead_state)
    with 2(1) [OF rs, of "([], cs)"] True show ?thesis
      by (simp add: scan_escaped_ascii [OF a])
  next
    case False
    with 2(2) rs obtain bs r t' where n: "next_byte_in_range rs cs = Inr (bs, r)"
      "escape_ref False 0 0 r = Inr t'" "t = c # bs @ t'"
      by (auto simp: escape_lead_state after_bytes_def split: sum.splits)
    have "utf8_ranges (ord c) = Some rs" "0x80 \<le> ord c"
      using rs False by (auto simp: utf8_lead_def utf8_ranges_def split: if_splits)
    moreover have "scan_string (t' @ CHR 0x22 # x) = Inr (r, x)"
      using 2(1) [OF rs, of "(bs, r)"] n by auto
    ultimately show ?thesis
      using n next_byte_self [OF n(1)] next_byte_split [OF n(1)]
      by (auto simp: scan_char_def char_eq_iff_ord)
  qed
qed
end
