(* ===== verification/JsonPowers.thy ===== *)
theory JsonPowers imports JsonDtoa begin

text \<open>
  The table of cached powers of ten that Grisu2 scales with: every entry is a power of ten to the last bit
  of its 64-bit significand.
\<close>

section \<open>The accuracy of the table\<close>

text \<open>
  Every cached significand is the nearest one to its power of ten: the error is at most half a unit in the
  last place.  With the powers of two cancelled this is a comparison with a power of five, which grows by
  \<open>5 ^ 8\<close> from one entry of the table to the next.
\<close>

definition power_near :: "int \<times> int \<times> int \<Rightarrow> bool" where
  "power_near p = (case p of (cf, ce, ck) \<Rightarrow> \<bar>of_int cf * pow2r ce - 10 powi ck\<bar> \<le> pow2r (ce - 1))"

fun powers_up :: "int \<Rightarrow> int \<Rightarrow> (int \<times> int \<times> int) list \<Rightarrow> bool" where
  "powers_up n k [] \<longleftrightarrow> True"
| "powers_up n k ((cf, ce, ck) # ps) \<longleftrightarrow> ck = k \<and>
     (if ck < ce then \<bar>2 * cf * 2 ^ nat (ce - 1 - ck) - n\<bar> \<le> 2 ^ nat (ce - 1 - ck)
      else \<bar>2 * cf - n * 2 ^ nat (ck + 1 - ce)\<bar> \<le> 1) \<and>
     powers_up (390625 * n) (k + 8) ps"

fun powers_down :: "int \<Rightarrow> int \<Rightarrow> (int \<times> int \<times> int) list \<Rightarrow> bool" where
  "powers_down n k [] \<longleftrightarrow> True"
| "powers_down n k ((cf, ce, ck) # ps) \<longleftrightarrow> ck = k \<and> ce \<le> 1 + ck \<and> \<bar>2 * n * cf - 2 ^ nat (1 + ck - ce)\<bar> \<le> n \<and>
     powers_down (390625 * n) (k - 8) ps"

lemma powers_up_table: "powers_up 625 4 (drop 38 kCachedPowers)"
  by (simp add: kCachedPowers_def)

lemma powers_down_table_1: "powers_down 625 (-4) (rev (drop 16 (take 38 kCachedPowers)))"
  by (simp add: kCachedPowers_def)

lemma powers_down_table_2: "powers_down (625 * 390625 ^ 22) (-180) (rev (take 16 kCachedPowers))"
  by (simp add: kCachedPowers_def)

lemma ten_powi: "(10 :: rat) powi k = 5 powi k * pow2r k"
  using power_int_mult_distrib [of "5 :: rat" 2 k] by (simp add: pow2r_powi)

lemma power_near_up:
  assumes "0 \<le> ck" "n = 5 ^ nat ck"
    "if ck < ce then \<bar>2 * cf * 2 ^ nat (ce - 1 - ck) - n\<bar> \<le> 2 ^ nat (ce - 1 - ck)
     else \<bar>2 * cf - n * 2 ^ nat (ck + 1 - ce)\<bar> \<le> 1"
  shows "power_near (cf, ce, ck)"
proof -
  have ten: "(10 :: rat) powi ck = of_int n * pow2r ck"
    unfolding ten_powi using assms(1,2) by (simp add: power_int_def)
  have two: "pow2r ce = 2 * pow2r (ce - 1)" using pow2r_add [of 1 "ce - 1"] by (simp add: pow2r_nat)
  show ?thesis
  proof (cases "ck < ce")
    case True
    define s :: int where "s = 2 ^ nat (ce - 1 - ck)"
    have c1: "pow2r (ce - 1) = of_int s * pow2r ck"
      using pow2r_add [of "ce - 1 - ck" ck] True by (simp add: s_def pow2r_nat)
    have "\<bar>2 * cf * s - n\<bar> \<le> s" using assms(3) True by (simp add: s_def)
    then have "(of_int \<bar>2 * cf * s - n\<bar> :: rat) * pow2r ck \<le> of_int s * pow2r ck"
      by (intro mult_right_mono) (simp_all only: of_int_le_iff pow2r_nonneg)
    moreover have "of_int cf * pow2r ce - 10 powi ck = of_int (2 * cf * s - n) * pow2r ck"
      by (simp add: two c1 ten algebra_simps)
    ultimately show ?thesis by (simp add: power_near_def c1 abs_mult)
  next
    case False
    define s :: int where "s = 2 ^ nat (ck + 1 - ce)"
    have ck: "pow2r ck = of_int s * pow2r (ce - 1)"
      using pow2r_add [of "ck + 1 - ce" "ce - 1"] False by (simp add: s_def pow2r_nat)
    have "\<bar>2 * cf - n * s\<bar> \<le> 1" using assms(3) False by (simp add: s_def)
    then have "(of_int \<bar>2 * cf - n * s\<bar> :: rat) * pow2r (ce - 1) \<le> of_int 1 * pow2r (ce - 1)"
      by (intro mult_right_mono) (simp_all only: of_int_le_iff pow2r_nonneg)
    moreover have "of_int cf * pow2r ce - 10 powi ck = of_int (2 * cf - n * s) * pow2r (ce - 1)"
      by (simp add: two ck ten algebra_simps)
    ultimately show ?thesis by (simp add: power_near_def abs_mult)
  qed
qed

lemma power_near_down:
  assumes "ck \<le> 0" "n = 5 ^ nat (- ck)" "ce \<le> 1 + ck" "\<bar>2 * n * cf - 2 ^ nat (1 + ck - ce)\<bar> \<le> n"
  shows "power_near (cf, ce, ck)"
proof -
  have n: "(0 :: rat) < of_int n" using assms(2) by simp
  have "(5 :: rat) powi ck * of_int n = 1" using assms(1,2) by (auto simp: power_int_def field_simps)
  then have ten: "(10 :: rat) powi ck * of_int n = pow2r ck" unfolding ten_powi by (simp add: algebra_simps)
  have two: "pow2r ce = 2 * pow2r (ce - 1)" using pow2r_add [of 1 "ce - 1"] by (simp add: pow2r_nat)
  define s :: int where "s = 2 ^ nat (1 + ck - ce)"
  have ck: "pow2r ck = of_int s * pow2r (ce - 1)"
    using pow2r_add [of "1 + ck - ce" "ce - 1"] assms(3) by (simp add: s_def pow2r_nat)
  have "(of_int \<bar>2 * n * cf - s\<bar> :: rat) * pow2r (ce - 1) \<le> of_int n * pow2r (ce - 1)"
    using assms(4) unfolding s_def [symmetric] by (intro mult_right_mono) (simp_all only: of_int_le_iff pow2r_nonneg)
  moreover have "(of_int cf * pow2r ce - 10 powi ck) * of_int n = of_int (2 * n * cf - s) * pow2r (ce - 1)"
    using ten by (simp add: two ck algebra_simps)
  moreover have "\<bar>of_int cf * pow2r ce - 10 powi ck\<bar> * of_int n = \<bar>(of_int cf * pow2r ce - 10 powi ck) * of_int n\<bar>"
    using n by (simp only: abs_mult abs_of_pos)
  ultimately have "\<bar>of_int cf * pow2r ce - 10 powi ck\<bar> * of_int n \<le> pow2r (ce - 1) * of_int n"
    by (simp only: abs_mult abs_of_pos [OF pow2r_pos] of_int_abs mult.commute)
  then show ?thesis using mult_right_le_imp_le n by (simp only: power_near_def prod.case)
qed

lemma powers_up_near:
  "powers_up n k ps \<Longrightarrow> 0 \<le> k \<Longrightarrow> n = 5 ^ nat k \<Longrightarrow> p \<in> set ps \<Longrightarrow> power_near p"
proof (induction n k ps rule: powers_up.induct)
  case (2 n k cf ce ck ps)
  have "390625 * n = 5 ^ nat (k + 8)" using 2 by (simp add: nat_add_distrib power_add)
  with 2 show ?case using power_near_up [of ck n ce cf] by auto
qed simp

lemma powers_down_near:
  "powers_down n k ps \<Longrightarrow> k \<le> 0 \<Longrightarrow> n = 5 ^ nat (- k) \<Longrightarrow> p \<in> set ps \<Longrightarrow> power_near p"
proof (induction n k ps rule: powers_down.induct)
  case (2 n k cf ce ck ps)
  have "nat (8 - k) = 8 + nat (- k)" using 2 by simp
  then have "390625 * n = 5 ^ nat (- (k - 8))" using 2 by (simp add: power_add)
  with 2 show ?case using power_near_down [of ck n ce cf] by auto
qed simp

lemma cached_power_near:
  assumes "p \<in> set kCachedPowers"
  shows "power_near p"
proof -
  have "kCachedPowers = take 16 kCachedPowers @ drop 16 (take 38 kCachedPowers) @ drop 38 kCachedPowers"
    using append_take_drop_id [of 16 "take 38 kCachedPowers"] append_take_drop_id [of 38 kCachedPowers]
    unfolding take_take append_assoc [symmetric] by simp
  then have "p \<in> set (take 16 kCachedPowers @ drop 16 (take 38 kCachedPowers) @ drop 38 kCachedPowers)"
    using assms by (rule subst)
  then consider "p \<in> set (rev (take 16 kCachedPowers))" | "p \<in> set (rev (drop 16 (take 38 kCachedPowers)))"
    | "p \<in> set (drop 38 kCachedPowers)"
    unfolding set_append set_rev by blast
  then show ?thesis
  proof cases
    case 1
    have "(625 :: int) * 390625 ^ 22 = 5 ^ nat (- (-180))" by simp
    then show ?thesis using powers_down_near [OF powers_down_table_2] 1 by simp
  next
    case 2
    then show ?thesis using powers_down_near [OF powers_down_table_1] by simp
  next
    case 3
    then show ?thesis using powers_up_near [OF powers_up_table] by simp
  qed
qed
end
