(* ===== verification/JsonGrisu.thy ===== *)
theory JsonGrisu imports JsonPowers begin

text \<open>
  The numbers Grisu2 computes with, for every finite \<open>double\<close>: the exponent fields, the boundaries, the
  cached powers and the 64-bit products stay in their ranges, and the scaled interval that the digits are
  taken from lies strictly between the midpoints to the neighbouring doubles.
\<close>

section \<open>The fields of a double\<close>

text \<open>The significand and the binary exponent that the two bit fields of a finite double stand for.\<close>

abbreviation "field_significand E F \<equiv> (if E = 0 then F else F + 4503599627370496 :: int)"
abbreviation "field_exponent E \<equiv> (if E = 0 then -1074 else E - 1075 :: int)"

lemma finite_double_fields:
  assumes "d_ok (D_fin r)"
  shows "0 < \<bar>r\<bar> \<and> (\<exists>E F. ieee_fields \<bar>r\<bar> = (E, F) \<and> 0 \<le> F \<and> F < 4503599627370496 \<and>
    (E = 0 \<and> 1 \<le> F \<or> 1 \<le> E \<and> E \<le> 2046) \<and>
    \<bar>r\<bar> = of_int (field_significand E F) * pow2r (field_exponent E))"
proof -
  let ?v = "\<bar>r\<bar>"
  define e where "e = max (flog2 ?v) (-1022)"
  define u where "u = pow2r (e - 52)"
  define m where "m = round_half_even (?v / u)"
  have rd: "round_double False r = D_fin r" using assms by (simp add: d_ok_def)
  then have r: "r \<noteq> 0" by auto
  then have v: "0 < ?v" by simp
  have up: "0 < u" by (simp add: u_def)
  from rd r have eq: "of_int m * u = ?v" and inf: "\<not> (1023 \<le> e \<and> pow2r 1024 \<le> of_int m * u)"
    by (auto simp: round_double_def Let_def m_def u_def e_def not_less split: if_splits)
  from eq have q: "?v / u = of_int m" using up by (simp add: field_simps)
  then have fl: "\<lfloor>?v / u\<rfloor> = m" by simp
  have "0 < (of_int m :: rat)" using v up q by (metis divide_pos_pos)
  then have m1: "1 \<le> m" by linarith
  have "?v < pow2r (e + 1)"
    using flog2_bounds(2) [OF v] pow2r_mono [of "flog2 ?v + 1" "e + 1"] by (simp add: e_def)
  also have "pow2r (e + 1) = pow2r 53 * u" by (simp add: u_def add.commute flip: pow2r_add)
  finally have "of_int m * u < pow2r 53 * u" unfolding eq .
  then have "(of_int m :: rat) < 9007199254740992" using up by (simp add: pow2r_def)
  then have m2: "m < 9007199254740992" by linarith
  have "e \<le> 1023"
  proof (rule ccontr)
    assume "\<not> e \<le> 1023"
    then have "flog2 ?v = e" "1024 \<le> e" by (auto simp: e_def)
    then have "pow2r 1024 \<le> ?v" using flog2_bounds(1) [OF v] pow2r_mono [of 1024 e] by simp
    with inf eq \<open>1024 \<le> e\<close> show False by simp
  qed
  moreover have "-1022 \<le> e" by (simp add: e_def)
  moreover have "ieee_fields ?v = (if m < 4503599627370496 then (0, m) else (e + 1023, m - 4503599627370496))"
    unfolding ieee_fields_def Let_def e_def [symmetric] u_def [symmetric] fl by simp
  moreover have "e = -1022" if "m < 4503599627370496"
  proof (rule ccontr)
    assume ne: "e \<noteq> -1022"
    then have "flog2 ?v = e" by (auto simp: e_def max_def split: if_splits)
    then have "pow2r e \<le> of_int m * u" using flog2_bounds(1) [OF v] eq by simp
    moreover have "pow2r e = of_int 4503599627370496 * u" by (simp add: u_def pow2r_diff pow2r_def [of 52])
    ultimately show False using that up by simp
  qed
  ultimately show ?thesis using v m1 m2 eq [symmetric]
    by (cases "m < 4503599627370496") (auto simp: u_def)
qed


section \<open>The boundaries\<close>

text \<open>The two limits of a normalised significand.\<close>

abbreviation "LOW \<equiv> (9223372036854775808 :: int)"
abbreviation "HIGH \<equiv> (18446744073709551616 :: int)"

lemma normalized_unique:
  assumes "LOW \<le> f * 2 ^ i" "f * 2 ^ i < HIGH" "LOW \<le> f * 2 ^ j" "f * 2 ^ j < HIGH"
  shows "i = j"
proof -
  have "\<not> i' < j'" if "LOW \<le> f * 2 ^ i'" "f * 2 ^ j' < HIGH" for i' j'
  proof
    assume "i' < j'"
    then obtain d where j': "j' = Suc (i' + d)" using less_iff_Suc_add by blast
    have "2 * (f * 2 ^ i') * 1 \<le> 2 * (f * 2 ^ i') * 2 ^ d" using that(1) by (intro mult_left_mono) simp_all
    also have "\<dots> = f * 2 ^ j'" by (simp add: j' power_add)
    finally show False using that by simp
  qed
  with assms show ?thesis by (metis linorder_cases)
qed

text \<open>
  Half the distance to the next smaller double, as a share of the unit in the last place: the lower
  neighbour of a power of two is closer.
\<close>

definition lower_half :: "int \<Rightarrow> int \<Rightarrow> rat" where
  "lower_half vf ve = (if vf = 4503599627370496 \<and> ve \<noteq> -1074 then 1 / 4 else 1 / 2)"

text \<open>
  The three significands share the exponent of the upper boundary, and none of the shifts loses a bit: the
  boundaries are exactly the midpoints between the double and its neighbours.
\<close>

lemma boundaries_values:
  assumes "ieee_fields v = (E, F)" "0 \<le> F" "F < 4503599627370496" "E = 0 \<and> 1 \<le> F \<or> 1 \<le> E \<and> E \<le> 2046"
  obtains W L P e where
    "compute_boundaries v = \<lparr>bnd_w = \<lparr>dp_f = W, dp_e = e\<rparr>, bnd_minus = \<lparr>dp_f = L, dp_e = e\<rparr>, bnd_plus = \<lparr>dp_f = P, dp_e = e\<rparr>\<rparr>"
    "LOW \<le> W" "P < HIGH" "W + 1024 \<le> P" "L + 512 \<le> W" "0 < L" "P \<le> 9007199254740992 * (P - L)"
    "-1137 \<le> e" "e \<le> 960"
    "of_int P * pow2r e = (of_int (field_significand E F) + 1 / 2) * pow2r (field_exponent E)"
    "of_int L * pow2r e = (of_int (field_significand E F) - lower_half (field_significand E F) (field_exponent E)) * pow2r (field_exponent E)"
proof -
  define vf where "vf = (if E = 0 then F else F + 4503599627370496)"
  define ve where "ve = (if E = 0 then -1074 else E - 1075)"
  have vf: "1 \<le> vf" "vf < 9007199254740992" and ve: "-1074 \<le> ve" "ve \<le> 971"
    using assms(2-4) by (auto simp: vf_def ve_def)
  obtain k where k: "dp_f (diyfp_normalize (2 * vf + 1) (ve - 1)) = (2 * vf + 1) * 2 ^ k"
    "dp_e (diyfp_normalize (2 * vf + 1) (ve - 1)) = ve - 1 - int k"
    using diyfp_normalize_value by blast
  obtain j where j: "dp_f (diyfp_normalize vf ve) = vf * 2 ^ j" "dp_e (diyfp_normalize vf ve) = ve - int j"
    using diyfp_normalize_value by blast
  have rk: "LOW \<le> (2 * vf + 1) * 2 ^ k" "(2 * vf + 1) * 2 ^ k < HIGH"
    using diyfp_normalize_range [of "2 * vf + 1" "ve - 1"] vf unfolding k(1) by simp_all
  have rj: "LOW \<le> vf * 2 ^ j" "vf * 2 ^ j < HIGH"
    using diyfp_normalize_range [of vf ve] vf unfolding j(1) by simp_all
  have k62: "k \<le> 62"
  proof (rule ccontr)
    assume "\<not> k \<le> 62"
    then have "(2::int) ^ 63 \<le> 2 ^ k" by (intro power_increasing) simp_all
    then have "3 * (2::int) ^ 63 \<le> (2 * vf + 1) * 2 ^ k" using vf by (intro mult_mono) simp_all
    with rk show False by simp
  qed
  have k10: "10 \<le> k"
  proof (rule ccontr)
    assume "\<not> 10 \<le> k"
    then have "(2::int) ^ k \<le> 2 ^ 9" by (intro power_increasing) simp_all
    then have "(2 * vf + 1) * 2 ^ k \<le> (2 * vf + 1) * (2::int) ^ 9" using vf by (intro mult_left_mono) simp_all
    with rk vf show False by simp
  qed
  have pw: "(2::int) ^ 63 = 2 ^ (62 - k) * 2 * 2 ^ k"
    using k62 by (simp flip: power_Suc2 power_add power_Suc)
  have kp: "1024 \<le> (2::int) ^ k" using power_increasing [OF k10, of "2::int"] by simp
  have "2 ^ (62 - k) * 2 * (2::int) ^ k \<le> (2 * vf + 1) * 2 ^ k"
    using rk(1) unfolding pw [symmetric] by simp
  then have "2 ^ (62 - k) * 2 \<le> 2 * vf + 1"
    by (rule mult_right_le_imp_le) (use kp in linarith)
  then have "2 ^ (62 - k) * 2 \<le> 2 * vf" by presburger
  then have "(2::int) ^ 63 \<le> 2 * vf * 2 ^ k" unfolding pw by (rule mult_right_mono) simp
  then have lw: "LOW \<le> vf * 2 ^ Suc k" by simp
  moreover have "vf * 2 ^ Suc k < HIGH" using rk(2) kp by (simp add: algebra_simps)
  ultimately have jk: "j = Suc k" using normalized_unique rj by blast
  let ?e = "ve - 1 - int k"
  let ?closer = "F = 0 \<and> 1 < E"
  define L where "L = (if ?closer then (4 * vf - 1) * 2 ^ (k - 1) else (2 * vf - 1) * 2 ^ k)"
  have half: "(2::int) ^ k = 2 * 2 ^ (k - 1)" using k10 by (metis power_Suc Suc_pred' not_numeral_le_zero zero_less_iff_neq_zero)
  have Lval: "L = vf * 2 ^ Suc k - (if ?closer then 2 ^ (k - 1) else 2 ^ k)"
    by (simp add: L_def half algebra_simps)
  have L: "0 < L" "L < HIGH" "L + 512 \<le> vf * 2 ^ Suc k"
    using Lval lw \<open>vf * 2 ^ Suc k < HIGH\<close> kp half rk by (auto simp: algebra_simps split: if_splits)
  have nb: "diyfp_normalize_to (if ?closer then \<lparr>dp_f = 4 * vf - 1, dp_e = ve - 2\<rparr> else \<lparr>dp_f = 2 * vf - 1, dp_e = ve - 1\<rparr>) ?e =
      \<lparr>dp_f = L, dp_e = ?e\<rparr>"
  proof -
    have "nat (ve - 2 - ?e) = k - 1" "nat (ve - 1 - ?e) = k" using k10 by auto
    moreover have "u64 L = L" using L by (simp add: u64_def)
    ultimately show ?thesis by (auto simp: diyfp_normalize_to_def L_def)
  qed
  have "compute_boundaries v = \<lparr>bnd_w = \<lparr>dp_f = vf * 2 ^ Suc k, dp_e = ?e\<rparr>, bnd_minus = \<lparr>dp_f = L, dp_e = ?e\<rparr>,
      bnd_plus = \<lparr>dp_f = (2 * vf + 1) * 2 ^ k, dp_e = ?e\<rparr>\<rparr>"
  proof -
    have n1: "diyfp_normalize vf ve = \<lparr>dp_f = vf * 2 ^ Suc k, dp_e = ?e\<rparr>"
      using j jk by (cases "diyfp_normalize vf ve") simp
    have n2: "diyfp_normalize (2 * vf + 1) (ve - 1) = \<lparr>dp_f = (2 * vf + 1) * 2 ^ k, dp_e = ?e\<rparr>"
      using k by (cases "diyfp_normalize (2 * vf + 1) (ve - 1)") simp
    show ?thesis
      unfolding compute_boundaries_def assms(1) Let_def prod.case vf_def [symmetric] ve_def [symmetric]
      by (simp only: n1 n2 nb diyfp.select_convs)
  qed
  moreover have "(2 * vf + 1) * 2 ^ k \<le> 9007199254740992 * ((2 * vf + 1) * 2 ^ k - L)"
  proof -
    have "(2 * vf + 1) * 2 ^ k - L = 2 ^ k + (if ?closer then 2 ^ (k - 1) else 2 ^ k)"
      unfolding Lval by (simp add: algebra_simps)
    then have d: "2 * ((2 * vf + 1) * 2 ^ k - L) = (if ?closer then 3 else 4) * 2 ^ k" using half by simp
    have "2 * (2 * vf + 1) \<le> 9007199254740992 * (if ?closer then 3 else 4)"
      using vf by (auto simp: vf_def)
    then have "2 * (2 * vf + 1) * 2 ^ k \<le> 9007199254740992 * (if ?closer then 3 else 4) * 2 ^ k"
      using kp by (intro mult_right_mono) simp_all
    then show ?thesis using d by (simp add: algebra_simps)
  qed
  moreover have shift: "pow2r (ve - 1) = 2 ^ k * pow2r ?e"
    using pow2r_add [of "int k" ?e] by (simp add: pow2r_nat)
  have "pow2r ve = 2 * pow2r (ve - 1)" using pow2r_add [of 1 "ve - 1"] by (simp add: pow2r_nat)
  then have unit: "pow2r ve = 2 * 2 ^ k * pow2r ?e" by (simp only: shift mult.assoc)
  have "of_int ((2 * vf + 1) * 2 ^ k) * pow2r ?e = (of_int vf + 1 / 2) * pow2r ve"
    unfolding unit by (simp add: algebra_simps)
  moreover have "of_int L * pow2r ?e = (of_int vf - lower_half vf ve) * pow2r ve"
  proof -
    have "?closer \<longleftrightarrow> vf = 4503599627370496 \<and> ve \<noteq> -1074" using assms(2-4) by (auto simp: vf_def ve_def)
    moreover have "(of_int (2 ^ k) :: rat) = of_int (2 * 2 ^ (k - 1))" using half by simp
    ultimately show ?thesis unfolding unit Lval lower_half_def by (simp add: algebra_simps)
  qed
  ultimately show thesis
    using that [of "vf * 2 ^ Suc k" ?e L "(2 * vf + 1) * 2 ^ k"] lw rk(2) L kp ve k10 k62
    unfolding vf_def [symmetric] ve_def [symmetric]
    by (simp add: algebra_simps)
qed


section \<open>The cached powers and the product\<close>

text \<open>
  Over the whole range of exponents the table is indexed inside its bounds and the power it gives takes the
  exponent of the product into the interval from -60 to -32.
\<close>

definition power_index :: "int \<Rightarrow> int" where
  "power_index e = (let f = -60 - e - 1; k = c_div (f * 78913) 262144 + (if 0 < f then 1 else 0) in c_div (300 + k + 7) 8)"

lemma power_index_nth: "get_cached_power_for_binary_exponent e = kCachedPowers ! nat (power_index e)"
  by (simp add: get_cached_power_for_binary_exponent_def power_index_def Let_def)

definition power_ok :: "int \<Rightarrow> bool" where
  "power_ok e \<longleftrightarrow> 0 \<le> power_index e \<and> power_index e < 79 \<and> (case get_cached_power_for_binary_exponent e of (cf, ce, ck) \<Rightarrow>
     LOW \<le> cf \<and> cf < HIGH \<and> -60 \<le> e + ce + 64 \<and> e + ce + 64 \<le> -32 \<and> -300 \<le> ck \<and> ck \<le> 324)"

lemma power_ok_1: "list_all power_ok [-1137..-928]"
  by code_simp

lemma power_ok_2: "list_all power_ok [-927..-718]"
  by code_simp

lemma power_ok_3: "list_all power_ok [-717..-508]"
  by code_simp

lemma power_ok_4: "list_all power_ok [-507..-298]"
  by code_simp

lemma power_ok_5: "list_all power_ok [-297..-88]"
  by code_simp

lemma power_ok_6: "list_all power_ok [-87..122]"
  by code_simp

lemma power_ok_7: "list_all power_ok [123..332]"
  by code_simp

lemma power_ok_8: "list_all power_ok [333..542]"
  by code_simp

lemma power_ok_9: "list_all power_ok [543..752]"
  by code_simp

lemma power_ok_10: "list_all power_ok [753..960]"
  by code_simp

lemma power_ok_all:
  assumes "-1137 \<le> e" "e \<le> 960"
  shows "power_ok e"
proof -
  note chunks = power_ok_1 [unfolded list_all_iff set_upto]
    power_ok_2 [unfolded list_all_iff set_upto]
    power_ok_3 [unfolded list_all_iff set_upto]
    power_ok_4 [unfolded list_all_iff set_upto]
    power_ok_5 [unfolded list_all_iff set_upto]
    power_ok_6 [unfolded list_all_iff set_upto]
    power_ok_7 [unfolded list_all_iff set_upto]
    power_ok_8 [unfolded list_all_iff set_upto]
    power_ok_9 [unfolded list_all_iff set_upto]
    power_ok_10 [unfolded list_all_iff set_upto]
  consider "-1137 \<le> e" "e \<le> -928" | "-927 \<le> e" "e \<le> -718" | "-717 \<le> e" "e \<le> -508" | "-507 \<le> e" "e \<le> -298" | "-297 \<le> e" "e \<le> -88" | "-87 \<le> e" "e \<le> 122" | "123 \<le> e" "e \<le> 332" | "333 \<le> e" "e \<le> 542" | "543 \<le> e" "e \<le> 752" | "753 \<le> e" "e \<le> 960"
    using assms by linarith
  then show ?thesis
    using chunks by cases (auto simp only: Ball_def atLeastAtMost_iff)
qed

lemma cached_power_error:
  assumes "-1137 \<le> e" "e \<le> 960" "get_cached_power_for_binary_exponent e = (cf, ce, ck)"
  shows "\<bar>of_int cf * pow2r ce - 10 powi ck\<bar> \<le> pow2r (ce - 1)"
proof -
  have "length kCachedPowers = 79" by code_simp
  then have "nat (power_index e) < length kCachedPowers"
    using power_ok_all [OF assms(1,2)] by (auto simp: power_ok_def)
  then have "(cf, ce, ck) \<in> set kCachedPowers"
    using nth_mem assms(3) unfolding power_index_nth by metis
  then show ?thesis using cached_power_near [of "(cf, ce, ck)"] by (simp add: power_near_def)
qed

text \<open>The four partial products give the upper half of the exact product, rounded.\<close>

lemma partial_products:
  fixes p0 p1 p2 p3 :: int
  shows "p3 + p2 div 4294967296 + p1 div 4294967296 +
      (p0 div 4294967296 + p1 mod 4294967296 + p2 mod 4294967296 + 2147483648) div 4294967296 =
    (p0 + (p1 + p2) * 4294967296 + p3 * 18446744073709551616 + 9223372036854775808) div 18446744073709551616"
proof -
  let ?B = "4294967296 :: int"
  define A C where d: "A = p0 div ?B + p1 mod ?B + p2 mod ?B + 2147483648" "C = p3 + p2 div ?B + p1 div ?B"
  define a1 b1 a2 b2 where m: "a1 = p1 mod ?B" "b1 = p1 div ?B" "a2 = p2 mod ?B" "b2 = p2 div ?B"
  have split: "p1 = a1 + b1 * ?B" "p2 = a2 + b2 * ?B" by (simp_all add: m)
  have AC: "p0 div ?B + (p1 + p2 + p3 * ?B + 2147483648) = A + C * ?B"
    unfolding d m [symmetric] by (subst split(1), subst split(2)) (simp add: algebra_simps)
  have "(p0 + (p1 + p2) * ?B + p3 * HIGH + LOW) div HIGH = ((p0 + (p1 + p2 + p3 * ?B + 2147483648) * ?B) div ?B) div ?B"
    by (simp add: algebra_simps flip: zdiv_zmult2_eq)
  also have "(p0 + (p1 + p2 + p3 * ?B + 2147483648) * ?B) div ?B = p0 div ?B + (p1 + p2 + p3 * ?B + 2147483648)"
    by simp
  also have "\<dots> div ?B = C + A div ?B" unfolding AC by simp
  finally show ?thesis unfolding d by (rule sym)
qed

lemma diyfp_mul_exact:
  assumes "0 \<le> dp_f x" "dp_f x < HIGH" "0 \<le> dp_f y" "dp_f y < HIGH"
  shows "diyfp_mul x y = \<lparr>dp_f = (dp_f x * dp_f y + LOW) div HIGH, dp_e = dp_e x + dp_e y + 64\<rparr>"
proof -
  let ?B = "4294967296 :: int"
  define xl xh yl yh where d: "xl = dp_f x mod ?B" "xh = dp_f x div ?B" "yl = dp_f y mod ?B" "yh = dp_f y div ?B"
  have r: "0 \<le> xl" "xl < ?B" "0 \<le> xh" "xh < ?B" "0 \<le> yl" "yl < ?B" "0 \<le> yh" "yh < ?B"
    using assms by (auto simp: d)
  have prod: "0 \<le> a * b \<and> a * b \<le> 18446744065119617025" if "0 \<le> a" "a < ?B" "0 \<le> b" "b < ?B" for a b :: int
  proof -
    have "a * b \<le> 4294967295 * 4294967295" using that by (intro mult_mono) simp_all
    then show ?thesis using that by simp
  qed
  note p = prod [OF r(1,2,5,6)] prod [OF r(1,2,7,8)] prod [OF r(3,4,5,6)] prod [OF r(3,4,7,8)]
  have u: "u64 a = a" if "0 \<le> a" "a < HIGH" for a using that by (simp add: u64_def)
  have xy: "dp_f x * dp_f y = xl * yl + (xl * yh + xh * yl) * ?B + xh * yh * HIGH"
  proof -
    have "dp_f x = xh * ?B + xl" "dp_f y = yh * ?B + yl" by (simp_all add: d)
    then show ?thesis by algebra
  qed
  let ?q = "xl * yl div ?B + xl * yh mod ?B + xh * yl mod ?B + 2147483648"
  let ?h = "xh * yh + xh * yl div ?B + xl * yh div ?B + ?q div ?B"
  have hv: "?h = (dp_f x * dp_f y + LOW) div HIGH" unfolding xy using partial_products by simp
  have "dp_f x * dp_f y \<le> (HIGH - 1) * (HIGH - 1)" using assms by (intro mult_mono) simp_all
  then have "0 \<le> ?h" "?h < HIGH" unfolding hv using assms by (simp_all add: pos_imp_zdiv_nonneg_iff)
  moreover have "xl * yl div ?B \<le> 18446744065119617025 div ?B" using p(1) by (intro zdiv_mono1) simp_all
  then have "?q < HIGH"
    using pos_mod_bound [of ?B "xl * yh"] pos_mod_bound [of ?B "xh * yl"] by simp
  moreover have q0: "0 \<le> xl * yl div ?B + xl * yh mod ?B + xh * yl mod ?B"
    using p(1) by (simp add: pos_imp_zdiv_nonneg_iff)
  ultimately have q: "u64 (xl * yl div ?B + xl * yh mod ?B + xh * yl mod ?B) = xl * yl div ?B + xl * yh mod ?B + xh * yl mod ?B"
    "u64 ?q = ?q" "u64 ?h = ?h"
    by (intro u; linarith)+
  have "u64 (xl * yl) = xl * yl" "u64 (xl * yh) = xl * yh" "u64 (xh * yl) = xh * yl" "u64 (xh * yh) = xh * yh"
    using p by (intro u; linarith)+
  then show ?thesis
    unfolding diyfp_mul_def Let_def d [symmetric] hv [symmetric] by (simp only: q)
qed


section \<open>The scaled boundaries\<close>

lemma high_div_le: "HIGH * (a div HIGH) \<le> a"
proof -
  have "HIGH * (a div HIGH) = a - a mod HIGH" by (rule minus_mod_eq_mult_div [symmetric])
  moreover have "0 \<le> a mod HIGH" by (rule pos_mod_sign) simp
  ultimately show ?thesis by linarith
qed

lemma scaled_gap:
  assumes "LOW \<le> c" "x \<le> y"
  shows "(x * c + LOW) div HIGH + (y - x) * c div HIGH \<le> (y * c + LOW) div HIGH"
    "(y - x) div 2 \<le> (y - x) * c div HIGH"
proof -
  have "y * c + LOW = (x * c + LOW) + (y - x) * c" by (simp add: algebra_simps)
  moreover have "(a :: int) div HIGH + b div HIGH \<le> (a + b) div HIGH" for a b
  proof -
    have "HIGH * (a div HIGH) \<le> a" "HIGH * (b div HIGH) \<le> b" by (rule high_div_le)+
    then have "(HIGH * (a div HIGH + b div HIGH)) div HIGH \<le> (a + b) div HIGH"
      by (intro zdiv_mono1) (simp_all add: distrib_left)
    then show ?thesis by simp
  qed
  ultimately show "(x * c + LOW) div HIGH + (y - x) * c div HIGH \<le> (y * c + LOW) div HIGH" by simp
  have "(y - x) * LOW \<le> (y - x) * c" using assms by (intro mult_left_mono) simp_all
  then have "(y - x) * LOW div HIGH \<le> (y - x) * c div HIGH" by (intro zdiv_mono1) simp_all
  then show "(y - x) div 2 \<le> (y - x) * c div HIGH" by simp
qed

text \<open>
  The product is off by at most one unit: half from the cached power, half from the rounding.  One unit
  inwards is strictly inside the exact boundary.
\<close>

lemma scaled_error:
  assumes "\<bar>of_int c * pow2r ce - t\<bar> \<le> pow2r (ce - 1)" "0 \<le> x" "x < HIGH"
  shows "of_int x * pow2r e * t < of_int ((x * c + LOW) div HIGH + 1) * pow2r (e + ce + 64)"
    "of_int ((x * c + LOW) div HIGH - 1) * pow2r (e + ce + 64) < of_int x * pow2r e * t"
proof -
  define q where "q = (x * c + LOW) div HIGH"
  define g where "g = pow2r (e + ce)"
  have g: "0 < g" by (simp add: g_def)
  have "x * c + LOW = q * HIGH + (x * c + LOW) mod HIGH" by (simp add: q_def)
  moreover have "0 \<le> (x * c + LOW) mod HIGH" "(x * c + LOW) mod HIGH < HIGH" by simp_all
  ultimately have q: "x * c + LOW < (q + 1) * HIGH" "(q - 1) * HIGH \<le> x * c - LOW" by (simp_all add: algebra_simps)
  have x: "(0 :: rat) \<le> of_int x" "(of_int x :: rat) / 2 < of_int LOW" using assms(2,3) by simp_all
  have top: "pow2r (e + ce + 64) = of_int HIGH * g" by (simp add: g_def pow2r_add [of "e + ce"] pow2r_nat)
  have "pow2r ce = 2 * pow2r (ce - 1)" using pow2r_add [of 1 "ce - 1"] by (simp add: pow2r_nat)
  then have t: "t \<le> (of_int c + 1 / 2) * pow2r ce" "(of_int c - 1 / 2) * pow2r ce \<le> t"
    using assms(1) unfolding abs_le_iff by (simp_all add: algebra_simps)
  have xe: "0 \<le> of_int x * pow2r e" using x(1) by simp
  have g2: "of_int x * pow2r e * (y * pow2r ce) = of_int x * y * g" for y :: rat
    by (simp add: g_def pow2r_add algebra_simps)
  have "of_int x * pow2r e * t \<le> of_int x * (of_int c + 1 / 2) * g"
    using mult_left_mono [OF t(1) xe] unfolding g2 .
  also have "\<dots> < of_int ((q + 1) * HIGH) * g"
  proof (rule mult_strict_right_mono [OF _ g])
    have "(of_int (x * c + LOW) :: rat) < of_int ((q + 1) * HIGH)" using q(1) by (simp only: of_int_less_iff)
    then show "of_int x * (of_int c + 1 / 2) < (of_int ((q + 1) * HIGH) :: rat)"
      using x(2) by (simp add: algebra_simps)
  qed
  finally show "of_int x * pow2r e * t < of_int ((x * c + LOW) div HIGH + 1) * pow2r (e + ce + 64)"
    unfolding top q_def [symmetric] by (simp only: of_int_mult mult.assoc)
  have "of_int ((q - 1) * HIGH) * g < of_int x * (of_int c - 1 / 2) * g"
  proof (rule mult_strict_right_mono [OF _ g])
    have "(of_int ((q - 1) * HIGH) :: rat) \<le> of_int (x * c - LOW)" using q(2) by (simp only: of_int_le_iff)
    then show "(of_int ((q - 1) * HIGH) :: rat) < of_int x * (of_int c - 1 / 2)"
      using x(2) by (simp add: algebra_simps)
  qed
  also have "\<dots> \<le> of_int x * pow2r e * t"
    using mult_left_mono [OF t(2) xe] unfolding g2 .
  finally show "of_int ((x * c + LOW) div HIGH - 1) * pow2r (e + ce + 64) < of_int x * pow2r e * t"
    unfolding top q_def [symmetric] by (simp only: of_int_mult mult.assoc)
qed

text \<open>
  What digit generation starts from: the double is \<open>vf * 2 ^ ve\<close>, and the interval from \<open>Mm\<close> to \<open>Mp\<close> lies
  strictly between the midpoints to its neighbours, all scaled by the power of ten.
\<close>

lemma grisu2_input:
  assumes "d_ok (D_fin r)"
  obtains Mm Mw Mp e ck vf ve where
    "grisu2 \<bar>r\<bar> = grisu2_digit_gen (- ck) \<lparr>dp_f = Mm, dp_e = e\<rparr> \<lparr>dp_f = Mw, dp_e = e\<rparr> \<lparr>dp_f = Mp, dp_e = e\<rparr>"
    "-60 \<le> e" "e \<le> -32" "0 < Mm" "Mm < Mw" "Mw < Mp" "Mp < HIGH" "2305843009213693952 \<le> Mp"
    "Mp < 10000000000000000 * (Mp - Mm)" "-300 \<le> ck" "ck \<le> 324"
    "\<bar>r\<bar> = of_int vf * pow2r ve" "1 \<le> vf" "vf < 9007199254740992" "-1074 \<le> ve" "ve \<le> 971"
    "ve = -1074 \<or> 4503599627370496 \<le> vf"
    "(of_int vf - lower_half vf ve) * pow2r ve * 10 powi ck < of_int Mm * pow2r e"
    "of_int Mp * pow2r e < (of_int vf + 1 / 2) * pow2r ve * 10 powi ck"
proof -
  obtain E F where f: "ieee_fields \<bar>r\<bar> = (E, F)" "0 \<le> F" "F < 4503599627370496" "E = 0 \<and> 1 \<le> F \<or> 1 \<le> E \<and> E \<le> 2046"
    and rv: "\<bar>r\<bar> = of_int (field_significand E F) * pow2r (field_exponent E)"
    using finite_double_fields [OF assms] by blast
  obtain W L P e where b: "compute_boundaries \<bar>r\<bar> = \<lparr>bnd_w = \<lparr>dp_f = W, dp_e = e\<rparr>, bnd_minus = \<lparr>dp_f = L, dp_e = e\<rparr>, bnd_plus = \<lparr>dp_f = P, dp_e = e\<rparr>\<rparr>"
    and v: "LOW \<le> W" "P < HIGH" "W + 1024 \<le> P" "L + 512 \<le> W" "0 < L" "P \<le> 9007199254740992 * (P - L)"
    and e: "-1137 \<le> e" "e \<le> 960"
    and mid: "of_int P * pow2r e = (of_int (field_significand E F) + 1 / 2) * pow2r (field_exponent E)"
      "of_int L * pow2r e = (of_int (field_significand E F) - lower_half (field_significand E F) (field_exponent E)) * pow2r (field_exponent E)"
    by (rule boundaries_values [OF f])
  obtain c ce ck where cp: "get_cached_power_for_binary_exponent e = (c, ce, ck)" by (metis surj_pair)
  have c: "LOW \<le> c" "c < HIGH" "-60 \<le> e + ce + 64" "e + ce + 64 \<le> -32" "-300 \<le> ck" "ck \<le> 324"
    using power_ok_all [OF e] by (auto simp: power_ok_def cp)
  let ?s = "\<lambda>x. (x * c + LOW) div HIGH"
  have mul: "diyfp_mul \<lparr>dp_f = x, dp_e = e\<rparr> \<lparr>dp_f = c, dp_e = ce\<rparr> = \<lparr>dp_f = ?s x, dp_e = e + ce + 64\<rparr>"
    if "0 \<le> x" "x < HIGH" for x
    using diyfp_mul_exact [of "\<lparr>dp_f = x, dp_e = e\<rparr>" "\<lparr>dp_f = c, dp_e = ce\<rparr>"] that c by simp
  have gap: "?s x + (y - x) div 2 \<le> ?s y" if "x \<le> y" for x y
    using scaled_gap [OF c(1) that] by linarith
  have g1: "?s L + 256 \<le> ?s W" using gap [of L W] v(4) by linarith
  have g2: "?s W + 512 \<le> ?s P" using gap [of W P] v(3) by linarith
  have g0: "0 \<le> ?s L" using v(5) c(1) by (simp add: pos_imp_zdiv_nonneg_iff)
  have "?s 0 + P div 2 \<le> ?s P" using gap [of 0 P] v by simp
  then have gp: "4611686018427387904 \<le> ?s P" using v(1,3) by simp
  have "P * c \<le> (HIGH - 1) * (HIGH - 1)" using v c by (intro mult_mono) simp_all
  then have hp: "?s P < HIGH" by simp
  have ratio: "?s P - 1 < 10000000000000000 * (?s P - 1 - (?s L + 1))"
  proof -
    define T where "T = (P - L) * c"
    have "1536 * LOW \<le> T" unfolding T_def using v c by (intro mult_mono) simp_all
    then have T: "768 * HIGH \<le> T" by simp
    have d: "T div HIGH \<le> ?s P - ?s L" using scaled_gap(1) [OF c(1), of L P] v unfolding T_def by linarith
    have "P * c \<le> 9007199254740992 * (P - L) * c" using v(6) c by (intro mult_right_mono) simp_all
    then have m: "P * c \<le> 9007199254740992 * T" by (simp only: T_def mult.assoc)
    have "?s P * HIGH \<le> P * c + LOW" using high_div_le [of "P * c + LOW"] by (simp only: mult.commute)
    moreover have "T < (T div HIGH + 1) * HIGH" using mult_div_mod_eq [of HIGH T] pos_mod_bound [of HIGH T]
      by (simp add: algebra_simps)
    ultimately have "(?s P - 1) * HIGH < 10000000000000000 * (?s P - 1 - (?s L + 1)) * HIGH"
      using T d m by (simp add: algebra_simps)
    then show ?thesis by (rule mult_right_less_imp_less) simp
  qed
  have u: "u64 a = a" if "0 \<le> a" "a < HIGH" for a using that by (simp add: u64_def)
  have "L < HIGH" "0 \<le> L" "0 \<le> P" using v by linarith+
  then have inside: "of_int L * pow2r e * 10 powi ck < of_int (?s L + 1) * pow2r (e + ce + 64)"
    "of_int (?s P - 1) * pow2r (e + ce + 64) < of_int P * pow2r e * 10 powi ck"
    using scaled_error [OF cached_power_error [OF e cp]] v(2) by blast+
  have vf: "1 \<le> field_significand E F" "field_significand E F < 9007199254740992" "-1074 \<le> field_exponent E"
    "field_exponent E \<le> 971" "field_exponent E = -1074 \<or> 4503599627370496 \<le> field_significand E F"
    using f(2-4) by auto
  show thesis
  proof (rule that [of ck "?s L + 1" "e + ce + 64" "?s W" "?s P - 1" "field_significand E F" "field_exponent E"])
    show "grisu2 \<bar>r\<bar> = grisu2_digit_gen (- ck) \<lparr>dp_f = ?s L + 1, dp_e = e + ce + 64\<rparr>
        \<lparr>dp_f = ?s W, dp_e = e + ce + 64\<rparr> \<lparr>dp_f = ?s P - 1, dp_e = e + ce + 64\<rparr>"
    proof -
      have "u64 (?s L + 1) = ?s L + 1" "u64 (?s P - 1) = ?s P - 1"
        using g0 g1 g2 hp by (intro u; linarith)+
      moreover have "diyfp_mul \<lparr>dp_f = L, dp_e = e\<rparr> \<lparr>dp_f = c, dp_e = ce\<rparr> = \<lparr>dp_f = ?s L, dp_e = e + ce + 64\<rparr>"
        "diyfp_mul \<lparr>dp_f = W, dp_e = e\<rparr> \<lparr>dp_f = c, dp_e = ce\<rparr> = \<lparr>dp_f = ?s W, dp_e = e + ce + 64\<rparr>"
        "diyfp_mul \<lparr>dp_f = P, dp_e = e\<rparr> \<lparr>dp_f = c, dp_e = ce\<rparr> = \<lparr>dp_f = ?s P, dp_e = e + ce + 64\<rparr>"
        using v by (intro mul; linarith)+
      ultimately show ?thesis
        unfolding grisu2_def b Let_def boundaries.select_convs diyfp.select_convs cp prod.case
        by (simp only: diyfp.select_convs)
    qed
  qed (use rv vf inside [unfolded mid] in blast | use g0 g1 g2 gp hp c(3-6) ratio in linarith)+
qed

end
