(* ===== verification/JsonFloat.thy ===== *)
theory JsonFloat imports JsonString JsonGrisu begin

text \<open>
  Printing of floating-point numbers: the digit loops of Grisu2 emit decimal digits without a leading zero, at
  most 17 of them, the number they denote rounds back to the double, and the text fits its buffer.
\<close>

section \<open>The digits\<close>

definition decimal_digits :: "int list \<Rightarrow> bool" where
  "decimal_digits ds \<longleftrightarrow> (\<forall>d\<in>set ds. 0 \<le> d \<and> d \<le> 9)"

lemma decimal_digits_simps [simp]:
  "decimal_digits []" "decimal_digits (ds @ es) \<longleftrightarrow> decimal_digits ds \<and> decimal_digits es"
  "decimal_digits (d # ds) \<longleftrightarrow> 0 \<le> d \<and> d \<le> 9 \<and> decimal_digits ds"
  by (auto simp: decimal_digits_def)

text \<open>The number the digits denote, and that it lies at most \<open>delta\<close> below \<open>y\<close> when both are scaled.\<close>

definition digits_num :: "int list \<Rightarrow> int" where
  "digits_num ds = foldl (\<lambda>n d. 10 * n + d) 0 ds"

lemma digits_num_simps [simp]: "digits_num [] = 0" "digits_num (ds @ [d]) = 10 * digits_num ds + d"
  by (simp_all add: digits_num_def)

definition digits_within :: "int list \<Rightarrow> int \<Rightarrow> nat \<Rightarrow> int \<Rightarrow> int \<Rightarrow> bool" where
  "digits_within ds one k y delta \<longleftrightarrow> (y - delta) * 10 ^ k \<le> digits_num ds * one \<and> digits_num ds * one \<le> y * 10 ^ k"

lemma digits_within_scale: "digits_within ds one k (10 * y) (10 * delta) \<longleftrightarrow> digits_within ds one (Suc k) y delta"
  by (simp add: digits_within_def algebra_simps)

lemma digit_div: "0 \<le> x \<Longrightarrow> x < 10 * c \<Longrightarrow> 0 < c \<Longrightarrow> 0 \<le> x div c \<and> x div c \<le> (9::int)"
proof
  assume x: "0 \<le> x" "x < 10 * c" "0 < c"
  then show "0 \<le> x div c" by (simp add: pos_imp_zdiv_nonneg_iff)
  have "x div c * c = x - x mod c" by (rule minus_mod_eq_div_mult [symmetric])
  moreover have "0 \<le> x mod c" using x by simp
  ultimately have "x div c * c < 10 * c" using x by linarith
  then show "x div c \<le> 9" using x by simp
qed

text \<open>
  Rounding only lowers the last digit, and never below one: the number without its last digit is further
  than \<open>delta\<close> from the upper boundary.  The number stays within \<open>delta\<close> of that boundary.
\<close>

lemma grisu2_round_ok:
  "0 < ten_k \<Longrightarrow> rest \<le> delta \<Longrightarrow> delta < d * ten_k + rest \<Longrightarrow>
   \<exists>d'. grisu2_round (ds @ [d]) dst delta rest ten_k = ds @ [d'] \<and> 1 \<le> d' \<and> d' \<le> d \<and>
     rest + (d - d') * ten_k \<le> delta"
proof (induction "ds @ [d]" dst delta rest ten_k arbitrary: d rule: grisu2_round.induct)
  case (1 dst delta rest ten_k)
  have "0 < d * ten_k" using "1.prems"(2,3) by linarith
  then have d1: "1 \<le> d" using "1.prems"(1) by (simp add: zero_less_mult_iff)
  let ?go = "0 < ten_k \<and> rest < dst \<and> ten_k \<le> delta - rest \<and> (rest + ten_k < dst \<or> rest + ten_k - dst < dst - rest)"
  show ?case
  proof (cases ?go)
    case True
    have "delta < (d - 1) * ten_k + (rest + ten_k)" using "1.prems"(3) by (simp add: algebra_simps)
    moreover have "rest + ten_k \<le> delta" using True by linarith
    ultimately obtain d' where "grisu2_round (ds @ [d - 1]) dst delta (rest + ten_k) ten_k = ds @ [d']" "1 \<le> d'" "d' \<le> d - 1"
      "rest + ten_k + (d - 1 - d') * ten_k \<le> delta"
      using "1.hyps" [OF True, of "d - 1"] "1.prems"(1) by (auto simp: dec_last_def)
    moreover have "rest + ten_k + (d - 1 - d') * ten_k = rest + (d - d') * ten_k" by (simp add: algebra_simps)
    ultimately show ?thesis using True by (subst grisu2_round.simps) (auto simp: dec_last_def)
  next
    case False
    then show ?thesis using d1 "1.prems"(2) by (subst grisu2_round.simps) auto
  qed
qed

text \<open>
  The fractional digits: \<open>10 ^ j * delta\<close> reaching \<open>one\<close> bounds their number.  The test for a positive \<open>delta\<close>
  never ends the loop.
\<close>

lemma digit_gen_frac_ok:
  assumes "0 < delta" "delta < p2" "p2 < one" "one \<le> 10 ^ j * delta" "decimal_digits buf"
  shows "\<exists>ds de. digit_gen_frac buf m p2 delta dst one = (buf @ ds, de) \<and> ds \<noteq> [] \<and> decimal_digits ds \<and> length ds \<le> j \<and>
    m \<le> de \<and> de \<le> m + int j \<and> digits_within (buf @ ds) one (nat (de - m)) (digits_num buf * one + p2) delta"
  using assms
proof (induction buf m p2 delta dst one arbitrary: j rule: digit_gen_frac.induct)
  case (1 buf m p2 delta dst one)
  define d r where dr: "d = (10 * p2) div one" "r = (10 * p2) mod one"
  have one: "0 < one" using "1.prems" by linarith
  have eq: "d * one + r = 10 * p2" by (simp add: dr)
  have r: "0 \<le> r" "r < one" using one by (simp_all add: dr)
  have d: "0 \<le> d" "d \<le> 9"
    using digit_div [of "10 * p2" one] "1.prems" one by (simp_all add: dr)
  obtain i where j: "j = Suc i"
    using "1.prems" by (cases j) auto
  show ?case
  proof (cases "r \<le> 10 * delta")
    case True
    have "10 * delta < d * one + r" using eq "1.prems"(2) by simp
    from grisu2_round_ok [OF one True this, of buf "10 * dst"] obtain d' where
      "grisu2_round (buf @ [d]) (10 * dst) (10 * delta) r one = buf @ [d']" "1 \<le> d'" "d' \<le> d"
      "r + (d - d') * one \<le> 10 * delta" by blast
    moreover have "d' * one \<le> 10 * p2" using mult_right_mono [OF \<open>d' \<le> d\<close>, of one] one eq r by linarith
    ultimately have within: "digits_within (buf @ [d']) one 1 (digits_num buf * one + p2) delta"
      using eq r by (simp add: digits_within_def algebra_simps)
    from \<open>grisu2_round _ _ _ _ _ = _\<close> have "digit_gen_frac buf m p2 delta dst one = (buf @ [d'], m + 1)"
      using True by (subst digit_gen_frac.simps) (simp add: Let_def flip: dr)
    then show ?thesis using \<open>1 \<le> d'\<close> \<open>d' \<le> d\<close> d j within by auto
  next
    case False
    have step: "digit_gen_frac buf m p2 delta dst one = digit_gen_frac (buf @ [d]) (m + 1) r (10 * delta) (10 * dst) one"
      using False "1.prems"(1) one by (subst digit_gen_frac.simps) (simp add: Let_def flip: dr)
    have "\<exists>ds de. digit_gen_frac (buf @ [d]) (m + 1) r (10 * delta) (10 * dst) one = ((buf @ [d]) @ ds, de) \<and>
        ds \<noteq> [] \<and> decimal_digits ds \<and> length ds \<le> i \<and> m + 1 \<le> de \<and> de \<le> m + 1 + int i \<and>
        digits_within ((buf @ [d]) @ ds) one (nat (de - (m + 1))) (digits_num (buf @ [d]) * one + r) (10 * delta)"
      using False "1.prems" one r d j by (intro "1.IH" [OF dr refl refl refl]) (simp_all add: not_le algebra_simps)
    then obtain ds de where ds: "digit_gen_frac (buf @ [d]) (m + 1) r (10 * delta) (10 * dst) one = ((buf @ [d]) @ ds, de)"
      "ds \<noteq> []" "decimal_digits ds" "length ds \<le> i" "m + 1 \<le> de" "de \<le> m + 1 + int i"
      "digits_within ((buf @ [d]) @ ds) one (nat (de - (m + 1))) (digits_num (buf @ [d]) * one + r) (10 * delta)" by blast
    have k: "nat (de - m) = Suc (nat (de - (m + 1)))" using ds(5) by linarith
    have y: "digits_num (buf @ [d]) * one + r = 10 * (digits_num buf * one + p2)" using eq by (simp add: algebra_simps)
    have "digits_within (buf @ (d # ds)) one (nat (de - m)) (digits_num buf * one + p2) delta"
      using ds(7) unfolding y k digits_within_scale by simp
    with ds d show ?thesis unfolding step j by (intro exI [of _ "d # ds"] exI [of _ de]) simp
  qed
qed

text \<open>The integral digits, from a leading digit or after other digits.\<close>

lemma digit_gen_int_ok:
  assumes "0 < delta" "0 < one" "0 \<le> p2" "p2 < one" "delta < p1 * one + p2" "0 \<le> p1" "p1 < 10 ^ n"
    "pow10 = (if n = 0 then 0 else 10 ^ (n - 1))" "one \<le> 10 ^ j * delta" "decimal_digits buf"
  shows "\<exists>ds de. digit_gen_int n buf p1 pow10 p2 delta dst one = (buf @ ds, de) \<and> ds \<noteq> [] \<and> decimal_digits ds \<and>
    length ds \<le> n + j \<and> - int j \<le> de \<and> de \<le> int n \<and> (0 < n \<and> 10 ^ (n - 1) \<le> p1 \<longrightarrow> 1 \<le> hd ds) \<and>
    digits_within (buf @ ds) (10 ^ nat de * one) (nat (- de)) ((digits_num buf * 10 ^ n + p1) * one + p2) delta"
  using assms
proof (induction n arbitrary: buf p1 pow10)
  case 0
  then have "p1 = 0" by simp
  with 0 digit_gen_frac_ok [of delta p2 one j buf 0 dst] show ?case by (force simp: apsnd_def map_prod_def)
next
  case (Suc n)
  define d r where dr: "d = p1 div pow10" "r = p1 mod pow10"
  have pw: "pow10 = 10 ^ n" "0 < pow10" using Suc.prems(8) by simp_all
  have eq: "d * pow10 + r = p1" by (simp add: dr)
  have r: "0 \<le> r" "r < pow10" using pw by (simp_all add: dr)
  have d: "0 \<le> d" "d \<le> 9"
    using digit_div [of p1 pow10] Suc.prems(6,7) pw by (simp_all add: dr)
  have lead: "1 \<le> d" if "10 ^ n \<le> p1"
  proof -
    have "0 < d * pow10" using eq r that pw by linarith
    then show ?thesis using pw by (simp add: zero_less_mult_iff)
  qed
  show ?case
  proof (cases "r * one + p2 \<le> delta")
    case True
    have "delta < d * (pow10 * one) + (r * one + p2)" using Suc.prems(5) unfolding eq [symmetric] by (simp add: algebra_simps)
    moreover have "0 < pow10 * one" using pw Suc.prems(2) by simp
    ultimately obtain d' where
      d': "grisu2_round (buf @ [d]) dst delta (r * one + p2) (pow10 * one) = buf @ [d']" "1 \<le> d'" "d' \<le> d"
      "r * one + p2 + (d - d') * (pow10 * one) \<le> delta"
      using grisu2_round_ok True by blast
    have "d' * (pow10 * one) \<le> d * (pow10 * one)"
      using d'(3) \<open>0 < pow10 * one\<close> by (intro mult_right_mono) simp_all
    moreover have "0 \<le> r * one + p2" using r Suc.prems(2,3) by simp
    moreover have "(digits_num buf * 10 ^ Suc n + p1) * one + p2 = (10 * digits_num buf + d) * (pow10 * one) + (r * one + p2)"
      using eq [symmetric] pw(1) by (simp add: algebra_simps)
    ultimately have within: "digits_within (buf @ [d']) (pow10 * one) 0 ((digits_num buf * 10 ^ Suc n + p1) * one + p2) delta"
      using d'(4) by (simp add: digits_within_def algebra_simps)
    from d'(1) have "digit_gen_int (Suc n) buf p1 pow10 p2 delta dst one = (buf @ [d'], int n)"
      using True by (simp add: Let_def flip: dr)
    then show ?thesis using d d' within pw(1) by auto
  next
    case False
    have step: "digit_gen_int (Suc n) buf p1 pow10 p2 delta dst one = digit_gen_int n (buf @ [d]) r (pow10 div 10) p2 delta dst one"
      using False by (simp add: Let_def flip: dr)
    have q: "pow10 div 10 = (if n = 0 then 0 else 10 ^ (n - 1))" using pw by (cases n) simp_all
    have "\<exists>ds de. digit_gen_int n (buf @ [d]) r (pow10 div 10) p2 delta dst one = ((buf @ [d]) @ ds, de) \<and> ds \<noteq> [] \<and>
        decimal_digits ds \<and> length ds \<le> n + j \<and> - int j \<le> de \<and> de \<le> int n \<and> (0 < n \<and> 10 ^ (n - 1) \<le> r \<longrightarrow> 1 \<le> hd ds) \<and>
        digits_within ((buf @ [d]) @ ds) (10 ^ nat de * one) (nat (- de)) ((digits_num (buf @ [d]) * 10 ^ n + r) * one + p2) delta"
      by (rule Suc.IH) (use Suc.prems False r pw q d in simp_all)
    moreover have "digits_num (buf @ [d]) * 10 ^ n + r = digits_num buf * 10 ^ Suc n + p1"
      using eq [symmetric] pw(1) by (simp add: algebra_simps)
    ultimately show ?thesis unfolding step using d lead by force
  qed
qed

lemma find_largest_pow10_ok:
  assumes "0 < n" "n < 10000000000"
  obtains k where "find_largest_pow10 n = (int (Suc k), 10 ^ k)" "10 ^ k \<le> n" "n < 10 ^ Suc k" "k < 10"
proof -
  define P where "P k \<longleftrightarrow> find_largest_pow10 n = (int (Suc k), 10 ^ k) \<and> 10 ^ k \<le> n \<and> n < 10 ^ Suc k \<and> k < 10" for k
  have "\<exists>k. P k"
  proof -
    consider "1000000000 \<le> n" | "100000000 \<le> n" "n < 1000000000" | "10000000 \<le> n" "n < 100000000" | "1000000 \<le> n" "n < 10000000" | "100000 \<le> n" "n < 1000000" | "10000 \<le> n" "n < 100000" | "1000 \<le> n" "n < 10000" | "100 \<le> n" "n < 1000" | "10 \<le> n" "n < 100" | "n < 10"
      by linarith
    then show ?thesis
    proof cases
      case 1
      then have "P 9" using assms by (simp add: P_def find_largest_pow10_def)
      then show ?thesis ..
    next
      case 2
      then have "P 8" using assms by (simp add: P_def find_largest_pow10_def)
      then show ?thesis ..
    next
      case 3
      then have "P 7" using assms by (simp add: P_def find_largest_pow10_def)
      then show ?thesis ..
    next
      case 4
      then have "P 6" using assms by (simp add: P_def find_largest_pow10_def)
      then show ?thesis ..
    next
      case 5
      then have "P 5" using assms by (simp add: P_def find_largest_pow10_def)
      then show ?thesis ..
    next
      case 6
      then have "P 4" using assms by (simp add: P_def find_largest_pow10_def)
      then show ?thesis ..
    next
      case 7
      then have "P 3" using assms by (simp add: P_def find_largest_pow10_def)
      then show ?thesis ..
    next
      case 8
      then have "P 2" using assms by (simp add: P_def find_largest_pow10_def)
      then show ?thesis ..
    next
      case 9
      then have "P 1" using assms by (simp add: P_def find_largest_pow10_def)
      then show ?thesis ..
    next
      case 10
      then have "P 0" using assms by (simp add: P_def find_largest_pow10_def)
      then show ?thesis ..
    qed
  qed
  with that show thesis unfolding P_def by blast
qed


text \<open>The decimal that digits and an exponent denote; \<open>digits_within\<close> for it.\<close>

definition digits_value :: "int list \<Rightarrow> int \<Rightarrow> rat" where
  "digits_value ds de = of_int (digits_num ds) * 10 powi de"

lemma digits_within_value:
  assumes "digits_within ds (10 ^ nat de * one) (nat (- de)) y delta"
  shows "of_int (y - delta) \<le> digits_value ds de * of_int one" "digits_value ds de * of_int one \<le> of_int y"
proof -
  have ten: "(10 :: rat) powi de = 10 ^ nat de / 10 ^ nat (- de)"
    by (cases "0 \<le> de") (simp_all add: power_int_def field_simps)
  have "(of_int ((y - delta) * 10 ^ nat (- de)) :: rat) \<le> of_int (digits_num ds * (10 ^ nat de * one))"
    "(of_int (digits_num ds * (10 ^ nat de * one)) :: rat) \<le> of_int (y * 10 ^ nat (- de))"
    using assms unfolding digits_within_def of_int_le_iff by blast+
  then show "of_int (y - delta) \<le> digits_value ds de * of_int one" "digits_value ds de * of_int one \<le> of_int y"
    by (simp_all add: digits_value_def ten field_simps)
qed

text \<open>
  For every finite nonzero double the digits of Grisu2 are decimal, start with a nonzero one and are between
  1 and 17, the assertion of \<open>to_chars\<close> and the precision that identifies a double.  The decimal they denote
  rounds to the double they were made from.
\<close>

lemma grisu2_ok:
  assumes "d_ok (D_fin r)"
  shows "\<exists>ds de. grisu2 \<bar>r\<bar> = (ds, de) \<and> ds \<noteq> [] \<and> decimal_digits ds \<and> 1 \<le> hd ds \<and> length ds \<le> 17 \<and>
    -341 \<le> de \<and> de \<le> 310 \<and> round_double z (digits_value ds de) = D_fin \<bar>r\<bar>"
proof -
  from grisu2_input [OF assms] obtain Mm Mw Mp e ck vf ve where
    g: "grisu2 \<bar>r\<bar> = grisu2_digit_gen (- ck) \<lparr>dp_f = Mm, dp_e = e\<rparr> \<lparr>dp_f = Mw, dp_e = e\<rparr> \<lparr>dp_f = Mp, dp_e = e\<rparr>"
    and e: "-60 \<le> e" "e \<le> -32"
    and M: "0 < Mm" "Mm < Mw" "Mw < Mp" "Mp < HIGH" "2305843009213693952 \<le> Mp" "Mp < 10000000000000000 * (Mp - Mm)"
    and ck: "-300 \<le> ck" "ck \<le> 324"
    and vf: "\<bar>r\<bar> = of_int vf * pow2r ve" "1 \<le> vf" "vf < 9007199254740992" "-1074 \<le> ve" "ve \<le> 971"
      "ve = -1074 \<or> 4503599627370496 \<le> vf"
    and inside: "(of_int vf - lower_half vf ve) * pow2r ve * 10 powi ck < of_int Mm * pow2r e"
      "of_int Mp * pow2r e < (of_int vf + 1 / 2) * pow2r ve * 10 powi ck" .
  define one :: int where "one = 2 ^ nat (- e)"
  have "nat (- e) \<le> 60" "32 \<le> nat (- e)" using e by linarith+
  then have one: "4294967296 \<le> one" "one \<le> 1152921504606846976"
    using power_increasing [of 32 "nat (- e)" "2 :: int"] power_increasing [of "nat (- e)" 60 "2 :: int"]
    by (simp_all add: one_def)
  define p1 p2 where p: "p1 = Mp div one" "p2 = Mp mod one"
  have eq: "p1 * one + p2 = Mp" by (simp add: p)
  have p2: "0 \<le> p2" "p2 < one" using one by (simp_all add: p)
  have p1: "0 < p1" "p1 < 10000000000"
  proof -
    have "0 < p1 * one" using eq p2 one M by linarith
    then show "0 < p1" using one by (simp add: zero_less_mult_iff)
    show "p1 < 10000000000"
    proof (rule ccontr)
      assume "\<not> p1 < 10000000000"
      then have "10000000000 * 4294967296 \<le> p1 * one" using one by (intro mult_mono) simp_all
      with eq p2 M show False by simp
    qed
  qed
  from find_largest_pow10_ok [OF p1] obtain k where
    k: "find_largest_pow10 p1 = (int (Suc k), 10 ^ k)" "10 ^ k \<le> p1" "p1 < 10 ^ Suc k" "k < 10" .
  let ?delta = "Mp - Mm"
  have reach: "one \<le> 10 ^ (16 - k) * ?delta"
  proof -
    have "10 ^ k * one \<le> p1 * one" using k(2) one by (intro mult_right_mono) simp_all
    also have "\<dots> \<le> 10 ^ 16 * ?delta" using eq p2 M(6) by simp
    also have "(10 :: int) ^ 16 = 10 ^ k * 10 ^ (16 - k)" using k(4) by (simp flip: power_add)
    finally show ?thesis by (simp add: mult.assoc)
  qed
  have u: "u64 ?delta = ?delta" "u64 (Mp - Mw) = Mp - Mw" using M by (simp_all add: u64_def)
  have "\<exists>ds de. digit_gen_int (Suc k) [] p1 (10 ^ k) p2 ?delta (Mp - Mw) one = ([] @ ds, de) \<and> ds \<noteq> [] \<and>
      decimal_digits ds \<and> length ds \<le> Suc k + (16 - k) \<and> - int (16 - k) \<le> de \<and> de \<le> int (Suc k) \<and> (0 < Suc k \<and> 10 ^ (Suc k - 1) \<le> p1 \<longrightarrow> 1 \<le> hd ds) \<and>
      digits_within ([] @ ds) (10 ^ nat de * one) (nat (- de)) ((digits_num [] * 10 ^ Suc k + p1) * one + p2) ?delta"
    by (rule digit_gen_int_ok) (use M one p1 p2 k reach eq in simp_all)
  then obtain ds de where ds: "digit_gen_int (Suc k) [] p1 (10 ^ k) p2 ?delta (Mp - Mw) one = (ds, de)" "ds \<noteq> []"
    "decimal_digits ds" "length ds \<le> 17" "1 \<le> hd ds" "-16 \<le> de" "de \<le> 10"
    "digits_within ds (10 ^ nat de * one) (nat (- de)) Mp ?delta"
    using k(2,4) eq by auto
  have scale: "of_int one * pow2r e = 1" using e by (simp add: one_def pow2r_def)
  have shifted: "digits_value ds (- ck + de) * 10 powi ck = digits_value ds de"
    using power_int_add [of "10 :: rat" "de - ck" ck] by (simp add: digits_value_def)
  have "of_int Mm * pow2r e \<le> digits_value ds de * of_int one * pow2r e"
    "digits_value ds de * of_int one * pow2r e \<le> of_int Mp * pow2r e"
    using digits_within_value [OF ds(8)] by (intro mult_right_mono; simp)+
  then have "of_int Mm * pow2r e \<le> digits_value ds (- ck + de) * 10 powi ck"
    "digits_value ds (- ck + de) * 10 powi ck \<le> of_int Mp * pow2r e"
    unfolding mult.assoc scale shifted [unfolded mult.assoc] by simp_all
  then have "(of_int vf - lower_half vf ve) * pow2r ve * 10 powi ck < digits_value ds (- ck + de) * 10 powi ck"
    "digits_value ds (- ck + de) * 10 powi ck < (of_int vf + 1 / 2) * pow2r ve * 10 powi ck"
    using inside by linarith+
  then have "(of_int vf - lower_half vf ve) * pow2r ve < digits_value ds (- ck + de)"
    "digits_value ds (- ck + de) < (of_int vf + 1 / 2) * pow2r ve"
    by simp_all
  then have rd: "round_double z (digits_value ds (- ck + de)) = D_fin \<bar>r\<bar>"
    unfolding vf(1) lower_half_def by (intro round_double_near vf(2-6))
  have "grisu2 \<bar>r\<bar> = (ds, - ck + de)"
    unfolding g grisu2_digit_gen_def diyfp_sub_def diyfp.select_convs Let_def one_def [symmetric] p [symmetric] u k(1)
      prod.case nat_int ds(1) by (rule refl)
  with ds ck rd show ?thesis by auto
qed


section \<open>The text\<close>

definition number_char :: "char \<Rightarrow> bool" where
  "number_char c \<longleftrightarrow> c \<in> set ''0123456789+-.e''"

definition number_chars :: "string \<Rightarrow> bool" where
  "number_chars s \<longleftrightarrow> (\<forall>c\<in>set s. number_char c)"

lemma number_char_simps [simp]:
  "number_char (CHR ''0'')" "number_char (CHR ''.'')" "number_char (CHR ''e'')" "number_char (CHR ''-'')"
  "number_char (CHR ''+'')"
  by (simp_all add: number_char_def)

lemma number_chars_simps [simp]:
  "number_chars []" "number_chars (s @ t) \<longleftrightarrow> number_chars s \<and> number_chars t"
  "number_chars (c # s) \<longleftrightarrow> number_char c \<and> number_chars s"
  "number_chars (replicate n (CHR ''0''))"
  by (auto simp: number_chars_def simp del: set_replicate)

lemma digit_char_values: "list_all (\<lambda>d. digit_char d \<in> set ''0123456789'') [0..9]"
  by code_simp

lemma digit_char_decimal: "0 \<le> d \<Longrightarrow> d \<le> 9 \<Longrightarrow> digit_char d \<in> set ''0123456789''"
  using digit_char_values [unfolded list_all_iff set_upto] by (simp only: Ball_def atLeastAtMost_iff)

lemma digits_number_chars: "set ''0123456789'' \<subseteq> set ''0123456789+-.e''"
  by code_simp

lemma number_char_digit: "0 \<le> d \<Longrightarrow> d \<le> 9 \<Longrightarrow> number_char (digit_char d)"
  unfolding number_char_def by (rule subsetD [OF digits_number_chars digit_char_decimal])

lemma number_chars_digits: "decimal_digits ds \<Longrightarrow> number_chars (map digit_char ds)"
  by (induction ds) (simp_all add: number_char_digit)

lemma number_chars_parts: "number_chars s \<Longrightarrow> number_chars (take n s) \<and> number_chars (drop n s)"
  by (auto simp: number_chars_def dest: in_set_takeD in_set_dropD)

lemma append_exponent_text:
  assumes "\<bar>e\<bar> < 1000"
  shows "number_chars (append_exponent e) \<and> length (append_exponent e) \<le> 4"
proof -
  define k where "k = \<bar>e\<bar>"
  define sg where "sg = (if e < 0 then ''-'' else ''+'')"
  have k: "0 \<le> k" "k < 1000" using assms by (simp_all add: k_def)
  have d: "number_char (digit_char (k div 100))" "number_char (digit_char (k mod 100 div 10))"
    "number_char (digit_char (k mod 100 mod 10))" "number_char (digit_char (k mod 10))"
    using digit_div [of k 100] digit_div [of "k mod 100" 10] k by (intro number_char_digit; simp)+
  have d1: "number_char (digit_char k)" if "k < 10" using that k by (intro number_char_digit) simp_all
  have d2: "number_char (digit_char (k div 10))" if "k < 100"
    using digit_div [of k 10] that k by (intro number_char_digit) simp_all
  have s: "number_chars sg" "length sg = 1" by (simp_all add: sg_def)
  have a: "append_exponent e = sg @ (if k < 10 then [CHR ''0'', digit_char k]
      else if k < 100 then [digit_char (k div 10), digit_char (k mod 10)]
      else [digit_char (k div 100), digit_char (k mod 100 div 10), digit_char (k mod 100 mod 10)])"
    unfolding append_exponent_def Let_def k_def sg_def by (rule refl)
  show ?thesis
    unfolding a using d d1 d2 s by (simp split: if_split)
qed

lemma format_buffer_text:
  assumes "number_chars buf" "buf \<noteq> []" "length buf \<le> 17" "-341 \<le> de" "de \<le> 310"
  shows "number_chars (format_buffer buf de (-4) 15) \<and> length (format_buffer buf de (-4) 15) \<le> 24"
proof -
  define x where "x = append_exponent (int (length buf) + de - 1)"
  have "\<bar>int (length buf) + de - 1\<bar> < 1000" using assms(2-5) by (cases buf) auto
  then have e: "number_chars x" "length x \<le> 4" using append_exponent_text by (auto simp: x_def)
  show ?thesis
    using number_chars_parts [OF assms(1)] assms e
    unfolding format_buffer_def Let_def x_def [symmetric]
    by (auto simp: min_def)
qed

lemma dump_float_text:
  assumes "d_ok d"
  shows "length (dump_float d) \<le> 25 \<and> (d_isfinite d \<longrightarrow> number_chars (dump_float d)) \<and>
    (\<not> d_isfinite d \<longrightarrow> dump_float d = ''null'')"
proof (cases d)
  case (D_fin r)
  obtain ds de where g: "grisu2 \<bar>r\<bar> = (ds, de)" "ds \<noteq> []" "decimal_digits ds" "length ds \<le> 17" "-341 \<le> de" "de \<le> 310"
    using grisu2_ok assms D_fin by blast
  have "number_chars (format_buffer (map digit_char ds) de (-4) 15) \<and> length (format_buffer (map digit_char ds) de (-4) 15) \<le> 24"
    by (rule format_buffer_text) (use g number_chars_digits in simp_all)
  then show ?thesis using g D_fin by (simp add: dump_float_def to_chars_def Let_def d_isfinite_def)
qed (simp_all add: dump_float_def to_chars_def Let_def d_isfinite_def)

end
