(* ===== verification/JsonFloatText.thy ===== *)
theory JsonFloatText imports JsonFloat begin

text \<open>
  The text of a floating-point number, read back: the automaton of the lexer takes all of it and stops at
  what follows, \<open>strtod\<close> rounds the decimal it denotes, and that is the double that was printed.
\<close>

section \<open>Runs of digits\<close>

lemma scan_digits_append:
  "\<forall>c\<in>set ds. is_digit c \<Longrightarrow> (x = [] \<or> \<not> is_digit (hd x)) \<Longrightarrow> scan_digits (ds @ x) = (ds, x)"
proof (induction ds)
  case Nil
  then show ?case by (cases x) auto
qed simp

lemma dec_nat_append: "dec_nat (xs @ ys) n = dec_nat ys (dec_nat xs n)"
  by (induction xs arbitrary: n) simp_all

text \<open>What follows a value in the output of the serializer, or the end of the text.\<close>

definition value_stop :: "string \<Rightarrow> bool" where
  "value_stop x \<longleftrightarrow> x = [] \<or> hd x \<in> {CHR '','', CHR '']'', CHR ''}'', CHR 0x0A}"

lemma value_stop_zero: "value_stop x \<Longrightarrow> num_zero x = Inr (False, [], x)"
  by (auto simp: value_stop_def num_zero_def split: list.splits)

lemma value_stop_digit: "value_stop x \<Longrightarrow> x = [] \<or> \<not> is_digit (hd x)"
  by (auto simp: value_stop_def is_digit_def)

lemma is_digit_marks [simp]: "\<not> is_digit (CHR ''.'')" "\<not> is_digit (CHR ''e'')" "is_digit (CHR ''0'')"
  by (simp_all add: is_digit_def)

lemma digit_val_zero [simp]: "digit_val (CHR ''0'') = 0"
  by (simp add: digit_val_def)

section \<open>Decimals\<close>

text \<open>
  The text of a decimal with the integer part \<open>ip\<close>, the fraction \<open>fp\<close> and the exponent part \<open>ex\<close>, which is
  empty or \<open>e\<close>, a sign and digits that stand for the exponent \<open>e\<close>.
\<close>

definition exponent_text :: "string \<Rightarrow> int \<Rightarrow> bool" where
  "exponent_text ex e \<longleftrightarrow> ex = [] \<and> e = 0 \<or>
     (\<exists>s d ds. ex = CHR ''e'' # s # d # ds \<and> (\<forall>c\<in>set (d # ds). is_digit c) \<and>
       (s = CHR ''+'' \<and> e = int (dec_nat (d # ds) 0) \<or> s = CHR ''-'' \<and> e = - int (dec_nat (d # ds) 0)))"

definition fraction_text :: "string \<Rightarrow> string" where
  "fraction_text fp = (if fp = [] then [] else CHR ''.'' # fp)"

definition decimal_value :: "string \<Rightarrow> string \<Rightarrow> int \<Rightarrow> rat" where
  "decimal_value ip fp e = of_nat (dec_nat (ip @ fp) 0) * 10 powi (e - int (length fp))"

lemma num_exponent_text:
  assumes "s = CHR ''+'' \<or> s = CHR ''-''" "\<forall>c\<in>set (d # ds). is_digit c" "value_stop x"
  shows "num_exponent (s # d # ds @ x) = Inr (s # d # ds, x)"
proof -
  have "scan_digits (ds @ x) = (ds, x)" using assms by (intro scan_digits_append value_stop_digit) simp_all
  then show ?thesis using assms by (auto simp: num_exponent_def num_sign_def num_any2_def)
qed

lemma num_decimal2_text:
  assumes "\<forall>c\<in>set fp. is_digit c" "exponent_text ex e" "value_stop x"
  shows "num_decimal2 (fp @ ex @ x) = Inr (fp @ ex, x)"
proof -
  from assms(2) consider "ex = []" | s d ds where "ex = CHR ''e'' # s # d # ds" "\<forall>c\<in>set (d # ds). is_digit c"
    "s = CHR ''+'' \<or> s = CHR ''-''" unfolding exponent_text_def by blast
  then show ?thesis
  proof cases
    case 1
    then have "scan_digits (fp @ ex @ x) = (fp, x)" using assms by (simp add: scan_digits_append value_stop_digit)
    then show ?thesis using 1 assms(3) by (auto simp: num_decimal2_def value_stop_def split: list.splits)
  next
    case 2
    then have "scan_digits (fp @ ex @ x) = (fp, ex @ x)" using assms by (intro scan_digits_append) simp_all
    then show ?thesis using num_exponent_text [OF 2(3,2) assms(3)] 2(1) by (simp add: num_decimal2_def)
  qed
qed

lemma num_zero_text:
  assumes "\<forall>c\<in>set fp. is_digit c" "exponent_text ex e" "value_stop x" "fp \<noteq> [] \<or> ex \<noteq> []"
  shows "num_zero (fraction_text fp @ ex @ x) = Inr (True, fraction_text fp @ ex, x)"
proof (cases fp)
  case Nil
  with assms(2,4) obtain s d ds where ex: "ex = CHR ''e'' # s # d # ds" "\<forall>c\<in>set (d # ds). is_digit c"
    "s = CHR ''+'' \<or> s = CHR ''-''" unfolding exponent_text_def by blast
  show ?thesis
    using num_exponent_text [OF ex(3,2) assms(3)] ex(1) Nil by (simp add: num_zero_def fraction_text_def)
next
  case (Cons c cs)
  then have "num_decimal2 (cs @ ex @ x) = Inr (cs @ ex, x)" using assms by (intro num_decimal2_text) simp_all
  then show ?thesis using Cons assms(1) by (simp add: num_zero_def num_decimal1_def fraction_text_def)
qed

lemma part_stops:
  assumes "exponent_text ex e" "fp \<noteq> [] \<or> ex \<noteq> []"
  shows "fraction_text fp @ ex @ x \<noteq> [] \<and> \<not> is_digit (hd (fraction_text fp @ ex @ x))"
  using assms by (auto simp: exponent_text_def fraction_text_def)

lemma num_int_text:
  assumes "\<forall>a\<in>set (c # cs). is_digit a" "c = CHR ''0'' \<longrightarrow> cs = []" "\<forall>c\<in>set fp. is_digit c"
    "exponent_text ex e" "value_stop x" "fp \<noteq> [] \<or> ex \<noteq> []"
  shows "num_int c (cs @ fraction_text fp @ ex @ x) = Inr (True, c # cs @ fraction_text fp @ ex, x)"
proof (cases "c = CHR ''0''")
  case True
  then show ?thesis using assms num_zero_text by (simp add: num_int_def)
next
  case False
  have "scan_digits (cs @ fraction_text fp @ ex @ x) = (cs, fraction_text fp @ ex @ x)"
    using assms(1) part_stops [OF assms(4,6), of x] by (intro scan_digits_append) (simp, blast)
  then show ?thesis using False num_zero_text [OF assms(3-6)] by (simp add: num_int_def num_any1_def)
qed

lemma dec_exponent_text: "exponent_text ex e \<Longrightarrow> dec_exponent ex = e"
  by (auto simp: exponent_text_def dec_exponent_def)

lemma power_of_ten: "(if 0 \<le> k then of_int (m * 10 ^ nat k) else of_int m / of_int (10 ^ nat (- k))) = (of_int m * 10 powi k :: rat)"
  by (cases "0 \<le> k") (simp_all add: power_int_def field_simps)

lemma strtod_abs_text:
  assumes "\<forall>c\<in>set ip. is_digit c" "\<forall>c\<in>set fp. is_digit c" "exponent_text ex e" "fp \<noteq> [] \<or> ex \<noteq> []"
  shows "strtod_abs (ip @ fraction_text fp @ ex) neg =
    round_double neg (if neg then - decimal_value ip fp e else decimal_value ip fp e)"
proof -
  have ip: "scan_digits (ip @ fraction_text fp @ ex) = (ip, fraction_text fp @ ex)"
    using assms(1) part_stops [OF assms(3,4), of "[]"] by (intro scan_digits_append) simp_all
  have fp: "(case fraction_text fp @ ex of [] \<Rightarrow> ([], fraction_text fp @ ex)
      | c # cs \<Rightarrow> if c = CHR ''.'' then scan_digits cs else ([], fraction_text fp @ ex)) = (fp, ex)"
  proof (cases "fp = []")
    case True
    then show ?thesis using assms(3,4) by (auto simp: fraction_text_def exponent_text_def)
  next
    case False
    have "scan_digits (fp @ ex) = (fp, ex)"
      using assms(2,3) by (intro scan_digits_append) (auto simp: exponent_text_def)
    with False show ?thesis by (simp add: fraction_text_def)
  qed
  show ?thesis
    unfolding strtod_abs_def ip Let_def prod.case fp dec_exponent_text [OF assms(3)] power_of_ten decimal_value_def
    by simp
qed

text \<open>A decimal with a fraction or an exponent is one token, the correctly rounded double it denotes.\<close>

lemma scan_decimal:
  assumes "ip \<noteq> []" "\<forall>c\<in>set ip. is_digit c" "hd ip = CHR ''0'' \<longrightarrow> tl ip = []" "\<forall>c\<in>set fp. is_digit c"
    "exponent_text ex e" "fp \<noteq> [] \<or> ex \<noteq> []" "value_stop x"
  shows "scan ((ip @ fraction_text fp @ ex) @ x) = (T_float (round_double False (decimal_value ip fp e)), x)"
    "scan ((CHR ''-'' # ip @ fraction_text fp @ ex) @ x) = (T_float (round_double True (- decimal_value ip fp e)), x)"
proof -
  obtain c cs where c: "ip = c # cs" using assms(1) by (cases ip) auto
  then have d: "is_digit c" using assms(2) by simp
  then have ws: "\<not> is_ws c" "c \<notin> set ''[]{}:,tfn-'' \<union> {CHR 0x22}" by (auto simp: is_ws_def is_digit_def)
  have num: "num_int c (cs @ fraction_text fp @ ex @ x) = Inr (True, ip @ fraction_text fp @ ex, x)"
    using assms c num_int_text [of c cs fp ex e x] by simp
  note st = strtod_abs_text [OF assms(2,4,5,6)]
  have "strtod (ip @ fraction_text fp @ ex) = round_double False (decimal_value ip fp e)"
    using st [of False] ws c by (simp add: strtod_def)
  moreover have "strtod (CHR ''-'' # ip @ fraction_text fp @ ex) = round_double True (- decimal_value ip fp e)"
    using st [of True] by (simp add: strtod_def)
  ultimately show
    "scan ((ip @ fraction_text fp @ ex) @ x) = (T_float (round_double False (decimal_value ip fp e)), x)"
    "scan ((CHR ''-'' # ip @ fraction_text fp @ ex) @ x) = (T_float (round_double True (- decimal_value ip fp e)), x)"
    using num d ws c by (simp_all add: scan_def scan_token_def scan_number_def num_minus_def is_ws_def
        num_done_unsigned_def num_done_integer_def)
qed

section \<open>The text of a double\<close>

lemma digit_char_facts:
  assumes "0 \<le> d" "d \<le> 9"
  shows "is_digit (digit_char d)" "digit_val (digit_char d) = nat d" "digit_char d = CHR ''0'' \<longleftrightarrow> d = 0"
proof -
  have "ord (digit_char d) = nat (48 + d)" using assms by (simp add: digit_char_def)
  then have o: "ord (digit_char d) = 48 + nat d" using assms by (simp add: nat_add_distrib)
  show "is_digit (digit_char d)" "digit_val (digit_char d) = nat d"
    using assms by (simp_all add: is_digit_def digit_val_def o)
  have "digit_char d = CHR ''0'' \<longleftrightarrow> ord (digit_char d) = ord (CHR ''0'')" by (simp only: char_eq_iff_ord)
  then show "digit_char d = CHR ''0'' \<longleftrightarrow> d = 0" using assms by (simp add: o)
qed

lemma digits_are_digits: "decimal_digits ds \<Longrightarrow> \<forall>c\<in>set (map digit_char ds). is_digit c"
  by (induction ds) (simp_all add: digit_char_facts)

lemma dec_nat_digits: "decimal_digits ds \<Longrightarrow> int (dec_nat (map digit_char ds) n) = foldl (\<lambda>n d. 10 * n + d) (int n) ds"
  by (induction ds arbitrary: n) (simp_all add: digit_char_facts algebra_simps)

lemma dec_nat_digits_num: "decimal_digits ds \<Longrightarrow> (of_nat (dec_nat (map digit_char ds) 0) :: rat) = of_int (digits_num ds)"
  using arg_cong [OF dec_nat_digits [of ds 0], of "of_int :: int \<Rightarrow> rat"] by (simp add: digits_num_def)

lemma dec_nat_zeros: "dec_nat (replicate m (CHR ''0'')) n = n * 10 ^ m"
  by (induction m arbitrary: n) simp_all

lemma append_exponent_exponent:
  assumes "\<bar>e\<bar> < 1000"
  shows "exponent_text (CHR ''e'' # append_exponent e) e"
proof -
  define k where "k = \<bar>e\<bar>"
  define sg where "sg = (if e < 0 then CHR ''-'' else CHR ''+'')"
  have k: "0 \<le> k" "k < 1000" using assms by (simp_all add: k_def)
  define ds where "ds = (if k < 10 then [0, k] else if k < 100 then [k div 10, k mod 10]
      else [k div 100, k mod 100 div 10, k mod 100 mod 10])"
  have dec: "decimal_digits ds"
    using digit_div [of k 100] digit_div [of "k mod 100" 10] digit_div [of k 10] k by (auto simp: ds_def)
  have num: "digits_num ds = k" by (auto simp: ds_def digits_num_def)
  have "ds \<noteq> []" by (simp add: ds_def)
  then obtain d ds' where ds: "ds = d # ds'" by (cases ds) auto
  have zero: "digit_char 0 = CHR ''0''" by code_simp
  have "append_exponent e = sg # map digit_char ds"
    unfolding append_exponent_def Let_def k_def [symmetric] sg_def ds_def by (simp add: zero)
  moreover have "int (dec_nat (map digit_char ds) 0) = k" using dec_nat_digits [OF dec, of 0] num by (simp add: digits_num_def)
  ultimately show ?thesis
    using digits_are_digits [OF dec] unfolding exponent_text_def ds
    by (intro disjI2 exI [of _ sg] exI [of _ "digit_char d"] exI [of _ "map digit_char ds'"])
      (auto simp: sg_def k_def split: if_splits)
qed

text \<open>Each of the five forms that \<open>format_buffer\<close> chooses from denotes the number the digits and the exponent stand for.\<close>

definition decimal_text :: "string \<Rightarrow> rat \<Rightarrow> bool" where
  "decimal_text t q \<longleftrightarrow> (\<exists>ip fp ex e. t = ip @ fraction_text fp @ ex \<and> ip \<noteq> [] \<and> (\<forall>c\<in>set ip. is_digit c) \<and>
     (hd ip = CHR ''0'' \<longrightarrow> tl ip = []) \<and> (\<forall>c\<in>set fp. is_digit c) \<and> exponent_text ex e \<and> (fp \<noteq> [] \<or> ex \<noteq> []) \<and>
     decimal_value ip fp e = q)"

lemma decimal_textI:
  "t = ip @ fraction_text fp @ ex \<Longrightarrow> ip \<noteq> [] \<Longrightarrow> \<forall>c\<in>set ip. is_digit c \<Longrightarrow> hd ip = CHR ''0'' \<longrightarrow> tl ip = [] \<Longrightarrow>
   \<forall>c\<in>set fp. is_digit c \<Longrightarrow> exponent_text ex e \<Longrightarrow> fp \<noteq> [] \<or> ex \<noteq> [] \<Longrightarrow> decimal_value ip fp e = q \<Longrightarrow> decimal_text t q"
  unfolding decimal_text_def by blast

lemma exponent_text_none [simp]: "exponent_text [] e \<longleftrightarrow> e = 0"
  by (auto simp: exponent_text_def)

lemma format_buffer_decimal:
  assumes "ds \<noteq> []" "decimal_digits ds" "1 \<le> hd ds" "length ds \<le> 17" "-341 \<le> de" "de \<le> 310"
  shows "decimal_text (format_buffer (map digit_char ds) de (-4) 15) (digits_value ds de)"
proof -
  define buf where "buf = map digit_char ds"
  define k where "k = int (length buf)"
  define n where "n = k + de"
  have k: "1 \<le> k" "k \<le> 17" "nat k = length buf" using assms(1,4) by (simp_all add: k_def buf_def Suc_le_eq)
  have buf: "buf \<noteq> []" "\<forall>c\<in>set buf. is_digit c" using assms(1) digits_are_digits [OF assms(2)] by (simp_all add: buf_def)
  have hd: "hd buf \<noteq> CHR ''0''"
    using assms(1-3) by (cases ds) (auto simp: buf_def digit_char_facts)
  have num: "(of_nat (dec_nat buf 0) :: rat) = of_int (digits_num ds)"
    unfolding buf_def by (rule dec_nat_digits_num [OF assms(2)])
  have ex: "exponent_text (CHR ''e'' # append_exponent (n - 1)) (n - 1)"
    by (rule append_exponent_exponent) (use k assms(5,6) n_def in linarith)
  have parts: "\<forall>c\<in>set (take m buf). is_digit c" "\<forall>c\<in>set (drop m buf). is_digit c" for m
    using buf(2) by (auto dest: in_set_takeD in_set_dropD)
  note f = format_buffer_def Let_def buf_def [symmetric] k_def [symmetric] n_def [symmetric]
  consider "k \<le> n \<and> n \<le> 15" | "\<not> k \<le> n" "0 < n \<and> n \<le> 15" | "-4 < n \<and> n \<le> 0"
    | "\<not> (k \<le> n \<and> n \<le> 15)" "\<not> (0 < n \<and> n \<le> 15)" "\<not> (-4 < n \<and> n \<le> 0)" by linarith
  then show ?thesis
  proof cases
    case 1
    have "int (nat (n - k)) = de" using 1 by (simp add: n_def)
    then have de: "nat de = nat (n - k)" "0 \<le> de" using 1 by (simp_all add: n_def)
    have t: "format_buffer buf de (-4) 15 = (buf @ replicate (nat (n - k)) (CHR ''0'')) @ fraction_text ''0'' @ []"
      unfolding f using 1 by (simp add: fraction_text_def)
    have "decimal_value (buf @ replicate (nat (n - k)) (CHR ''0'')) ''0'' 0 = digits_value ds de"
      using num de by (simp add: decimal_value_def dec_nat_append dec_nat_zeros digits_value_def power_int_def)
    then show ?thesis unfolding buf_def [symmetric]
      by (intro decimal_textI [OF t]) (use buf hd in auto)
  next
    case 2
    have t: "format_buffer buf de (-4) 15 = take (nat n) buf @ fraction_text (drop (nat n) buf) @ []"
      unfolding f using 2 k by (auto simp: fraction_text_def)
    have "int (length (drop (nat n) buf)) = - de" using 2 k by (simp add: n_def k_def)
    then have "decimal_value (take (nat n) buf) (drop (nat n) buf) 0 = digits_value ds de"
      using num by (simp add: decimal_value_def digits_value_def)
    then show ?thesis unfolding buf_def [symmetric]
      by (intro decimal_textI [OF t]) (use buf hd 2 k parts in \<open>auto simp: hd_take\<close>)
  next
    case 3
    have t: "format_buffer buf de (-4) 15 = ''0'' @ fraction_text (replicate (nat (- n)) (CHR ''0'') @ buf) @ []"
      unfolding f using 3 k buf(1) by (auto simp: fraction_text_def)
    have "int (length (replicate (nat (- n)) (CHR ''0'') @ buf)) = - de" using 3 by (simp add: n_def k_def)
    then have "decimal_value ''0'' (replicate (nat (- n)) (CHR ''0'') @ buf) 0 = digits_value ds de"
      using num by (simp add: decimal_value_def digits_value_def dec_nat_append dec_nat_zeros)
    then show ?thesis unfolding buf_def [symmetric]
      by (intro decimal_textI [OF t]) (use buf in auto)
  next
    case 4
    have form: "format_buffer buf de (-4) 15 = (if k = 1 then buf @ ''e'' @ append_exponent (n - 1)
        else take 1 buf @ ''.'' @ drop 1 buf @ ''e'' @ append_exponent (n - 1))"
      unfolding f by (simp only: 4 if_False)
    show ?thesis
    proof (cases "k = 1")
      case True
      have t: "format_buffer buf de (-4) 15 = buf @ fraction_text [] @ (CHR ''e'' # append_exponent (n - 1))"
        unfolding form using True by (simp add: fraction_text_def)
      have "decimal_value buf [] (n - 1) = digits_value ds de"
        using num True by (simp add: decimal_value_def digits_value_def n_def)
      moreover have "tl buf = []" using True by (cases buf) (simp_all add: k_def)
      ultimately show ?thesis unfolding buf_def [symmetric]
        by (intro decimal_textI [OF t _ _ _ _ ex]) (use buf in auto)
    next
      case False
      then have "drop 1 buf \<noteq> []" using k by (simp add: k_def)
      then have t: "format_buffer buf de (-4) 15 = take 1 buf @ fraction_text (drop 1 buf) @ (CHR ''e'' # append_exponent (n - 1))"
        unfolding form using False by (simp add: fraction_text_def)
      have "n - 1 - int (length (drop 1 buf)) = de" using k by (simp add: n_def k_def of_nat_diff)
      then have "decimal_value (take 1 buf) (drop 1 buf) (n - 1) = digits_value ds de"
        unfolding decimal_value_def digits_value_def using num by simp
      then show ?thesis unfolding buf_def [symmetric]
        by (intro decimal_textI [OF t _ _ _ _ ex]) (use buf hd parts in \<open>auto simp: hd_take\<close>)
    qed
  qed
qed

text \<open>A printed double is read back as itself, zeros with their sign.\<close>

lemma scan_dump_float:
  assumes "d_ok d" "d_isfinite d" "value_stop x"
  shows "scan (dump_float d @ x) = (T_float d, x)"
proof -
  have scanned: "scan ((if neg then CHR ''-'' # t else t) @ x) = (T_float (round_double neg (if neg then - q else q)), x)"
    if "decimal_text t q" for t q neg
    using that scan_decimal [OF _ _ _ _ _ _ assms(3)] unfolding decimal_text_def by (cases neg) auto
  show ?thesis
  proof (cases d)
    case (D_zero s)
    have "decimal_text ''0.0'' 0"
      by (rule decimal_textI [of _ "''0''" "''0''" "[]" 0]) (simp_all add: fraction_text_def decimal_value_def)
    from scanned [OF this, of s] show ?thesis
      by (cases s) (simp_all add: D_zero dump_float_def to_chars_def d_sign_def)
  next
    case (D_fin r)
    obtain ds de where g: "grisu2 \<bar>r\<bar> = (ds, de)" "ds \<noteq> []" "decimal_digits ds" "1 \<le> hd ds" "length ds \<le> 17"
      "-341 \<le> de" "de \<le> 310" "round_double False (digits_value ds de) = D_fin \<bar>r\<bar>"
      using grisu2_ok [of r False] assms D_fin by blast
    have r: "r \<noteq> 0" using assms(1) D_fin by (auto simp: d_ok_def)
    have pos: "0 < digits_value ds de"
    proof -
      have "0 \<le> digits_value ds de" by (simp add: digits_value_def flip: dec_nat_digits_num [OF g(3)])
      moreover have "digits_value ds de \<noteq> 0" using g(8) by auto
      ultimately show ?thesis by simp
    qed
    have "round_double (r < 0) (if r < 0 then - digits_value ds de else digits_value ds de) = D_fin r"
    proof (cases "r < 0")
      case True
      then show ?thesis using round_double_neg [OF pos g(8)] by simp
    next
      case False
      have "round_double False (digits_value ds de) = D_fin r" using g(8) False by simp
      then show ?thesis using False by simp
    qed
    with scanned [OF format_buffer_decimal [OF g(2-7)], of "r < 0"] show ?thesis
      by (simp add: D_fin dump_float_def to_chars_def d_sign_def g(1) split: if_splits)
  qed (use assms(2) in \<open>simp_all add: d_isfinite_def\<close>)
qed

end
