(* ===== verification/JsonRoundtrip.thy ===== *)
theory JsonRoundtrip imports JsonFloatText begin

text \<open>
  Json text and back: integers are printed as their decimal digits, and whatever the serializer prints
  for a value, compact or indented, the parser reads back as that value.
\<close>

section \<open>Integers\<close>

fun dec_digits :: "nat \<Rightarrow> string" where
  "dec_digits n = (if n < 10 then [char_of (48 + n)] else dec_digits (n div 10) @ [char_of (48 + n mod 10)])"

declare dec_digits.simps [simp del]

definition dec_string :: "int \<Rightarrow> string" where
  "dec_string x = (if x < 0 then CHR ''-'' # dec_digits (nat (- x)) else dec_digits (nat x))"

lemma dec_digits_small: "n < 10 \<Longrightarrow> dec_digits n = [char_of (48 + n)]"
  by (simp add: dec_digits.simps)

lemma dec_digits_step: "10 \<le> n \<Longrightarrow> dec_digits n = dec_digits (n div 10) @ [char_of (48 + n mod 10)]"
  by (subst dec_digits.simps) simp

lemma dec_digits_nonempty [simp]: "dec_digits n \<noteq> []"
  by (subst dec_digits.simps) simp

lemma dec_digits_step2: "100 \<le> n \<Longrightarrow>
   dec_digits n = dec_digits (n div 100) @ [char_of (48 + n mod 100 div 10), char_of (48 + n mod 10)]"
proof -
  assume n: "100 \<le> n"
  have "n mod 100 div 10 = n div 10 mod 10"
    using mod_mult2_eq [of n 10 10] by simp
  with n dec_digits_step [of n] dec_digits_step [of "n div 10"] show ?thesis
    by (simp add: div_mult2_eq [symmetric])
qed

lemma count_digits_length: "count_digits n k + 1 = k + length (dec_digits n)"
proof (induction n k rule: count_digits.induct)
  case (1 x n)
  consider "x < 10" | "10 \<le> x" "x < 100" | "100 \<le> x" "x < 1000" | "1000 \<le> x" "x < 10000" | "10000 \<le> x"
    by linarith
  then show ?case
  proof cases
    case 5
    have "dec_digits x = dec_digits (x div 100 div 100) @ [char_of (48 + (x div 100) mod 100 div 10), char_of (48 + (x div 100) mod 10)] @ [char_of (48 + x mod 100 div 10), char_of (48 + x mod 10)]"
      using 5 dec_digits_step2 [of x] dec_digits_step2 [of "x div 100"] by simp
    then show ?thesis using 5 1 by (simp add: count_digits.simps [of x] div_mult2_eq [symmetric])
  qed (simp_all add: count_digits.simps [of x] dec_digits_small dec_digits_step)
qed

lemma fill_digits_eq:
  "length (dec_digits v) \<le> p \<Longrightarrow> p \<le> length buf \<Longrightarrow>
   fill_digits v buf p = take (p - length (dec_digits v)) buf @ dec_digits v @ drop p buf"
proof (induction v buf p rule: fill_digits.induct)
  case (1 v buf p)
  show ?case
  proof (cases "100 \<le> v")
    case True
    let ?b = "buf[p - 1 := char_of (48 + v mod 10), p - 2 := char_of (48 + v mod 100 div 10)]"
    have d: "dec_digits v = dec_digits (v div 100) @ [char_of (48 + v mod 100 div 10), char_of (48 + v mod 10)]"
      by (rule dec_digits_step2 [OF True])
    have "fill_digits v buf p = fill_digits (v div 100) ?b (p - 2)"
      using True by (simp add: fill_digits.simps [of v] digits_to_99_def mod_mod_cancel)
    also have "\<dots> = take (p - 2 - length (dec_digits (v div 100))) ?b @ dec_digits (v div 100) @ drop (p - 2) ?b"
      using 1 True d by (simp add: digits_to_99_def mod_mod_cancel)
    also have "?b = take (p - 2) buf @ [char_of (48 + v mod 100 div 10), char_of (48 + v mod 10)] @ drop p buf"
      using 1 d by (intro update_two) simp_all
    finally show ?thesis using 1 d by simp
  next
    case False
    have "buf[p - 1 := c] = take (p - 1) buf @ [c] @ drop p buf" if "1 \<le> p" for c
      using that 1 by (simp add: upd_conv_take_nth_drop)
    moreover have "buf[p - 1 := c, p - 2 := d] = take (p - 2) buf @ [d, c] @ drop p buf" if "2 \<le> p" for c d
      using that 1 by (intro update_two) simp_all
    ultimately show ?thesis
      using False 1 by (cases "v < 10") (simp_all add: fill_digits.simps [of v] digits_to_99_def
          dec_digits_small dec_digits_step numeral_2_eq_2)
  qed
qed

lemma length_dec_digits_le: "n < 10 ^ k \<Longrightarrow> 0 < k \<Longrightarrow> length (dec_digits n) \<le> k"
proof (induction k arbitrary: n)
  case 0
  then show ?case by simp
next
  case (Suc k)
  show ?case
  proof (cases "n < 10")
    case True
    then show ?thesis by (simp add: dec_digits_small)
  next
    case False
    moreover from this Suc.prems have "0 < k" by (cases k) auto
    moreover have "n div 10 < 10 ^ k" using Suc.prems by (simp add: div_less_iff_less_mult)
    ultimately show ?thesis using Suc.IH [of "n div 10"] by (simp add: dec_digits_step)
  qed
qed

lemma char_of_48 [simp]: "char_of (48 :: nat) = CHR ''0''"
  by code_simp

lemma dump_integer_dec:
  assumes "length nb = 64" "-9223372036854775808 \<le> x" "x \<le> 18446744073709551615"
  shows "dump_integer nb x = dec_string x"
proof -
  have c: "count_digits n 1 = length (dec_digits n)" for n
    using count_digits_length [of n 1] by simp
  have l: "length (dec_digits (nat (- x))) \<le> 20" "length (dec_digits (nat x)) \<le> 20"
    using assms by (auto intro!: length_dec_digits_le)
  consider "x = 0" | "x < 0" | "0 < x" by linarith
  then show ?thesis
  proof cases
    case 1
    then show ?thesis by (simp add: dump_integer_def dec_string_def dec_digits_small)
  next
    case 2
    have r: "remove_sign x = nat (- x)" using 2 by (simp add: remove_sign_def)
    obtain b bs where nb: "nb = b # bs" using assms(1) by (cases nb) auto
    show ?thesis
      using 2 l assms(1) nb
      by (simp add: dump_integer_def r c c [simplified] Let_def dec_string_def fill_digits_eq)
  next
    case 3
    then show ?thesis
      using l assms(1) by (simp add: dump_integer_def c c [simplified] Let_def dec_string_def fill_digits_eq)
  qed
qed

section \<open>Numbers back from text\<close>

lemma ord_char_of_digit: "d < 10 \<Longrightarrow> ord (char_of (48 + d)) = 48 + d"
  by simp

lemma dec_digits_digits: "\<forall>c\<in>set (dec_digits n). is_digit c"
proof (induction n rule: dec_digits.induct)
  case (1 n)
  show ?case
  proof (cases "n < 10")
    case True
    then show ?thesis by (simp add: dec_digits_small is_digit_def)
  next
    case False
    have "n mod 10 < 10" by simp
    with False 1 show ?thesis by (simp add: dec_digits_step is_digit_def)
  qed
qed

lemma dec_nat_dec_digits: "dec_nat (dec_digits n) 0 = n"
proof (induction n rule: dec_digits.induct)
  case (1 n)
  show ?case
  proof (cases "n < 10")
    case True
    then show ?thesis by (simp add: dec_digits_small digit_val_def)
  next
    case False
    have "n mod 10 < 10" by simp
    with False 1 show ?thesis by (simp add: dec_digits_step digit_val_def dec_nat_append)
  qed
qed

text \<open>The head of the digits is 0 only for zero itself, as the grammar of numbers asks.\<close>

lemma hd_dec_digits: "0 < n \<Longrightarrow> hd (dec_digits n) \<noteq> CHR ''0''"
proof (induction n rule: dec_digits.induct)
  case (1 n)
  show ?case
  proof (cases "n < 10")
    case True
    have "ord (char_of (48 + n)) = 48 + n" using True by simp
    with 1 have "char_of (48 + n) \<noteq> CHR ''0''" by (auto simp: char_eq_iff_ord)
    with True show ?thesis by (simp add: dec_digits_small)
  next
    case False
    with 1 show ?thesis by (simp add: dec_digits_step)
  qed
qed

lemma num_int_dec:
  assumes "value_stop x" "dec_digits n = c # cs"
  shows "num_int c (cs @ x) = Inr (False, dec_digits n, x)"
proof (cases "n = 0")
  case True
  then show ?thesis using assms by (auto simp: dec_digits_small num_int_def value_stop_zero)
next
  case False
  then have "c \<noteq> CHR ''0''" using hd_dec_digits [of n] assms(2) by simp
  moreover have "\<forall>c\<in>set cs. is_digit c" using dec_digits_digits [of n] assms(2) by simp
  ultimately show ?thesis
    using assms scan_digits_append [OF _ value_stop_digit]
    by (simp add: num_int_def num_any1_def value_stop_zero)
qed

lemma scan_dec_nat:
  assumes "value_stop x" "int n \<le> 18446744073709551615"
  shows "scan (dec_digits n @ x) = (T_unsigned (int n), x)"
proof -
  obtain c cs where d: "dec_digits n = c # cs" by (cases "dec_digits n") auto
  then have c: "is_digit c" using dec_digits_digits [of n] by simp
  then have "\<not> is_ws c" "c \<notin> set ''[]{}:,tfn-'' \<union> {CHR 0x22}"
    by (auto simp: is_ws_def is_digit_def)
  moreover have "dec_nat cs (digit_val c) = n"
    using dec_nat_dec_digits [of n] d by simp
  ultimately show ?thesis
    using assms d c by (simp add: scan_def scan_token_def scan_number_def num_int_dec num_done_unsigned_def
        dec_nat_dec_digits)
qed

lemma scan_dec_neg:
  assumes "value_stop x" "-9223372036854775808 \<le> i" "i < 0"
  shows "scan (dec_string i @ x) = (T_integer i, x)"
proof -
  obtain c cs where d: "dec_digits (nat (- i)) = c # cs" by (cases "dec_digits (nat (- i))") auto
  then have c: "is_digit c" using dec_digits_digits [of "nat (- i)"] by simp
  moreover have "dec_nat cs (digit_val c) = nat (- i)"
    using dec_nat_dec_digits [of "nat (- i)"] d by simp
  ultimately show ?thesis
    using assms d
    by (simp add: scan_def is_ws_def scan_token_def scan_number_def dec_string_def num_minus_def
        num_int_dec [OF assms(1) d] num_done_integer_def dec_nat_dec_digits)
qed

section \<open>Values\<close>

text \<open>A value whose strings are well-formed UTF-8.\<close>

fun json_utf8 :: "json \<Rightarrow> bool" where
  "json_utf8 (J_object m) \<longleftrightarrow> (\<forall>kv\<in>set m. utf8_valid (fst kv) \<and> json_utf8 (snd kv))"
| "json_utf8 (J_array xs) \<longleftrightarrow> (\<forall>x\<in>set xs. json_utf8 x)"
| "json_utf8 (J_string s) \<longleftrightarrow> utf8_valid s"
| "json_utf8 _ \<longleftrightarrow> True"

text \<open>
  What comes back: the parser reads every integer without a sign as \<open>number_unsigned\<close>, and infinities and
  NaN are printed as null.
\<close>

fun json_norm :: "json \<Rightarrow> json" where
  "json_norm (J_object m) = J_object (map (\<lambda>kv. (fst kv, json_norm (snd kv))) m)"
| "json_norm (J_array xs) = J_array (map json_norm xs)"
| "json_norm (J_integer i) = (if 0 \<le> i then J_unsigned i else J_integer i)"
| "json_norm (J_float d) = (if d_isfinite d then J_float d else J_null)"
| "json_norm j = j"

lemma skip_ws_append [simp]: "\<forall>c\<in>set w. is_ws c \<Longrightarrow> skip_whitespace (w @ s) = skip_whitespace s"
  by (induction w) auto

lemma scan_ws_append [simp]: "\<forall>c\<in>set w. is_ws c \<Longrightarrow> scan (w @ s) = scan s"
  by (simp add: scan_def)

lemma newline_ws [simp]: "scan (newline p @ s) = scan s" "scan (indent_to p n @ s) = scan s"
  by (auto simp: newline_def indent_to_def is_ws_def)

lemma scan_punctuation [simp]:
  "scan (CHR ''['' # s) = (T_begin_array, s)"
  "scan (CHR '']'' # s) = (T_end_array, s)"
  "scan (CHR ''{'' # s) = (T_begin_object, s)"
  "scan (CHR ''}'' # s) = (T_end_object, s)"
  "scan (CHR '':'' # s) = (T_name_separator, s)"
  "scan (CHR '','' # s) = (T_value_separator, s)"
  by (simp_all add: scan_def scan_token_def is_ws_def)

lemma scan_space [simp]: "scan (CHR '' '' # s) = scan s"
  by (simp add: scan_def is_ws_def)

lemma scan_quoted:
  "dump_escaped s False = Inr t \<Longrightarrow> scan (CHR 0x22 # t @ CHR 0x22 # x) = (T_string s, x)"
  by (simp add: scan_def scan_token_def is_ws_def dump_escaped_ref scan_string_escape_ref)

lemma scan_null: "scan (''null'' @ s) = (T_null, s)"
  by (simp add: scan_def scan_token_def is_ws_def)

lemma scan_bool: "scan ((if b then ''true'' else ''false'') @ s) = (if b then T_true else T_false, s)"
  by (simp add: scan_def scan_token_def is_ws_def)

lemma value_stop_simps [simp]:
  "value_stop (CHR '','' # s)" "value_stop (CHR '']'' # s)" "value_stop (CHR ''}'' # s)" "value_stop []"
  "value_stop (newline p @ indent_to p n @ CHR '']'' # s)"
  "value_stop (newline p @ indent_to p n @ CHR ''}'' # s)"
  by (auto simp: value_stop_def newline_def indent_to_def)

lemma sm_assign_last:
  "sm_inv (m @ [(k, w)]) \<Longrightarrow> sm_assign k v m = m @ [(k, v)]"
  by (induction m) auto

text \<open>
  \<open>reads t v\<close>: wherever the parser starts a value on the text \<open>t\<close>, it completes the value \<open>v\<close> there.
\<close>

definition reads :: "string \<Rightarrow> json \<Rightarrow> bool" where
  "reads t v \<longleftrightarrow> (\<forall>x fs. value_stop x \<longrightarrow> (\<exists>tok r. scan (t @ x) = (tok, r) \<and>
     tok \<noteq> T_end_array \<and> sax_value tok r fs = sax_state v x fs))"

lemma readsD: "reads t v \<Longrightarrow> value_stop x \<Longrightarrow>
  \<exists>tok r. scan (t @ x) = (tok, r) \<and> tok \<noteq> T_end_array \<and> sax_value tok r fs = sax_state v x fs"
  by (simp add: reads_def)

lemma reads_token: "(\<And>x. value_stop x \<Longrightarrow> scan (t @ x) = (tok, x)) \<Longrightarrow> tok \<noteq> T_end_array \<Longrightarrow>
  (\<And>x fs. sax_value tok x fs = sax_state v x fs) \<Longrightarrow> reads t v"
  by (simp add: reads_def)

lemma reads_elements:
  assumes "\<And>x t. x \<in> set xs \<Longrightarrow> dump_value p False step ind x = Inr t \<Longrightarrow> reads t (json_norm x)"
    "dump_elements p False step ind xs = Inr body" "xs \<noteq> []"
    "value_stop (nl @ CHR '']'' # x)" "\<forall>c\<in>set nl. is_ws c"
  shows "\<exists>tok r. scan (body @ nl @ CHR '']'' # x) = (tok, r) \<and> tok \<noteq> T_end_array \<and>
     sax_value tok r (F_array acc # fs) = sax_state (J_array (acc @ map json_norm xs)) x fs"
  using assms
proof (induction xs arbitrary: acc body)
  case (Cons y ys)
  from Cons.prems(2) obtain t where t: "dump_value p False step ind y = Inr t"
    by (auto split: if_splits)
  then have rt: "reads t (json_norm y)" using Cons.prems(1) by simp
  show ?case
  proof (cases "ys = []")
    case True
    with Cons.prems t have "body = indent_to p ind @ t" by simp
    moreover obtain tok r where "scan (t @ nl @ CHR '']'' # x) = (tok, r)" "tok \<noteq> T_end_array"
      "sax_value tok r (F_array acc # fs) = sax_state (json_norm y) (nl @ CHR '']'' # x) (F_array acc # fs)"
      using readsD [OF rt Cons.prems(4)] by blast
    ultimately show ?thesis
      using True Cons.prems(5) by (simp add: sax_state.simps)
  next
    case False
    with Cons.prems(2) t obtain ts where ts: "dump_elements p False step ind ys = Inr ts"
      "body = indent_to p ind @ t @ '','' @ newline p @ ts"
      by auto
    let ?rest = "newline p @ ts @ nl @ CHR '']'' # x"
    obtain tok r where 1: "scan (t @ CHR '','' # ?rest) = (tok, r)" "tok \<noteq> T_end_array"
      "sax_value tok r (F_array acc # fs) = sax_state (json_norm y) (CHR '','' # ?rest) (F_array acc # fs)"
      using readsD [OF rt, of "CHR '','' # ?rest" "F_array acc # fs"] by auto
    obtain tok' r' where 2: "scan (ts @ nl @ CHR '']'' # x) = (tok', r')"
      "sax_value tok' r' (F_array (acc @ [json_norm y]) # fs) =
        sax_state (J_array ((acc @ [json_norm y]) @ map json_norm ys)) x fs"
      using Cons.IH [OF _ ts(1) False Cons.prems(4,5), of "acc @ [json_norm y]"] Cons.prems(1) by auto
    from 1 2 ts show ?thesis by (simp add: sax_state.simps)
  qed
qed simp

lemma reads_members:
  assumes "\<And>k x t. (k, x) \<in> set m \<Longrightarrow> dump_value p False step ind x = Inr t \<Longrightarrow> reads t (json_norm x)"
    "dump_members p False step ind m = Inr body" "m \<noteq> []"
    "value_stop (nl @ CHR ''}'' # x)" "\<forall>c\<in>set nl. is_ws c"
    "sm_inv (acc @ map (\<lambda>kv. (fst kv, json_norm (snd kv))) m)"
  shows "\<exists>k r1 tok r. scan (body @ nl @ CHR ''}'' # x) = (T_string k, r1) \<and>
     scan_member k r1 = Some (tok, r) \<and>
     sax_value tok r (F_object acc k # fs) =
       sax_state (J_object (acc @ map (\<lambda>kv. (fst kv, json_norm (snd kv))) m)) x fs"
  using assms
proof (induction m arbitrary: acc body)
  case (Cons kv m)
  obtain k y where kv: "kv = (k, y)" by force
  from Cons.prems(2) kv obtain kt t where kt: "dump_escaped k False = Inr kt"
    and t: "dump_value p False step ind y = Inr t"
    by (auto split: if_splits)
  then have rt: "reads t (json_norm y)" using Cons.prems(1) kv by auto
  let ?sp = "if p then '' '' else []"
  have head: "scan (indent_to p ind @ CHR 0x22 # kt @ CHR 0x22 # CHR '':'' # ?sp @ z) =
      (T_string k, CHR '':'' # ?sp @ z)" for z
    using scan_quoted [OF kt] by (simp)
  have mem: "scan_member k (CHR '':'' # ?sp @ z) = Some (scan z)" for z
    by (simp add: scan_member_def)
  have last: "sm_assign k (json_norm y) acc = acc @ [(k, json_norm y)]"
  proof (rule sm_assign_last)
    show "sm_inv (acc @ [(k, json_norm y)])"
      using Cons.prems(6) kv by (simp add: sm_inv_def sorted_wrt_append)
  qed
  show ?case
  proof (cases "m = []")
    case True
    with Cons.prems(2) kv kt t have b: "body = indent_to p ind @ CHR 0x22 # kt @ CHR 0x22 # CHR '':'' # ?sp @ t"
      by simp
    obtain tok r where "scan (t @ nl @ CHR ''}'' # x) = (tok, r)"
      "sax_value tok r (F_object acc k # fs) = sax_state (json_norm y) (nl @ CHR ''}'' # x) (F_object acc k # fs)"
      using readsD [OF rt Cons.prems(4)] by blast
    with b head [of "t @ nl @ CHR ''}'' # x"] mem [of "t @ nl @ CHR ''}'' # x"] True Cons.prems(5) kv last
    show ?thesis by (auto simp: sax_state.simps)
  next
    case False
    with Cons.prems(2) kv kt t obtain ts where ts: "dump_members p False step ind m = Inr ts"
      "body = indent_to p ind @ CHR 0x22 # kt @ CHR 0x22 # CHR '':'' # ?sp @ t @ '','' @ newline p @ ts"
      by (auto simp: Let_def)
    let ?rest = "newline p @ ts @ nl @ CHR ''}'' # x"
    obtain tok r where 1: "scan (t @ CHR '','' # ?rest) = (tok, r)"
      "sax_value tok r (F_object acc k # fs) = sax_state (json_norm y) (CHR '','' # ?rest) (F_object acc k # fs)"
      using readsD [OF rt, of "CHR '','' # ?rest" "F_object acc k # fs"] by auto
    have mem': "reads t' (json_norm x')" if "(k', x') \<in> set m" "dump_value p False step ind x' = Inr t'" for k' x' t'
      using Cons.prems(1) [of k' x' t'] that by simp
    have "sm_inv ((acc @ [(k, json_norm y)]) @ map (\<lambda>kv. (fst kv, json_norm (snd kv))) m)"
      using Cons.prems(6) kv by simp
    then have "\<exists>k' r1 tok' r'. scan (ts @ nl @ CHR ''}'' # x) = (T_string k', r1) \<and>
      scan_member k' r1 = Some (tok', r') \<and>
      sax_value tok' r' (F_object (acc @ [(k, json_norm y)]) k' # fs) =
        sax_state (J_object ((acc @ [(k, json_norm y)]) @ map (\<lambda>kv. (fst kv, json_norm (snd kv))) m)) x fs"
      by (intro Cons.IH ts(1) False Cons.prems(4,5) mem')
    then obtain k' r1 tok' r' where 2: "scan (ts @ nl @ CHR ''}'' # x) = (T_string k', r1)"
      "scan_member k' r1 = Some (tok', r')"
      "sax_value tok' r' (F_object (acc @ [(k, json_norm y)]) k' # fs) =
        sax_state (J_object ((acc @ [(k, json_norm y)]) @ map (\<lambda>kv. (fst kv, json_norm (snd kv))) m)) x fs"
      by blast
    with 1 ts(2) head [of "t @ CHR '','' # ?rest"] mem [of "t @ CHR '','' # ?rest"] kv last
    show ?thesis by (auto simp: sax_state.simps)
  qed
qed simp

lemma map_norm_inv: "sm_inv (map (\<lambda>kv. (fst kv, json_norm (snd kv))) m) = sm_inv m"
  by (simp add: sm_inv_def comp_def)

lemma indent_ws: "\<forall>c\<in>set (newline p @ indent_to p n). is_ws c"
  by (auto simp: newline_def indent_to_def is_ws_def)

lemma reads_dump:
  "json_ok j \<Longrightarrow> json_utf8 j \<Longrightarrow> dump_value p False step cur j = Inr t \<Longrightarrow> reads t (json_norm j)"
proof (induction j arbitrary: cur t)
  case (J_object m)
  show ?case
  proof (cases "m = []")
    case True
    with J_object.prems(3) have "t = ''{}''" by simp
    with True show ?thesis by (simp add: reads_def sax_value.simps)
  next
    case False
    with J_object.prems(3) obtain body where b: "dump_members p False step (cur + step) m = Inr body"
      "t = ''{'' @ (newline p @ body @ (newline p @ indent_to p cur) @ ''}'')"
      by auto
    have mem: "reads t' (json_norm x)"
      if "(k, x) \<in> set m" "dump_value p False step (cur + step) x = Inr t'" for k x t'
    proof (rule J_object.IH [OF that(1) _ _ _ that(2)])
      show "x \<in> Basic_BNFs.snds (k, x)" by simp
      show "json_ok x" "json_utf8 x" using J_object.prems(1,2) that(1) by fastforce+
    qed
    have ex: "\<exists>k r1 tok r. scan (body @ (newline p @ indent_to p cur) @ CHR ''}'' # x) = (T_string k, r1) \<and>
       scan_member k r1 = Some (tok, r) \<and>
       sax_value tok r (F_object [] k # fs) =
         sax_state (J_object ([] @ map (\<lambda>kv. (fst kv, json_norm (snd kv))) m)) x fs" for x fs
    proof (rule reads_members [OF mem b(1) False _ indent_ws])
      show "sm_inv ([] @ map (\<lambda>kv. (fst kv, json_norm (snd kv))) m)"
        using J_object.prems(1) by (simp add: map_norm_inv)
    qed auto
    have "sax_value T_begin_object (newline p @ body @ (newline p @ indent_to p cur) @ CHR ''}'' # x) fs =
        sax_state (J_object (map (\<lambda>kv. (fst kv, json_norm (snd kv))) m)) x fs" for x fs
    proof -
      obtain k r1 tok r where "scan (body @ (newline p @ indent_to p cur) @ CHR ''}'' # x) = (T_string k, r1)"
        "scan_member k r1 = Some (tok, r)" "sax_value tok r (F_object [] k # fs) =
          sax_state (J_object ([] @ map (\<lambda>kv. (fst kv, json_norm (snd kv))) m)) x fs"
        using ex [of x fs] by blast
      then show ?thesis by (simp add: sax_value.simps)
    qed
    then show ?thesis
      unfolding reads_def b(2) by simp
  qed
next
  case (J_array xs)
  show ?case
  proof (cases "xs = []")
    case True
    with J_array.prems(3) have "t = ''[]''" by simp
    with True show ?thesis by (simp add: reads_def sax_value.simps)
  next
    case False
    with J_array.prems(3) obtain body where b: "dump_elements p False step (cur + step) xs = Inr body"
      "t = ''['' @ (newline p @ body @ (newline p @ indent_to p cur) @ '']'')"
      by auto
    have mem: "reads t' (json_norm x)"
      if "x \<in> set xs" "dump_value p False step (cur + step) x = Inr t'" for x t'
      using J_array.IH [OF that(1) _ _ that(2)] J_array.prems(1,2) that(1) by simp
    have *: "\<exists>tok r. scan (body @ (newline p @ indent_to p cur) @ CHR '']'' # x) = (tok, r) \<and> tok \<noteq> T_end_array \<and>
       sax_value tok r (F_array [] # fs) = sax_state (J_array ([] @ map json_norm xs)) x fs" for x fs
      by (rule reads_elements [OF mem b(1) False _ indent_ws]) auto
    have "sax_value T_begin_array (newline p @ body @ (newline p @ indent_to p cur) @ CHR '']'' # x) fs =
        sax_state (J_array (map json_norm xs)) x fs" for x fs
      using * [of x fs] by (auto simp: sax_value.simps split: token.splits)
    then show ?thesis
      unfolding reads_def b(2) by simp
  qed
next
  case (J_string s)
  then obtain u where u: "dump_escaped s False = Inr u" "t = CHR 0x22 # u @ [CHR 0x22]" by auto
  show ?case
    using scan_quoted [OF u(1)] u(2) by (intro reads_token [of t "T_string s"]) (auto simp: sax_value.simps)
next
  case (J_integer i)
  then have t: "t = dec_string i"
    by (simp add: dump_integer_dec zero_buffer_def)
  show ?case
  proof (cases "0 \<le> i")
    case True
    with J_integer t show ?thesis
      using scan_dec_nat [of _ "nat i"]
      by (intro reads_token [of t "T_unsigned i"]) (auto simp: sax_value.simps dec_string_def)
  next
    case False
    with J_integer t show ?thesis
      using scan_dec_neg [of _ i]
      by (intro reads_token [of t "T_integer i"]) (auto simp: sax_value.simps)
  qed
next
  case (J_unsigned n)
  then have t: "t = dec_string n"
    by (simp add: dump_integer_dec zero_buffer_def)
  with J_unsigned show ?case
    using scan_dec_nat [of _ "nat n"]
    by (intro reads_token [of t "T_unsigned n"]) (auto simp: sax_value.simps dec_string_def)
next
  case (J_boolean b)
  then show ?case
    using scan_bool [of b]
    by (intro reads_token [of t "if b then T_true else T_false"]) (auto simp: sax_value.simps)
next
  case J_null
  then show ?case
    using scan_null by (intro reads_token [of t T_null]) (auto simp: sax_value.simps)
next
  case (J_float d)
  then have t: "t = dump_float d" by simp
  show ?case
  proof (cases "d_isfinite d")
    case True
    with J_float t show ?thesis
      using scan_dump_float [of d]
      by (intro reads_token [of t "T_float d"]) (auto simp: sax_value.simps)
  next
    case False
    with J_float t have "t = ''null''" using dump_float_text [of d] by simp
    with False show ?thesis
      using scan_null by (intro reads_token [of t T_null]) (auto simp: sax_value.simps)
  qed
qed

lemma skip_bom_id: "t \<noteq> [] \<Longrightarrow> hd t \<noteq> CHR 0xEF \<Longrightarrow> skip_bom t = Some t"
  by (cases t) (auto simp: skip_bom_def)

lemma hd_dec_digits_bom: "hd (dec_digits n) \<noteq> CHR 0xEF"
  using dec_digits_digits [of n] hd_in_set [OF dec_digits_nonempty, of n] by (force simp: is_digit_def)

lemma dump_value_hd:
  assumes "dump_value p False step cur j = Inr t" "json_ok j" "json_utf8 j"
  shows "t \<noteq> [] \<and> hd t \<noteq> CHR 0xEF"
proof (cases j)
  case (J_object m)
  then show ?thesis using assms(1) by (auto split: if_splits)
next
  case (J_array xs)
  then show ?thesis using assms(1) by (auto split: if_splits)
next
  case (J_integer i)
  then have "t = dec_string i" using assms by (simp add: dump_integer_dec zero_buffer_def)
  then show ?thesis using hd_dec_digits_bom by (simp add: dec_string_def)
next
  case (J_unsigned i)
  then have "t = dec_string i" using assms by (simp add: dump_integer_dec zero_buffer_def)
  then show ?thesis using hd_dec_digits_bom by (simp add: dec_string_def)
next
  case (J_float d)
  then have "t = dump_float d" "d_ok d" using assms(1,2) by simp_all
  then have "scan t = (if d_isfinite d then T_float d else T_null, [])"
    using scan_dump_float [of d "[]"] dump_float_text [of d] scan_null [of "[]"] by (simp split: if_splits)
  moreover have "scan [] = (T_end_of_input, [])" "scan (CHR 0xEF # u) = (T_error Invalid_literal, [])" for u
    by (simp_all add: scan_def scan_token_def is_ws_def is_digit_def)
  ultimately show ?thesis by (cases t) (auto split: if_splits)
qed (use assms in \<open>auto split: if_splits\<close>)

lemma json_roundtrip_value:
  assumes "json_ok j" "json_utf8 j" "dump_value p False step cur j = Inr t"
  shows "json_parse t = Inr (json_norm j)"
proof -
  obtain tok r where "scan t = (tok, r)" "sax_value tok r [] = sax_state (json_norm j) [] []"
    using readsD [OF reads_dump [OF assms], of "[]" "[]"] by auto
  then show ?thesis
    using dump_value_hd [OF assms(3,1,2)]
    by (simp add: json_parse_def sax_state.simps scan_def skip_bom_id)
qed
end
