(* ===== verification/JsonText.thy ===== *)
theory JsonText imports JsonRoundtrip begin

text \<open>
  Guarantees of the json library the service rests on: what the parser can return, that a parsed value
  can always be printed, and the statements of the round trips.
\<close>

section \<open>What the parser produces\<close>

text \<open>A value whose floating-point numbers are finite.\<close>

fun json_finite :: "json \<Rightarrow> bool" where
  "json_finite (J_object m) \<longleftrightarrow> (\<forall>kv\<in>set m. json_finite (snd kv))"
| "json_finite (J_array xs) \<longleftrightarrow> (\<forall>x\<in>set xs. json_finite x)"
| "json_finite (J_float d) \<longleftrightarrow> d_isfinite d"
| "json_finite _ \<longleftrightarrow> True"

lemma utf8_valid_append: "utf8_valid s \<Longrightarrow> utf8_valid t \<Longrightarrow> utf8_valid (s @ t)"
proof (induction s rule: utf8_valid.induct)
  case (2 c cs)
  then obtain rs bs r where 1: "utf8_lead (ord c) = Some rs" "next_byte_in_range rs cs = Inr (bs, r)"
    "utf8_valid r"
    by (auto split: option.splits sum.splits)
  with 2 have "utf8_valid (r @ t)" by blast
  with 1 next_byte_append [OF 1(2)] show ?case by simp
qed simp

lemma utf8_valid_self:
  assumes "utf8_ranges (ord c) = Some rs" "next_byte_in_range rs s = Inr (bs, r)"
  shows "utf8_valid (c # bs)"
  using next_byte_self [OF assms(2), of "[]"] assms(1)
  by (auto simp: utf8_lead_def utf8_ranges_def split: if_splits)

lemma utf8_valid_ascii: "ord c < 0x80 \<Longrightarrow> utf8_valid [c]"
  by (auto simp: utf8_lead_def utf8_ranges_def)

lemma utf8_valid_encode:
  assumes "cp \<le> 0x10FFFF" "cp < 0xD800 \<or> 0xDFFF < cp"
  shows "utf8_valid (encode_codepoint cp)"
proof -
  have m: "x mod 64 \<le> (63 :: nat)" for x using mod_less_divisor [of 64 x] by linarith
  consider "cp < 0x80" | "0x80 \<le> cp" "cp \<le> 0x7FF" | "0x7FF < cp" "cp \<le> 0xFFFF" | "0xFFFF < cp"
    by linarith
  then show ?thesis
  proof cases
    case 1
    then show ?thesis by (simp add: encode_codepoint_def utf8_lead_def utf8_ranges_def)
  next
    case 2
    then have "2 \<le> cp div 64" "cp div 64 \<le> 31" by auto
    with 2 m [of cp] show ?thesis
      by (simp add: encode_codepoint_def utf8_lead_def utf8_ranges_def)
  next
    case 3
    let ?l = "cp div 4096" and ?m = "cp div 64 mod 64"
    have d: "cp div 64 = ?l * 64 + ?m"
      using div_mult_mod_eq [of "cp div 64" 64] by (simp add: div_mult2_eq [symmetric])
    have l: "?l \<le> 15" using 3 by auto
    have e0: "?l = 0 \<longrightarrow> 32 \<le> ?m" using d 3 by auto
    have ed: "?l = 13 \<longrightarrow> ?m \<le> 31"
    proof
      assume "?l = 13"
      then have "cp < 0xE000" by auto
      with assms(2) have "cp < 0xD800" by auto
      then have "cp div 64 < 864" by auto
      with d \<open>?l = 13\<close> show "?m \<le> 31" by auto
    qed
    have b: "utf8_ranges (224 + ?l) = (if ?l = 0 then Some [(0xA0, 0xBF), (0x80, 0xBF)]
        else if ?l = 13 then Some [(0x80, 0x9F), (0x80, 0xBF)] else Some [(0x80, 0xBF), (0x80, 0xBF)])"
      using l by (auto simp: utf8_ranges_def)
    show ?thesis
      using 3 l e0 ed m [of cp] m [of "cp div 64"]
      by (cases "?l = 0"; cases "?l = 13") (simp_all add: encode_codepoint_def utf8_lead_def b utf8_ranges_def [of 224]
        utf8_ranges_def [of 237] utf8_ranges_def [of 240] utf8_ranges_def [of 244])
  next
    case 4
    let ?l = "cp div 262144" and ?m = "cp div 4096 mod 64"
    have d: "cp div 4096 = ?l * 64 + ?m"
      using div_mult_mod_eq [of "cp div 4096" 64] by (simp add: div_mult2_eq [symmetric])
    have l: "?l \<le> 4" using assms(1) by auto
    have f0: "?l = 0 \<longrightarrow> 16 \<le> ?m" using d 4 by auto
    have f4: "?l = 4 \<longrightarrow> ?m \<le> 15"
    proof
      assume "?l = 4"
      have "cp div 4096 < 272" using assms(1) by auto
      with d \<open>?l = 4\<close> show "?m \<le> 15" by auto
    qed
    have b: "utf8_ranges (240 + ?l) = (if ?l = 0 then Some [(0x90, 0xBF), (0x80, 0xBF), (0x80, 0xBF)]
        else if ?l = 4 then Some [(0x80, 0x8F), (0x80, 0xBF), (0x80, 0xBF)]
        else Some [(0x80, 0xBF), (0x80, 0xBF), (0x80, 0xBF)])"
      using l by (auto simp: utf8_ranges_def)
    show ?thesis
      using 4 l f0 f4 m [of cp] m [of "cp div 64"] m [of "cp div 4096"]
      by (cases "?l = 0"; cases "?l = 4") (simp_all add: encode_codepoint_def utf8_lead_def b utf8_ranges_def [of 224]
        utf8_ranges_def [of 237] utf8_ranges_def [of 240] utf8_ranges_def [of 244])
  qed
qed

lemma hex_val_less: "hex_val c = Some d \<Longrightarrow> d < 16"
  by (auto simp: hex_val_def split: if_splits)

lemma get_codepoint_less: "get_codepoint s = Some (cp, r) \<Longrightarrow> cp < 65536"
  by (induction s rule: get_codepoint.induct)
    (fastforce split: option.splits dest!: hex_val_less)+

lemma surrogate_pair:
  fixes a b :: nat
  assumes "0xD800 \<le> a" "a \<le> 0xDBFF" "0xDC00 \<le> b" "b \<le> 0xDFFF"
  shows "utf8_valid (encode_codepoint (a * 1024 + b - 0x35FDC00))"
  using assms by (intro utf8_valid_encode) linarith+

lemma scan_unicode_valid: "scan_unicode_escape s = Inr (bs, r) \<Longrightarrow> utf8_valid bs"
  by (auto simp: scan_unicode_escape_def simp del: get_codepoint.simps
      split: option.splits if_splits list.splits
      dest!: get_codepoint_less simp: surrogate_pair utf8_valid_encode)

lemma scan_escape_valid: "scan_escape s = Inr (bs, r) \<Longrightarrow> utf8_valid bs"
  by (auto simp: scan_escape_def simp del: utf8_valid.simps
      split: list.splits if_splits intro: scan_unicode_valid utf8_valid_ascii)

lemma scan_char_valid: "scan_char c cs = Inr (bs, r) \<Longrightarrow> utf8_valid bs"
  by (auto simp: scan_char_def simp del: utf8_valid.simps
      split: option.splits if_splits sum.splits intro: scan_escape_valid utf8_valid_self)

lemma scan_string_valid: "scan_string s = Inr (t, r) \<Longrightarrow> utf8_valid t"
proof (induction s arbitrary: t rule: scan_string.induct)
  case (2 c cs)
  then show ?case
    by (auto split: if_splits sum.splits intro!: utf8_valid_append dest: scan_char_valid)
qed simp

fun token_ok :: "token \<Rightarrow> bool" where
  "token_ok (T_string t) \<longleftrightarrow> utf8_valid t"
| "token_ok (T_unsigned n) \<longleftrightarrow> json_ok (J_unsigned n)"
| "token_ok (T_integer i) \<longleftrightarrow> json_ok (J_integer i)"
| "token_ok (T_float d) \<longleftrightarrow> d_ok d"
| "token_ok _ \<longleftrightarrow> True"

lemma strtod_ok: "d_ok (strtod s)"
  by (auto simp: strtod_def strtod_abs_def Let_def round_double_ok d_ok_def [of "D_zero _"] split: list.splits prod.splits)

lemma scan_literal_ok: "scan_literal ls t s = (t', r) \<Longrightarrow> token_ok t \<Longrightarrow> token_ok t'"
  by (induction ls t s rule: scan_literal.induct) (auto split: if_splits)

lemma scan_number_ok: "scan_number c cs = (t, r) \<Longrightarrow> token_ok t"
  by (auto simp: scan_number_def num_done_unsigned_def num_done_integer_def Let_def strtod_ok
      split: if_splits sum.splits prod.splits)

lemma scan_token_ok:
  assumes "scan_token c cs = (t, r)"
  shows "token_ok t"
proof -
  consider "\<exists>ls t'. token_ok t' \<and> scan_literal ls t' cs = (t, r)" | "\<exists>u. scan_string cs = Inr (u, r) \<and> t = T_string u"
    | "scan_number c cs = (t, r)" | "token_ok t"
    using assms unfolding scan_token_def
    by (fastforce split: if_split_asm sum.split_asm prod.split_asm)
  then show ?thesis
    by cases (auto dest: scan_literal_ok scan_number_ok scan_string_valid)
qed

lemma scan_ok: "scan s = (t, r) \<Longrightarrow> token_ok t"
  by (auto simp: scan_def split: list.splits dest: scan_token_ok)

lemma scan_string_token: "scan s = (T_string k, r) \<Longrightarrow> utf8_valid k"
  using scan_ok [of s "T_string k" r] by simp

fun frame_ok :: "frame \<Rightarrow> bool" where
  "frame_ok (F_array xs) \<longleftrightarrow> (\<forall>x\<in>set xs. json_ok x \<and> json_utf8 x \<and> json_finite x)"
| "frame_ok (F_object m k) \<longleftrightarrow>
     json_ok (J_object m) \<and> json_utf8 (J_object m) \<and> json_finite (J_object m) \<and> utf8_valid k"

definition parse_result_ok :: "(json \<times> string) res \<Rightarrow> bool" where
  "parse_result_ok res = (case res of
      Inr (j, r) \<Rightarrow> json_ok j \<and> json_utf8 j \<and> json_finite j
    | Inl e \<Rightarrow> e = Json_parse_error 101 \<or> e = Json_out_of_range 406)"

lemma set_sm_assign: "set (sm_assign k v m) \<subseteq> insert (k, v) (set m)"
  by (induction k v m rule: sm_assign.induct) auto

lemma frame_assign_ok:
  assumes "json_ok v" "json_utf8 v" "json_finite v" "frame_ok (F_object m k)"
  shows "json_ok (J_object (sm_assign k v m)) \<and> json_utf8 (J_object (sm_assign k v m)) \<and>
    json_finite (J_object (sm_assign k v m))"
  using assms set_sm_assign [of k v m] by fastforce

lemma scan_member_ok: "scan_member k s = Some (t, r) \<Longrightarrow> token_ok t"
  by (auto simp: scan_member_def split: token.splits prod.splits dest: scan_ok)

lemma sax_ok:
  "token_ok t \<Longrightarrow> list_all frame_ok fs \<Longrightarrow> parse_result_ok (sax_value t s fs)"
  "json_ok v \<Longrightarrow> json_utf8 v \<Longrightarrow> json_finite v \<Longrightarrow> list_all frame_ok fs \<Longrightarrow> parse_result_ok (sax_state v s fs)"
proof (induction t s fs and v s fs rule: sax_value_sax_state.induct)
  case (1 s fs)
  have "parse_result_ok (sax_value t r' (F_object [] k # fs))"
    if "scan s = (T_string k, r)" "scan_member k r = Some (t, r')" for k r t r'
    using 1(1) [OF that(1) [symmetric] refl that(2) refl] scan_member_ok [OF that(2)]
      scan_string_token [OF that(1)] 1(3,4) by simp
  moreover have "parse_result_ok (sax_state (J_object []) r fs)" if "scan s = (T_end_object, r)" for r
    using 1(2) [OF that [symmetric] refl] 1(4) by simp
  ultimately show ?case
    by (subst sax_value.simps) (auto split: token.splits prod.splits option.splits
        simp: parse_result_ok_def [of "Inl _"])
next
  case (2 s fs)
  then show ?case
    by (subst sax_value.simps, auto split: token.splits prod.splits simp del: token_ok.simps;
      (metis scan_ok token_ok.simps)?)
next
  case (12 v s xs fs)
  then show ?case
    by (subst sax_state.simps, auto split: token.splits prod.splits
        simp: parse_result_ok_def [of "Inl _"] simp del: token_ok.simps; (metis scan_ok token_ok.simps)?)
next
  case (13 v s m k fs)
  have o: "json_ok (J_object (sm_assign k v m))" "json_utf8 (J_object (sm_assign k v m))"
    "json_finite (J_object (sm_assign k v m))"
    using frame_assign_ok [OF 13(3,4,5), of m k] 13(6) unfolding list.pred_inject by blast+
  have "parse_result_ok (sax_value t r2 (F_object (sm_assign k v m) k' # fs))"
    if "scan s = (T_value_separator, r)" "scan r = (T_string k', r1)" "scan_member k' r1 = Some (t, r2)"
    for r k' r1 t r2
    using 13(2) [OF that(1) [symmetric] refl that(2) [symmetric] refl that(3) refl]
      scan_member_ok [OF that(3)] scan_string_token [OF that(2)] o 13(6) by simp
  moreover have "parse_result_ok (sax_state (J_object (sm_assign k v m)) r fs)"
    if "scan s = (T_end_object, r)" for r
    using 13(1) [OF that [symmetric] refl o] 13(6) by simp
  ultimately show ?case
    by (subst sax_state.simps) (auto split: token.splits prod.splits option.splits
        simp: parse_result_ok_def [of "Inl _"])
qed (simp_all add: sax_value.simps sax_state.simps parse_result_ok_def)

lemma json_parse_result:
  "case json_parse s of Inr j \<Rightarrow> json_ok j \<and> json_utf8 j \<and> json_finite j
     | Inl e \<Rightarrow> e = Json_parse_error 101 \<or> e = Json_out_of_range 406"
proof (cases "skip_bom s")
  case None
  then show ?thesis by (simp add: json_parse_def)
next
  case (Some s0)
  obtain t r where sc: "scan s0 = (t, r)" by force
  have "parse_result_ok (sax_value t r [])"
    using sax_ok(1) [OF scan_ok [OF sc]] by simp
  with Some sc show ?thesis
    by (cases "sax_value t r []") (auto simp: json_parse_def parse_result_ok_def)
qed

lemma json_parse_ok: "json_parse s = Inr j \<Longrightarrow> json_ok j \<and> json_utf8 j"
  using json_parse_result [of s] by simp

lemma json_parse_finite: "json_parse s = Inr j \<Longrightarrow> json_finite j"
  using json_parse_result [of s] by simp

lemma json_parse_error: "json_parse s = Inl e \<Longrightarrow> e = Json_parse_error 101 \<or> e = Json_out_of_range 406"
  using json_parse_result [of s] by simp

section \<open>Valid strings always serialize\<close>

lemma dump_escaped_valid: "utf8_valid s \<Longrightarrow> \<exists>t. dump_escaped s False = Inr t"
  using escape_valid_iff [of s] by (simp add: dump_escaped_ref)

lemma dump_elements_total:
  "(\<And>x. x \<in> set xs \<Longrightarrow> \<exists>t. dump_value p False step ind x = Inr t) \<Longrightarrow>
   \<exists>t. dump_elements p False step ind xs = Inr t"
proof (induction xs)
  case (Cons x xs)
  obtain t where "dump_value p False step ind x = Inr t" using Cons.prems [of x] by auto
  moreover obtain ts where "dump_elements p False step ind xs = Inr ts" using Cons by auto
  ultimately show ?case by simp
qed simp

lemma dump_members_total:
  "(\<And>k x. (k, x) \<in> set m \<Longrightarrow> utf8_valid k \<and> (\<exists>t. dump_value p False step ind x = Inr t)) \<Longrightarrow>
   \<exists>t. dump_members p False step ind m = Inr t"
proof (induction m)
  case (Cons kv m)
  obtain k x where kv: "kv = (k, x)" by force
  obtain t where "dump_value p False step ind x = Inr t" using Cons.prems [of k x] kv by auto
  moreover obtain kt where "dump_escaped k False = Inr kt"
    using Cons.prems [of k x] kv dump_escaped_valid [of k] by auto
  moreover obtain ts where "dump_members p False step ind m = Inr ts" using Cons by fastforce
  ultimately show ?case using kv by (simp add: Let_def)
qed simp

lemma dump_value_total: "json_utf8 j \<Longrightarrow> \<exists>t. dump_value p False step cur j = Inr t"
proof (induction j arbitrary: cur)
  case (J_object m)
  have "\<exists>t. dump_members p False step (cur + step) m = Inr t"
  proof (rule dump_members_total)
    fix k x
    assume "(k, x) \<in> set m"
    with J_object show "utf8_valid k \<and> (\<exists>t. dump_value p False step (cur + step) x = Inr t)"
      by (fastforce intro: J_object.IH [of "(k, x)" x])
  qed
  then show ?case by auto
next
  case (J_array xs)
  have "\<exists>t. dump_elements p False step (cur + step) xs = Inr t"
    by (rule dump_elements_total) (use J_array in auto)
  then show ?case by auto
next
  case (J_string s)
  then show ?case using dump_escaped_valid by auto
qed auto

lemma json_dump_total: "json_utf8 j \<Longrightarrow> \<exists>t. json_dump n j = Inr t"
  by (simp add: json_dump_def dump_value_total)

lemma utf8_valid_ascii_string: "(\<forall>c\<in>set s. ord c < 0x80) \<Longrightarrow> utf8_valid s"
  by (induction s) (auto simp: utf8_lead_def utf8_ranges_def)

section \<open>What dump prints\<close>

text \<open>A text that is well-formed UTF-8 and, as a C string, complete.\<close>

definition text_ok :: "string \<Rightarrow> bool" where
  "text_ok t \<longleftrightarrow> utf8_valid t \<and> CHR 0x00 \<notin> set t"

lemma text_ok_ascii: "list_all (\<lambda>c. 0 < ord c \<and> ord c < 0x80) s \<Longrightarrow> text_ok s"
  by (auto simp: text_ok_def list_all_iff intro!: utf8_valid_ascii_string simp del: utf8_valid.simps)

lemma text_ok_append: "text_ok s \<Longrightarrow> text_ok t \<Longrightarrow> text_ok (s @ t)"
  by (simp add: text_ok_def utf8_valid_append)

lemma text_ok_cons: "text_ok s \<Longrightarrow> 0 < ord c \<Longrightarrow> ord c < 0x80 \<Longrightarrow> text_ok (c # s)"
  using text_ok_append [OF text_ok_ascii [of "[c]"]] by simp

lemma text_ok_words: "text_ok []" "text_ok ''true''" "text_ok ''false''" "text_ok ''null''"
  by (rule text_ok_ascii, simp)+

text \<open>Escaping copies well-formed sequences and writes ASCII for the rest.\<close>

lemma hex_digit_ascii: "n < 16 \<Longrightarrow> 0 < ord (hex_digit n) \<and> ord (hex_digit n) < 0x80"
  by (simp add: hex_digit_def)

lemma escape_codepoint_ascii:
  assumes "ord c < 0x80"
  shows "text_ok (escape_codepoint False (ord c) c)"
  using assms hex_digit_ascii
  by (intro text_ok_ascii) (auto simp: list_all_iff escape_codepoint_def print_u_def)

lemma next_byte_high:
  "next_byte_in_range rs s = Inr (bs, r) \<Longrightarrow> \<forall>x\<in>set rs. 0x80 \<le> fst x \<Longrightarrow> \<forall>c\<in>set bs. 0x80 \<le> ord c"
  by (induction rs s arbitrary: bs rule: next_byte_in_range.induct) (auto split: if_splits sum.splits)

lemma utf8_ranges_high: "utf8_ranges b = Some rs \<Longrightarrow> 0x20 \<le> b \<and> (\<forall>x\<in>set rs. 0x80 \<le> fst x)"
  by (auto simp: utf8_ranges_def split: if_splits)

lemma escape_output_ok: "escape_ref False 0 0 s = Inr t \<Longrightarrow> text_ok t"
proof (induction s arbitrary: t rule: utf8_valid.induct)
  case 1
  then show ?case using text_ok_words(1) by simp
next
  case (2 c cs)
  then obtain rs where rs: "utf8_lead (ord c) = Some rs" by (auto simp: escape_lead_state split: option.splits)
  show ?case
  proof (cases "rs = []")
    case True
    then obtain t' where t': "escape_ref False 0 0 cs = Inr t'" "t = escape_codepoint False (ord c) c @ t'"
      using 2(2) rs by (auto simp: escape_lead_state)
    have "ord c < 0x80" using rs True by (auto simp: utf8_lead_def utf8_ranges_def split: if_splits)
    moreover have "text_ok t'" using 2(1) [OF rs, of "([], cs)" "[]" cs] True t'(1) by simp
    ultimately show ?thesis unfolding t'(2) by (intro text_ok_append escape_codepoint_ascii)
  next
    case False
    then obtain bs r t' where t': "next_byte_in_range rs cs = Inr (bs, r)" "escape_ref False 0 0 r = Inr t'"
      "t = (c # bs) @ t'"
      using 2(2) rs by (auto simp: escape_lead_state after_bytes_def split: sum.splits)
    have l: "utf8_ranges (ord c) = Some rs" using rs False by (auto simp: utf8_lead_def split: if_splits)
    then have "utf8_valid (c # bs)" using t'(1) by (rule utf8_valid_self)
    moreover have "\<forall>x\<in>set (c # bs). 0 < ord x"
      using next_byte_high [OF t'(1)] utf8_ranges_high [OF l] by fastforce
    then have "CHR 0x00 \<notin> set (c # bs)" by fastforce
    ultimately have "text_ok (c # bs)" by (simp add: text_ok_def)
    moreover have "text_ok t'" using 2(1) [OF rs t'(1) refl t'(2)] .
    ultimately show ?thesis unfolding t'(3) by (rule text_ok_append)
  qed
qed

lemma number_chars_ok: "number_chars s \<Longrightarrow> text_ok s"
proof (rule text_ok_ascii)
  have "\<forall>c\<in>set ''0123456789+-.e''. 0 < ord c \<and> ord c < 0x80" by code_simp
  then show "number_chars s \<Longrightarrow> list_all (\<lambda>c. 0 < ord c \<and> ord c < 0x80) s"
    unfolding number_chars_def number_char_def list_all_iff by meson
qed

lemma dec_digits_ascii: "\<forall>c\<in>set (dec_digits n). 0 < ord c \<and> ord c < 0x80"
proof (induction n rule: dec_digits.induct)
  case (1 n)
  have "(0 :: nat) < of_char (char_of (48 + d) :: char) \<and> of_char (char_of (48 + d) :: char) < (0x80 :: nat)"
    if "d < 10" for d :: nat
  proof -
    have "(48 + d) mod 256 = 48 + d" using that by simp
    then have "of_char (char_of (48 + d) :: char) = 48 + d" by (simp only: of_char_of)
    with that show ?thesis by simp
  qed
  then show ?case using 1 by (cases "n < 10") (auto simp: dec_digits_small dec_digits_step)
qed

lemma dump_integer_ok: "-9223372036854775808 \<le> i \<Longrightarrow> i \<le> 18446744073709551615 \<Longrightarrow> text_ok (dump_integer zero_buffer i)"
  using dump_integer_dec [of zero_buffer i] dec_digits_ascii
  by (auto simp: zero_buffer_def dec_string_def list_all_iff intro!: text_ok_ascii)

lemma indent_ok: "text_ok (indent_to pretty n)" "text_ok (newline pretty)"
  by (auto simp: indent_to_def newline_def list_all_iff intro!: text_ok_ascii)

lemmas text_ok_intros = text_ok_append text_ok_cons indent_ok text_ok_words

lemma dumped_text_ok:
  "json_ok j \<Longrightarrow> dump_value p False st n j = Inr t \<Longrightarrow> text_ok t"
  "\<forall>x\<in>set xs. json_ok x \<Longrightarrow> dump_elements p False st n xs = Inr t \<Longrightarrow> text_ok t"
  "\<forall>kv\<in>set m. json_ok (snd kv) \<Longrightarrow> dump_members p False st n m = Inr t \<Longrightarrow> text_ok t"
proof (induction p "False" st n j and p "False" st n xs and p "False" st n m
    arbitrary: t and t and t rule: dump_value_dump_elements_dump_members.induct)
  case (7 p st n d)
  then have "number_chars t \<or> t = ''null''" using dump_float_text [of d] by auto
  then show ?case using number_chars_ok text_ok_words by blast
qed (auto simp: dump_escaped_ref dump_integer_ok Let_def
    intro!: text_ok_intros dest: escape_output_ok split: if_splits)

text \<open>A text that \<open>dump\<close> returns is well-formed UTF-8 without NUL.\<close>

lemma json_dump_text_ok: "json_ok j \<Longrightarrow> json_dump n j = Inr t \<Longrightarrow> text_ok t"
  by (auto simp: json_dump_def split: if_splits intro: dumped_text_ok(1))

lemma json_dump_utf8: "json_ok j \<Longrightarrow> json_dump n j = Inr t \<Longrightarrow> utf8_valid t"
  using json_dump_text_ok by (simp add: text_ok_def)

lemma json_dump_cstr: "json_ok j \<Longrightarrow> json_dump n j = Inr t \<Longrightarrow> json_parse_cstr t = json_parse t"
proof -
  assume "json_ok j" "json_dump n j = Inr t"
  then have "CHR 0x00 \<notin> set t" using json_dump_text_ok by (simp add: text_ok_def)
  then have "takeWhile (\<lambda>c. c \<noteq> CHR 0x00) t = t" by (subst takeWhile_eq_all_conv) blast
  then show ?thesis by (simp only: json_parse_cstr_def)
qed

lemma dumped_parses:
  "json_ok j \<Longrightarrow> json_utf8 j \<Longrightarrow> json_dump n j = Inr t \<Longrightarrow> json_parse t = Inr (json_norm j)"
  using json_roundtrip_value by (auto simp: json_dump_def split: if_splits)

text \<open>What comes back compares equal: \<open>operator==\<close> goes by value where the type of a number changed.\<close>

lemma d_eq_refl: "d_isfinite d \<Longrightarrow> d_eq d d"
  by (cases d) (simp_all add: d_isfinite_def d_eq_def)

lemma json_eq_norm:
  "json_ok j \<Longrightarrow> json_finite j \<Longrightarrow> json_eq j (json_norm j)"
proof (induction j)
  case (J_object m)
  have "json_eq_object m' (map (\<lambda>kv. (fst kv, json_norm (snd kv))) m')" if "set m' \<subseteq> set m" for m'
    using that
  proof (induction m')
    case (Cons kv m')
    obtain k v where kv: "kv = (k, v)" by force
    have "json_eq v (json_norm v)"
      by (rule J_object.IH [of kv]) (use Cons.prems J_object.prems kv in auto)
    with Cons kv show ?case by simp
  qed simp
  then show ?case by simp
next
  case (J_array xs)
  have "json_eq_list ys (map json_norm ys)" if "set ys \<subseteq> set xs" for ys
    using that by (induction ys) (use J_array in auto)
  then show ?case by simp
qed (auto simp: d_eq_refl wrap64_def)

lemma printed_again:
  assumes "json_parse s = Inr j"
  shows "\<exists>t. json_dump indent j = Inr t \<and> (\<exists>j'. json_parse t = Inr j' \<and> json_eq j j')"
proof -
  have j: "json_ok j" "json_utf8 j" "json_finite j" using json_parse_ok json_parse_finite assms by blast+
  then obtain t where "json_dump indent j = Inr t" using json_dump_total by blast
  then show ?thesis using dumped_parses [OF j(1,2)] json_eq_norm [OF j(1,3)] by blast
qed

section \<open>Properties\<close>

text \<open>
  C27. Round trip: for a well-formed value whose strings are well-formed UTF-8, the text printed by \<open>dump\<close>,
  compact or with any indentation, is parsed back to the value, floating-point numbers to the last bit and
  zeros with their sign.  Two things change: a non-negative integer comes back with the type the parser gives
  it, \<open>number_unsigned\<close>, and infinities and NaN, which json cannot express, come back as null.
\<close>

theorem json_dump_parse:
  assumes "json_ok j" "json_utf8 j" "json_dump indent j = Inr t"
  shows "json_parse t = Inr (json_norm j)"
  by (rule dumped_parses [OF assms])

lemma json_dump_parse_witness:
  "json_parse ''[]'' = Inr (J_array [])"
  using json_dump_parse [of "J_array []" 4 "''[]''"] by (simp add: json_dump_def)

text \<open>
  C26. Grisu2 is exact within its buffers: for every finite double the digits it generates are at most 17, the
  first of them not zero, with a decimal exponent between -341 and 310; the text is at most 25 characters
  long, well within the 64 of the number buffer; and although the digits come from 64-bit approximations,
  parsing the text gives the double back bit for bit.  A double that is not finite prints as null.
\<close>

theorem float_text_exact:
  assumes "d_ok d"
  shows "(\<forall>r. d = D_fin r \<longrightarrow> (\<exists>ds de. grisu2 \<bar>r\<bar> = (ds, de) \<and> ds \<noteq> [] \<and> decimal_digits ds \<and> 1 \<le> hd ds \<and>
      length ds \<le> 17 \<and> -341 \<le> de \<and> de \<le> 310)) \<and>
    length (dump_float d) \<le> 25 \<and>
    json_parse (dump_float d) = Inr (if d_isfinite d then J_float d else J_null)"
proof -
  have "\<exists>ds de. grisu2 \<bar>r\<bar> = (ds, de) \<and> ds \<noteq> [] \<and> decimal_digits ds \<and> 1 \<le> hd ds \<and>
      length ds \<le> 17 \<and> -341 \<le> de \<and> de \<le> 310" if "d = D_fin r" for r
    using grisu2_ok [of r False] assms that by blast
  moreover have "json_parse (dump_float d) = Inr (json_norm (J_float d))"
    by (rule dumped_parses [of _ 0]) (use assms in \<open>simp_all add: json_dump_def\<close>)
  ultimately show ?thesis using dump_float_text [OF assms] by simp
qed

lemma float_text_exact_witness:
  "json_parse (dump_float (D_fin (1 / 8))) = Inr (J_float (D_fin (1 / 8)))"
proof -
  have "d_ok (D_fin (1 / 8))" "d_isfinite (D_fin (1 / 8))" by code_simp+
  with float_text_exact [of "D_fin (1 / 8)"] show ?thesis by simp
qed

text \<open>
  C28. What comes in can go out: the parser reports only parse error 101 and out of range 406; a value it
  returns has its integers in the 64-bit types, its keys in map order and only finite floating-point numbers;
  printing it, compact or with any indentation, never throws (in particular, every string the lexer builds,
  from raw bytes or \<open>\u\<close> escapes, is well-formed UTF-8); and parsing the printed text succeeds with a value
  that \<open>operator==\<close> finds equal.
\<close>

theorem json_parse_then_dump:
  "case json_parse s of
     Inl e \<Rightarrow> e = Json_parse_error 101 \<or> e = Json_out_of_range 406
   | Inr j \<Rightarrow> json_ok j \<and> json_finite j \<and>
       (\<exists>t. json_dump indent j = Inr t \<and> (\<exists>j'. json_parse t = Inr j' \<and> json_eq j j'))"
  using json_parse_result [of s] printed_again [of s _ indent] by (cases "json_parse s") auto

text \<open>
  C32. Escaping is safe and exact: \<open>dump_escaped\<close> never writes beyond its 512-byte buffer, it throws type
  error 316 exactly on strings that are not well-formed UTF-8, and what it writes between quotation
  marks is read back by \<open>scan_string\<close> as the original string, byte for byte.
\<close>

theorem dump_escaped_exact:
  "case dump_escaped s False of
     Inr t \<Rightarrow> utf8_valid s \<and> scan_string (t @ CHR 0x22 # rest) = Inr (s, rest)
   | Inl e \<Rightarrow> e = Json_type_error 316 \<and> \<not> utf8_valid s"
proof (cases "dump_escaped s False")
  case (Inl e)
  then show ?thesis
    using escape_ref_error escape_valid_iff [of s] by (auto simp: dump_escaped_ref)
next
  case (Inr t)
  then show ?thesis
    using escape_valid_iff [of s] scan_string_escape_ref by (auto simp: dump_escaped_ref)
qed

text \<open>
  Integers print as their decimal digits whatever the 64-byte buffer held before, for every value of
  the types \<open>int64_t\<close> and \<open>uint64_t\<close>, and the digits fit the buffer with a byte to spare.
\<close>

theorem dump_integer_decimal:
  assumes "length nb = 64" "-9223372036854775808 \<le> x" "x \<le> 18446744073709551615"
  shows "dump_integer nb x = dec_string x \<and> length (dec_string x) < 63"
proof -
  have "length (dec_digits (nat (- x))) \<le> 20" "length (dec_digits (nat x)) \<le> 20"
    using assms by (auto intro!: length_dec_digits_le)
  then show ?thesis using dump_integer_dec [OF assms] by (auto simp: dec_string_def)
qed

lemma dump_integer_decimal_witness:
  "dump_integer (replicate 64 CHR ''x'') (-9223372036854775808) = dec_string (-9223372036854775808)"
  using dump_integer_decimal [of "replicate 64 CHR ''x''" "-9223372036854775808"] by simp

end
