(* ===== verification/SafeQueue.thy ===== *)
theory SafeQueue imports Prelude begin

text \<open>
  \<open>ThreadSafeQueue.hpp\<close>: the queue of MQTT messages between the network thread and the handlers.
  First the critical sections of the methods, each a function on the \<open>std::queue\<close> it guards; then the
  methods as threads see them, a step relation in which a blocked \<open>pop\<close> sits in the wait set of the
  condition variable, \<open>push\<close> notifies one waiter, and a waiter may also wake for no reason or because
  its time is up.
\<close>

section \<open>The critical sections\<close>

definition queue_push :: "'a \<Rightarrow> 'a list \<Rightarrow> 'a list" where
  "queue_push v q = q @ [v]"

text \<open>\<open>tryPop\<close>: the value through the reference argument, and the result \<open>false\<close> as None.\<close>

definition queue_tryPop :: "'a list \<Rightarrow> 'a option \<times> 'a list" where
  "queue_tryPop q = (case q of [] \<Rightarrow> (None, q) | v # q' \<Rightarrow> (Some v, q'))"

definition queue_empty :: "'a list \<Rightarrow> bool" where
  "queue_empty q = (case q of [] \<Rightarrow> True | _ \<Rightarrow> False)"

definition queue_size :: "'a list \<Rightarrow> nat" where
  "queue_size q = length q"

text \<open>\<open>clear\<close> pops until the queue is empty.\<close>

function queue_clear :: "'a list \<Rightarrow> 'a list" where
  "queue_clear q = (if queue_empty q then q else queue_clear (tl q))"
  by pat_completeness auto
termination
  by (relation "measure length") (auto simp: queue_empty_def split: list.splits)

declare queue_clear.simps [simp del]

lemma queue_clear_Nil [simp]: "queue_clear q = []"
  by (induction q rule: queue_clear.induct)
    (subst queue_clear.simps, auto simp: queue_empty_def split: list.splits)

text \<open>
  After the wait of \<open>popUntil\<close> has seen an element, the method takes it only if the deadline has not
  passed (\<open>late\<close> is \<open>now() > timeoutValue\<close>).
\<close>

definition queue_popUntil :: "bool \<Rightarrow> 'a list \<Rightarrow> 'a option \<times> 'a list" where
  "queue_popUntil late q = (if queue_empty q then (None, q)
     else if \<not> late then queue_tryPop q else (None, q))"

section \<open>Threads and the condition variable\<close>

text \<open>
  \<open>waiting\<close> holds the threads blocked in \<open>cond.wait\<close>, \<open>woken\<close> those that left the wait set and have
  yet to reacquire the mutex and look at the queue again.
\<close>

record 'a tsq =
  items :: "'a list"
  waiting :: "nat set"
  woken :: "nat set"

datatype 'a queue_event =
    Ev_push 'a
  | Ev_got nat 'a
  | Ev_none nat
  | Ev_clear
  | Ev_sched

definition tsq_init :: "'a tsq" where
  "tsq_init = \<lparr> items = [], waiting = {}, woken = {} \<rparr>"

definition tsq_leave :: "nat \<Rightarrow> 'a tsq \<Rightarrow> 'a tsq" where
  "tsq_leave t s = s\<lparr> waiting := waiting s - {t}, woken := woken s - {t} \<rparr>"

inductive tsq_step :: "'a tsq \<Rightarrow> 'a queue_event \<Rightarrow> 'a tsq \<Rightarrow> bool" where
  push_notify: "t \<in> waiting s \<Longrightarrow>
    tsq_step s (Ev_push v)
      (s\<lparr> items := queue_push v (items s), waiting := waiting s - {t}, woken := insert t (woken s) \<rparr>)"
| push_alone: "waiting s = {} \<Longrightarrow>
    tsq_step s (Ev_push v) (s\<lparr> items := queue_push v (items s) \<rparr>)"
| try_pop_some: "queue_tryPop (items s) = (Some v, q) \<Longrightarrow>
    tsq_step s (Ev_got t v) (s\<lparr> items := q \<rparr>)"
| try_pop_none: "queue_tryPop (items s) = (None, q) \<Longrightarrow>
    tsq_step s (Ev_none t) (s\<lparr> items := q \<rparr>)"
| pop_block: "queue_empty (items s) \<Longrightarrow> t \<notin> waiting s \<Longrightarrow> t \<notin> woken s \<Longrightarrow>
    tsq_step s Ev_sched (s\<lparr> waiting := insert t (waiting s) \<rparr>)"
| pop_now: "queue_tryPop (items s) = (Some v, q) \<Longrightarrow> t \<notin> waiting s \<Longrightarrow> t \<notin> woken s \<Longrightarrow>
    tsq_step s (Ev_got t v) (s\<lparr> items := q \<rparr>)"
| spurious: "t \<in> waiting s \<Longrightarrow>
    tsq_step s Ev_sched (s\<lparr> waiting := waiting s - {t}, woken := insert t (woken s) \<rparr>)"
| wake_block: "t \<in> woken s \<Longrightarrow> queue_empty (items s) \<Longrightarrow>
    tsq_step s Ev_sched (s\<lparr> waiting := insert t (waiting s), woken := woken s - {t} \<rparr>)"
| wake_take: "t \<in> woken s \<Longrightarrow> queue_tryPop (items s) = (Some v, q) \<Longrightarrow>
    tsq_step s (Ev_got t v) (tsq_leave t s\<lparr> items := q \<rparr>)"
| timeout_none: "t \<in> waiting s \<or> t \<in> woken s \<Longrightarrow> queue_empty (items s) \<Longrightarrow>
    tsq_step s (Ev_none t) (tsq_leave t s)"
| timeout_take: "t \<in> waiting s \<Longrightarrow> queue_tryPop (items s) = (Some v, q) \<Longrightarrow>
    tsq_step s (Ev_got t v) (tsq_leave t s\<lparr> items := q \<rparr>)"
| clear_all: "tsq_step s Ev_clear (s\<lparr> items := queue_clear (items s) \<rparr>)"

text \<open>The steps of a program that calls \<open>popUntil\<close> as well: a woken thread that finds an element after
  its deadline leaves without it.\<close>

inductive tsq_step_until :: "'a tsq \<Rightarrow> 'a queue_event \<Rightarrow> 'a tsq \<Rightarrow> bool" where
  plain: "tsq_step s e s' \<Longrightarrow> tsq_step_until s e s'"
| late: "t \<in> woken s \<Longrightarrow> queue_popUntil True (items s) = (None, q) \<Longrightarrow>
    tsq_step_until s (Ev_none t) (tsq_leave t s\<lparr> items := q \<rparr>)"

inductive tsq_run :: "'a tsq \<Rightarrow> 'a queue_event list \<Rightarrow> 'a tsq \<Rightarrow> bool" where
  run_nil: "tsq_run s [] s"
| run_step: "tsq_run s es s' \<Longrightarrow> tsq_step s' e s'' \<Longrightarrow> tsq_run s (es @ [e]) s''"

inductive tsq_run_until :: "'a tsq \<Rightarrow> 'a tsq \<Rightarrow> bool" where
  until_nil: "tsq_run_until s s"
| until_step: "tsq_run_until s s' \<Longrightarrow> tsq_step_until s' e s'' \<Longrightarrow> tsq_run_until s s''"

inductive_cases tsq_stepE: "tsq_step s e s'"

section \<open>The first-in first-out interface\<close>

text \<open>
  What a client of the queue relies on.  \<open>content\<close> is the abstraction; the client lemma says that what
  goes in comes out, in order, whatever the state the queue was in.
\<close>

locale fifo =
  fixes push :: "'a \<Rightarrow> 'q \<Rightarrow> 'q"
    and pop :: "'q \<Rightarrow> 'a option \<times> 'q"
    and content :: "'q \<Rightarrow> 'a list"
  assumes content_push: "content (push v q) = content q @ [v]"
    and pop_empty: "content q = [] \<Longrightarrow> pop q = (None, q)"
    and pop_nonempty: "content q = v # vs \<Longrightarrow> \<exists>q'. pop q = (Some v, q') \<and> content q' = vs"
begin

lemma content_push_all: "content (fold push vs q) = content q @ vs"
  by (induction vs arbitrary: q) (simp_all add: content_push)

lemma pop_cases: "fst (pop q) = (case content q of [] \<Rightarrow> None | v # vs \<Rightarrow> Some v)"
proof (cases "content q")
  case Nil
  then show ?thesis by (simp add: pop_empty)
next
  case (Cons v vs)
  then show ?thesis using pop_nonempty [OF Cons] by auto
qed

lemma content_pop: "content (snd (pop q)) = tl (content q)"
proof (cases "content q")
  case Nil
  then show ?thesis by (simp add: pop_empty)
next
  case (Cons v vs)
  then show ?thesis using pop_nonempty [OF Cons] by auto
qed

lemma content_pops: "content (((\<lambda>q. snd (pop q)) ^^ n) q) = drop n (content q)"
  by (induction n) (simp_all add: content_pop drop_Suc tl_drop)

lemma pushed_is_popped:
  assumes "n < length vs" "content q = []"
  shows "fst (pop (((\<lambda>q. snd (pop q)) ^^ n) (fold push vs q))) = Some (vs ! n)"
  using assms by (simp add: pop_cases content_pops content_push_all Cons_nth_drop_Suc [symmetric])

end

interpretation tsq: fifo queue_push queue_tryPop "\<lambda>q. q"
  by unfold_locales (auto simp: queue_push_def queue_tryPop_def split: list.splits)

section \<open>Invariants of the concurrent queue\<close>

text \<open>
  No wake-up is lost: while a thread waits, every element has a woken thread that is going to look at
  the queue.
\<close>

definition tsq_inv :: "'a tsq \<Rightarrow> bool" where
  "tsq_inv s \<longleftrightarrow> finite (woken s) \<and> waiting s \<inter> woken s = {} \<and>
     (waiting s \<noteq> {} \<longrightarrow> length (items s) \<le> card (woken s))"

lemma tryPop_Some_iff: "queue_tryPop q = (Some v, q') \<longleftrightarrow> q = v # q'"
  by (auto simp: queue_tryPop_def split: list.splits)

lemma tryPop_None_iff: "queue_tryPop q = (None, q') \<longleftrightarrow> q = [] \<and> q' = []"
  by (auto simp: queue_tryPop_def split: list.splits)

lemma queue_empty_iff: "queue_empty q \<longleftrightarrow> q = []"
  by (auto simp: queue_empty_def split: list.splits)

lemmas queue_simps = tryPop_Some_iff tryPop_None_iff queue_empty_iff queue_push_def tsq_leave_def

lemma tsq_inv_init: "tsq_inv tsq_init"
  by (simp add: tsq_inv_def tsq_init_def)

lemma tsq_inv_step: "tsq_step s e s' \<Longrightarrow> tsq_inv s \<Longrightarrow> tsq_inv s'"
  by (erule tsq_stepE) (auto simp: tsq_inv_def queue_simps card_insert_if card_Diff_singleton_if)

lemma tsq_inv_run: "tsq_run s es s' \<Longrightarrow> tsq_inv s \<Longrightarrow> tsq_inv s'"
  by (induction rule: tsq_run.induct) (auto intro: tsq_inv_step)

fun pushes :: "'a queue_event list \<Rightarrow> 'a list" where
  "pushes [] = []"
| "pushes (Ev_push v # es) = v # pushes es"
| "pushes (_ # es) = pushes es"

fun gots :: "'a queue_event list \<Rightarrow> 'a list" where
  "gots [] = []"
| "gots (Ev_got t v # es) = v # gots es"
| "gots (_ # es) = gots es"

lemma pushes_append: "pushes (es @ fs) = pushes es @ pushes fs"
  by (induction es rule: pushes.induct) auto

lemma gots_append: "gots (es @ fs) = gots es @ gots fs"
  by (induction es rule: gots.induct) auto

lemma tsq_step_fifo:
  "tsq_step s e s' \<Longrightarrow> e \<noteq> Ev_clear \<Longrightarrow> items s @ pushes [e] = gots [e] @ items s'"
  by (erule tsq_stepE) (auto simp: queue_simps)

lemma tsq_run_fifo:
  "tsq_run s es s' \<Longrightarrow> Ev_clear \<notin> set es \<Longrightarrow> items s @ pushes es = gots es @ items s'"
proof (induction rule: tsq_run.induct)
  case (run_nil s)
  then show ?case by simp
next
  case (run_step s es s' e s'')
  then have "items s @ pushes (es @ [e]) = gots es @ items s' @ pushes [e]"
    by (simp add: pushes_append)
  also have "\<dots> = gots (es @ [e]) @ items s''"
    using tsq_step_fifo [OF run_step.hyps(2)] run_step.prems by (auto simp: gots_append)
  finally show ?case .
qed

section \<open>Properties\<close>

text \<open>
  C24. First in, first out, nothing lost and nothing twice: in every interleaving of pushes, blocking,
  timed and non-blocking pops of any number of threads from the empty queue, without \<open>clear\<close>, the
  values delivered so far followed by the values still queued are the values pushed, in that order.
\<close>

theorem queue_fifo:
  assumes "tsq_run tsq_init es s" "Ev_clear \<notin> set es"
  shows "pushes es = gots es @ items s"
  using tsq_run_fifo [OF assms] by (simp add: tsq_init_def)

lemma example_run:
  "tsq_run tsq_init [Ev_sched, Ev_push (7 :: nat), Ev_push 8, Ev_got 1 7]
     \<lparr> items = [8], waiting = {}, woken = {} \<rparr>"
proof -
  have 1: "tsq_step tsq_init Ev_sched \<lparr> items = [], waiting = {1}, woken = {} \<rparr>"
    using pop_block [of tsq_init 1] by (simp add: tsq_init_def queue_simps)
  have 2: "tsq_step \<lparr> items = [], waiting = {1}, woken = {} \<rparr> (Ev_push (7::nat))
      \<lparr> items = [7], waiting = {}, woken = {1} \<rparr>"
    using push_notify [of 1 "\<lparr> items = [], waiting = {1}, woken = {} \<rparr>"]
    by (simp add: queue_simps)
  have 3: "tsq_step \<lparr> items = [7], waiting = {}, woken = {1} \<rparr> (Ev_push (8::nat))
      \<lparr> items = [7, 8], waiting = {}, woken = {1} \<rparr>"
    using push_alone [of "\<lparr> items = [7], waiting = {}, woken = {1} \<rparr>"]
    by (simp add: queue_simps)
  have 4: "tsq_step \<lparr> items = [7, 8], waiting = {}, woken = {1} \<rparr> (Ev_got 1 (7::nat))
      \<lparr> items = [8], waiting = {}, woken = {} \<rparr>"
    using wake_take [of 1 "\<lparr> items = [7, 8], waiting = {}, woken = {1} \<rparr>" 7 "[8]"]
    by (simp add: queue_simps)
  show ?thesis
    using run_step [OF run_step [OF run_step [OF run_step [OF run_nil 1] 2] 3] 4] by simp
qed

lemma queue_fifo_witness:
  "pushes [Ev_sched, Ev_push (7 :: nat), Ev_push 8, Ev_got 1 7] = [7] @ [8]"
  using queue_fifo [OF example_run] by simp

text \<open>
  C25. No lost wake-up: in every interleaving of \<open>push\<close>, \<open>tryPop\<close>, \<open>pop\<close>, \<open>popTimeout\<close> and \<open>clear\<close>,
  while some thread waits on the condition variable there are at least as many notified threads on
  their way to the queue as there are elements in it, so no element sits in the queue with every
  consumer asleep.
\<close>

theorem queue_no_lost_wakeup:
  assumes "tsq_run tsq_init es s" "waiting s \<noteq> {}"
  shows "length (items s) \<le> card (woken s) \<and> waiting s \<inter> woken s = {}"
  using tsq_inv_run [OF assms(1) tsq_inv_init] assms(2) by (simp add: tsq_inv_def)

lemma queue_no_lost_wakeup_witness:
  "length (items \<lparr> items = [] :: nat list, waiting = {1}, woken = {} \<rparr>) \<le> 0"
proof -
  have "tsq_step tsq_init Ev_sched \<lparr> items = [] :: nat list, waiting = {1}, woken = {} \<rparr>"
    using pop_block [of tsq_init 1] by (simp add: tsq_init_def queue_simps)
  then have "tsq_run tsq_init [Ev_sched] \<lparr> items = [] :: nat list, waiting = {1}, woken = {} \<rparr>"
    using run_step [OF run_nil] by fastforce
  from queue_no_lost_wakeup [OF this] show ?thesis by simp
qed

text \<open>
  \<open>popUntil\<close> breaks that guarantee: a thread that is notified after its deadline leaves the element
  in the queue without passing the notification on, so a program that uses it can reach a state in
  which an element is queued, another consumer is blocked in \<open>pop\<close> and no thread is going to wake it.
\<close>

theorem queue_popUntil_loses_wakeup:
  "\<exists>s :: nat tsq. tsq_run_until tsq_init s \<and> items s \<noteq> [] \<and> waiting s \<noteq> {} \<and> woken s = {}"
proof -
  have 1: "tsq_step_until tsq_init Ev_sched \<lparr> items = [] :: nat list, waiting = {1}, woken = {} \<rparr>"
    using plain [OF pop_block [of tsq_init 1]] by (simp add: tsq_init_def queue_simps)
  have 2: "tsq_step_until \<lparr> items = [] :: nat list, waiting = {1}, woken = {} \<rparr> Ev_sched
      \<lparr> items = [], waiting = {1, 2}, woken = {} \<rparr>"
    using plain [OF pop_block [of "\<lparr> items = [] :: nat list, waiting = {1}, woken = {} \<rparr>" 2]]
    by (simp add: queue_simps insert_commute)
  have 3: "tsq_step_until \<lparr> items = [] :: nat list, waiting = {1, 2}, woken = {} \<rparr> (Ev_push 7)
      \<lparr> items = [7], waiting = {2}, woken = {1} \<rparr>"
    using plain [OF push_notify [of 1 "\<lparr> items = [] :: nat list, waiting = {1, 2}, woken = {} \<rparr>" 7]]
    by (simp add: queue_simps insert_Diff_if)
  have 4: "tsq_step_until \<lparr> items = [7 :: nat], waiting = {2}, woken = {1} \<rparr> (Ev_none 1)
      \<lparr> items = [7], waiting = {2}, woken = {} \<rparr>"
    using late [of 1 "\<lparr> items = [7 :: nat], waiting = {2}, woken = {1} \<rparr>" "[7]"]
    by (simp add: queue_simps queue_popUntil_def)
  have "tsq_run_until tsq_init \<lparr> items = [7 :: nat], waiting = {2}, woken = {} \<rparr>"
    using until_step [OF until_step [OF until_step [OF until_step [OF until_nil 1] 2] 3] 4] .
  then show ?thesis by fastforce
qed

end
