(* ===== verification/Device.thy ===== *)
theory Device imports JsonText SafeQueue begin

text \<open>
  The devices of the robot (\<open>device.hpp\<close>, \<open>device_mqtt.hpp\<close>, \<open>device_mqtt.cpp\<close>): their action tables and
  every action as a function from the device, its arguments and, for the two actions that wait for
  telemetry, what each turn of the waiting loop observes, to the result, the device afterwards and the
  effects in order.  Publishing is an effect: the code only logs a failed \<open>mosquitto_publish\<close>.
\<close>

section \<open>Effects\<close>

datatype effect =
    Publish string string nat bool
  | Sleep int
  | Subscribe_thread string nat string

text \<open>\<open>mqtt_pub\<close>: quality of service 2, not retained.\<close>

definition mqtt_pub :: "string \<Rightarrow> string \<Rightarrow> effect" where
  "mqtt_pub topic payload = Publish (c_str topic) payload 2 False"

section \<open>The moving body\<close>

text \<open>The enumeration of \<open>action_body_mqtt\<close>.\<close>

abbreviation (input) "BODY_INIT \<equiv> (-1 :: int)"
abbreviation (input) "RUNNING \<equiv> (0 :: int)"
abbreviation (input) "STOPPED \<equiv> (1 :: int)"
abbreviation (input) "REQ_STOP \<equiv> (2 :: int)"

record action_body =
  robot_id :: string
  robot_heart_topic :: string
  robot_motor_topic :: string
  robot_position_topic :: string
  robot_version_topic :: string
  robot_sensors_topic :: string
  robot_led_topic :: string
  robot_battery_topic :: string
  robot_warning_topic :: string
  robot_ctrl_move_topic :: string
  robot_ctrl_other_topic :: string
  body_request :: int
  body_status :: int
  heart_thread_exit :: bool
  send_heart :: bool

definition new_action_body :: "string \<Rightarrow> action_body" where
  "new_action_body ident = \<lparr>
     robot_id = ident,
     robot_heart_topic = ''/Robot/Heart/'' @ ident,
     robot_motor_topic = ''/Robot/Motor/'' @ ident,
     robot_position_topic = ''/Robot/Position/'' @ ident,
     robot_version_topic = ''/Robot/Version/'' @ ident,
     robot_sensors_topic = ''/Robot/Sensors/'' @ ident,
     robot_led_topic = ''/Robot/Led/'' @ ident,
     robot_battery_topic = ''/Robot/Battery/'' @ ident,
     robot_warning_topic = ''/Robot/Warning/'' @ ident,
     robot_ctrl_move_topic = ''/Robot/CtrlMove/'' @ ident,
     robot_ctrl_other_topic = ''/Robot/CtrlOther/'' @ ident,
     body_request = BODY_INIT,
     body_status = STOPPED,
     heart_thread_exit = False,
     send_heart = False \<rparr>"

text \<open>One turn of the heartbeat thread after its two seconds of sleep: None ends the thread.\<close>

definition heart_turn :: "int \<Rightarrow> action_body \<Rightarrow> effect list option" where
  "heart_turn now_ms b =
     (if heart_thread_exit b then None
      else if \<not> send_heart b then Some [Sleep 2000]
      else Some [Sleep 2000,
             mqtt_pub (robot_heart_topic b) (''{'' @ [CHR 0x22] @ ''ts'' @ [CHR 0x22] @ '': '' @ dec_string now_ms @ '' }'')])"

type_synonym 'd action_result = "json res \<times> 'd \<times> effect list"

text \<open>The text of a command: the arguments with the field \<open>action\<close>.\<close>

definition command_payload :: "json \<Rightarrow> int \<Rightarrow> string res" where
  "command_payload args n = rbind (json_set args ''action'' (J_integer n)) (json_dump (-1))"

text \<open>The shape the simple commands share: build the text, set the heartbeat flag, publish, sleep.\<close>

definition body_command ::
  "(action_body \<Rightarrow> string) \<Rightarrow> int \<Rightarrow> bool option \<Rightarrow> effect list \<Rightarrow> action_body \<Rightarrow> json \<Rightarrow> action_body action_result" where
  "body_command topic n heart after b args = (case command_payload args n of
      Inl e \<Rightarrow> (Inl e, b, [])
    | Inr payload \<Rightarrow>
        (Inr J_null, (case heart of None \<Rightarrow> b | Some h \<Rightarrow> b\<lparr> send_heart := h \<rparr>),
         mqtt_pub (topic b) payload # after))"

definition stop_move :: "action_body \<Rightarrow> json \<Rightarrow> action_body action_result" where
  "stop_move = body_command robot_ctrl_move_topic 0 (Some False) []"

definition speed_front_move :: "action_body \<Rightarrow> json \<Rightarrow> action_body action_result" where
  "speed_front_move = body_command robot_ctrl_move_topic 1 (Some True) []"

definition speed_back_move :: "action_body \<Rightarrow> json \<Rightarrow> action_body action_result" where
  "speed_back_move = body_command robot_ctrl_move_topic 2 (Some True) []"

definition motor_reset :: "action_body \<Rightarrow> json \<Rightarrow> action_body action_result" where
  "motor_reset = body_command robot_ctrl_move_topic 5 (Some False) []"

definition body_restart :: "action_body \<Rightarrow> json \<Rightarrow> action_body action_result" where
  "body_restart = body_command robot_ctrl_move_topic 6 (Some False) [Sleep 10000]"

definition set_current_location :: "action_body \<Rightarrow> json \<Rightarrow> action_body action_result" where
  "set_current_location = body_command robot_ctrl_move_topic 7 None []"

definition set_ultrasonic_switch :: "action_body \<Rightarrow> json \<Rightarrow> action_body action_result" where
  "set_ultrasonic_switch = body_command robot_ctrl_move_topic 8 None []"

definition poweroff :: "action_body \<Rightarrow> json \<Rightarrow> action_body action_result" where
  "poweroff = body_command robot_ctrl_move_topic 9 (Some False) []"

definition set_front_light :: "action_body \<Rightarrow> json \<Rightarrow> action_body action_result" where
  "set_front_light = body_command robot_ctrl_other_topic 1 None []"

definition set_back_light :: "action_body \<Rightarrow> json \<Rightarrow> action_body action_result" where
  "set_back_light = body_command robot_ctrl_other_topic 2 None []"

definition set_volume :: "action_body \<Rightarrow> json \<Rightarrow> action_body action_result" where
  "set_volume = body_command robot_ctrl_other_topic 3 None []"

definition body_wait :: "action_body \<Rightarrow> json \<Rightarrow> action_body action_result" where
  "body_wait b args = (case rbind (json_at args ''arg'') get_int of
      Inl e \<Rightarrow> (Inl e, b, [])
    | Inr ms \<Rightarrow> (Inr J_null, b, [Sleep ms]))"

section \<open>Waiting for telemetry\<close>

text \<open>
  The object shared with the subscriber thread, and its message callback: a message is queued when more
  than \<open>limit\<close> whole seconds have passed since the last one queued (times in nanoseconds); the result 1
  ends the subscription.
\<close>

record mos_obj =
  msg_queue :: "string list"
  last_recv_time :: int
  mos_done :: bool

definition telemetry_callback :: "int \<Rightarrow> int \<Rightarrow> string \<Rightarrow> mos_obj \<Rightarrow> int \<times> mos_obj" where
  "telemetry_callback limit now payload obj =
     (let elapsed = (now - last_recv_time obj) div 1000000000;
          obj' = (if elapsed > limit
                  then obj\<lparr> msg_queue := queue_push payload (msg_queue obj), last_recv_time := now \<rparr>
                  else obj)
      in (if mos_done obj' then 1 else 0, obj'))"

text \<open>
  What one turn of a waiting loop observes: the request and the status it loads and the outcome of
  \<open>popTimeout\<close>.
\<close>

record turn =
  seen_request :: int
  seen_status :: int
  popped :: "string option"

definition position_text :: "int \<Rightarrow> string" where
  "position_text n = ''{'' @ [CHR 0x22] @ ''position'' @ [CHR 0x22] @ '': '' @ dec_string n"

text \<open>The loop of \<open>location_speed_move\<close>; None while it is still waiting after the given turns.\<close>

fun location_loop :: "turn list \<Rightarrow> int \<Rightarrow> json res option" where
  "location_loop [] current = None"
| "location_loop (i # is) current =
     (if seen_request i = REQ_STOP then
        Some (json_parse (position_text current @ '','' @ [CHR 0x22] @ ''emergency_stop'' @ [CHR 0x22] @ '': true}''))
      else if seen_status i = RUNNING then
        (case popped i of
           None \<Rightarrow> location_loop is current
         | Some payload \<Rightarrow>
             (case rbind (json_parse_cstr payload) (\<lambda>m.
                     rbind (rbind (json_at m ''position'') get_int) (\<lambda>p.
                       rbind (rbind (json_at m ''posista'') get_int) (\<lambda>s. Inr (p, s)))) of
                Inl e \<Rightarrow> Some (Inl e)
              | Inr (p, s) \<Rightarrow>
                  if s \<noteq> 0 then Some (json_parse (position_text p @ ''}''))
                  else location_loop is p))
      else location_loop is current)"

text \<open>
  The outcome of a waiting action: the status is reset on every normal exit, and only there.
\<close>

definition finish_move :: "action_body \<Rightarrow> effect list \<Rightarrow> json res option \<Rightarrow> action_body action_result option" where
  "finish_move b effs r = (case r of
      None \<Rightarrow> None
    | Some (Inl e) \<Rightarrow> Some (Inl e, b, effs)
    | Some (Inr j) \<Rightarrow> Some (Inr j, b\<lparr> body_status := STOPPED \<rparr>, effs))"

definition location_speed_move :: "turn list \<Rightarrow> action_body \<Rightarrow> json \<Rightarrow> action_body action_result option" where
  "location_speed_move turns b0 args =
     (let b = b0\<lparr> body_status := RUNNING \<rparr> in
      case json_set args ''action'' (J_integer 3) of
        Inl e \<Rightarrow> Some (Inl e, b, [])
      | Inr command \<Rightarrow> (case json_dump (-1) command of
          Inl e \<Rightarrow> Some (Inl e, b, [])
        | Inr payload \<Rightarrow>
            (let effs = [mqtt_pub (robot_ctrl_move_topic b) payload, Sleep 1000] in
             case rbind (json_at command ''arg'') (\<lambda>a. rbind (json_at a ''position'') get_int) of
               Inl e \<Rightarrow> Some (Inl e, b, effs)
             | Inr target \<Rightarrow>
                 finish_move b (effs @ [Subscribe_thread (c_str (robot_position_topic b)) 0 ''SSGetPosition''])
                   (location_loop turns 0))))"

text \<open>The literal \<open>0.001\<close>, as the nearest double.\<close>

definition battery_tolerance :: double where
  "battery_tolerance = round_double False (1 / 1000)"

fun batteries_full :: "json list \<Rightarrow> int \<Rightarrow> int res" where
  "batteries_full [] all_full = Inr all_full"
| "batteries_full (x # xs) all_full =
     rbind (rbind (json_at x ''NomCap'') get_double) (\<lambda>nom.
     rbind (rbind (json_at x ''RemCap'') get_double) (\<lambda>rem.
       batteries_full xs
         (if d_le (d_abs (d_sub nom rem)) battery_tolerance then (if odd all_full then 1 else 0) else 0)))"

fun charge_loop :: "turn list \<Rightarrow> json res option" where
  "charge_loop [] = None"
| "charge_loop (i # is) =
     (if seen_request i = REQ_STOP then
        Some (json_parse (''{'' @ [CHR 0x22] @ ''emergency_stop'' @ [CHR 0x22] @ '': true}''))
      else if seen_status i = RUNNING then
        (case popped i of
           None \<Rightarrow> charge_loop is
         | Some payload \<Rightarrow>
             (case rbind (json_parse_cstr payload) (\<lambda>m.
                     rbind (json_at m ''BatteryPack'') (\<lambda>a. batteries_full (json_items a) 1)) of
                Inl e \<Rightarrow> Some (Inl e)
              | Inr full \<Rightarrow>
                  if full = 1 then Some (json_parse (''{'' @ [CHR 0x22] @ ''battery_full'' @ [CHR 0x22] @ '': true}''))
                  else charge_loop is))
      else charge_loop is)"

definition to_charge :: "turn list \<Rightarrow> action_body \<Rightarrow> json \<Rightarrow> action_body action_result option" where
  "to_charge turns b0 args =
     (let b = b0\<lparr> body_status := RUNNING \<rparr> in
      case command_payload args 4 of
        Inl e \<Rightarrow> Some (Inl e, b, [])
      | Inr payload \<Rightarrow>
          (let b1 = b\<lparr> send_heart := False \<rparr> in
           finish_move b1
             [mqtt_pub (robot_ctrl_move_topic b1) payload,
              Subscribe_thread (c_str (robot_battery_topic b1)) 0 ''SSGetBattery'']
             (charge_loop turns)))"

section \<open>The pan-tilt head and the pad\<close>

record ptz =
  ptz_id :: string
  pantilt_ctrl_topic :: string
  pantilt_status_topic :: string
  pantilt_version_topic :: string

definition new_ptz :: "string \<Rightarrow> ptz" where
  "new_ptz ident = \<lparr>
     ptz_id = ident,
     pantilt_ctrl_topic = ''/PanTilt/Ctrl/'' @ ident,
     pantilt_status_topic = ''/PanTilt/BasicState/'' @ ident,
     pantilt_version_topic = ''/PanTilt/Version/'' @ ident \<rparr>"

text \<open>The commands of the devices without state: build the text, publish, sleep.\<close>

definition plain_command :: "string \<Rightarrow> int \<Rightarrow> effect list \<Rightarrow> json \<Rightarrow> json res \<times> effect list" where
  "plain_command topic n after args = (case command_payload args n of
      Inl e \<Rightarrow> (Inl e, [])
    | Inr payload \<Rightarrow> (Inr J_null, mqtt_pub topic payload # after))"

definition set_xyz :: "ptz \<Rightarrow> json \<Rightarrow> json res \<times> effect list" where
  "set_xyz p = plain_command (pantilt_ctrl_topic p) 1 [Sleep 4000]"

definition set_lamp :: "ptz \<Rightarrow> json \<Rightarrow> json res \<times> effect list" where
  "set_lamp p = plain_command (pantilt_ctrl_topic p) 2 []"

definition ptz_restart :: "ptz \<Rightarrow> json \<Rightarrow> json res \<times> effect list" where
  "ptz_restart p = plain_command (pantilt_ctrl_topic p) 3 [Sleep 5000]"

definition adjust :: "ptz \<Rightarrow> json \<Rightarrow> json res \<times> effect list" where
  "adjust p = plain_command (pantilt_ctrl_topic p) 4 [Sleep 5000]"

record pad =
  track_robot :: action_body
  pad_id :: string
  pad_ctrl_topic :: string
  pad_status_topic :: string

definition new_pad :: "string \<Rightarrow> pad" where
  "new_pad ident = \<lparr>
     track_robot = new_action_body ident,
     pad_id = ident,
     pad_ctrl_topic = ''/Pad/Ctrl/'' @ ident,
     pad_status_topic = ''/Pad/Status/'' @ ident \<rparr>"

definition set_left_servo :: "pad \<Rightarrow> json \<Rightarrow> json res \<times> effect list" where
  "set_left_servo p = plain_command (pad_ctrl_topic p) 1 [Sleep 1000]"

definition set_right_servo :: "pad \<Rightarrow> json \<Rightarrow> json res \<times> effect list" where
  "set_right_servo p = plain_command (pad_ctrl_topic p) 2 [Sleep 1000]"

definition set_left_lamp :: "pad \<Rightarrow> json \<Rightarrow> json res \<times> effect list" where
  "set_left_lamp p = plain_command (pad_ctrl_topic p) 3 []"

definition set_right_lamp :: "pad \<Rightarrow> json \<Rightarrow> json res \<times> effect list" where
  "set_right_lamp p = plain_command (pad_ctrl_topic p) 4 []"

text \<open>
  The camera's actions report their arguments and the name of the function, the compiler's
  \<open>__PRETTY_FUNCTION__\<close> string, an argument here.
\<close>

definition camera_report :: "string \<Rightarrow> json \<Rightarrow> json res" where
  "camera_report pretty args =
     rbind (json_set J_null ''__PRETTY_FUNCTION__'' (J_string pretty)) (\<lambda>r. json_set r ''args'' args)"

section \<open>Action tables\<close>

datatype body_action =
    Stop_move | Speed_front_move | Speed_back_move | Location_speed_move | To_charge | Motor_reset
  | Restart | Set_current_location | Set_ultrasonic_switch | Poweroff | Set_front_light
  | Set_back_light | Set_volume | Wait

datatype ptz_action = Set_xyz | Set_lamp | Ptz_restart | Adjust

datatype pad_action = Set_left_servo | Set_right_servo | Set_left_lamp | Set_right_lamp

datatype camera_action = Detect_bolt | Detect_meter | Detect_pull_rod

datatype action_fn =
    Body_fn body_action | Ptz_fn ptz_action | Pad_fn pad_action | Camera_fn camera_action

text \<open>A \<open>std::map\<close> built from an initializer list, and \<open>at\<close> on it.\<close>

definition map_of_init :: "('k::linorder \<times> 'v) list \<Rightarrow> ('k, 'v) smap" where
  "map_of_init kvs = fold (\<lambda>kv m. sm_emplace (fst kv) (snd kv) m) kvs []"

definition map_at :: "('k::linorder, 'v) smap \<Rightarrow> 'k \<Rightarrow> 'v res" where
  "map_at m k = (case map_of m k of Some v \<Rightarrow> Inr v | None \<Rightarrow> Inl Std_out_of_range)"

definition body_action_map :: "(string, body_action) smap" where
  "body_action_map = map_of_init
     [(''0'', Stop_move), (''1'', Speed_front_move), (''2'', Speed_back_move),
      (''TrackRobotMovePosition'', Location_speed_move), (''TrackRobotCharge'', To_charge),
      (''5'', Motor_reset), (''6'', Restart), (''7'', Set_current_location),
      (''8'', Set_ultrasonic_switch), (''9'', Poweroff), (''TrackRobotCtrlPreLed'', Set_front_light),
      (''TrackRobotCtrlBackLed'', Set_back_light), (''12'', Set_volume), (''Wait'', Wait)]"

definition ptz_action_map :: "(string, ptz_action) smap" where
  "ptz_action_map = map_of_init
     [(''PanTiltCtrl'', Set_xyz), (''PanTiltCtrlLed'', Set_lamp), (''3'', Ptz_restart), (''4'', Adjust)]"

definition pad_action_map :: "(string, pad_action) smap" where
  "pad_action_map = map_of_init
     [(''PadCtrlLeftServoMotor'', Set_left_servo), (''PadCtrlRightServoMotor'', Set_right_servo),
      (''PadCtrlLeftLight'', Set_left_lamp), (''PadCtrlRightLight'', Set_right_lamp)]"

definition camera_action_map :: "(string, camera_action) smap" where
  "camera_action_map = map_of_init
     [(''1'', Detect_bolt), (''2'', Detect_meter), (''3'', Detect_pull_rod)]"

datatype device =
    Dev_body action_body
  | Dev_ptz ptz
  | Dev_pad pad
  | Dev_camera

text \<open>\<open>get_action\<close>: a pad asks its track robot first and falls back to its own table.\<close>

definition get_action :: "device \<Rightarrow> string \<Rightarrow> action_fn res" where
  "get_action d code = (case d of
      Dev_body b \<Rightarrow> rbind (map_at body_action_map code) (\<lambda>a. Inr (Body_fn a))
    | Dev_ptz p \<Rightarrow> rbind (map_at ptz_action_map code) (\<lambda>a. Inr (Ptz_fn a))
    | Dev_pad p \<Rightarrow> (case map_at body_action_map code of
          Inr a \<Rightarrow> Inr (Body_fn a)
        | Inl _ \<Rightarrow> rbind (map_at pad_action_map code) (\<lambda>a. Inr (Pad_fn a)))
    | Dev_camera \<Rightarrow> rbind (map_at camera_action_map code) (\<lambda>a. Inr (Camera_fn a)))"

definition run_body_action ::
  "body_action \<Rightarrow> turn list \<Rightarrow> action_body \<Rightarrow> json \<Rightarrow> action_body action_result option" where
  "run_body_action a turns b args = (case a of
      Stop_move \<Rightarrow> Some (stop_move b args)
    | Speed_front_move \<Rightarrow> Some (speed_front_move b args)
    | Speed_back_move \<Rightarrow> Some (speed_back_move b args)
    | Location_speed_move \<Rightarrow> location_speed_move turns b args
    | To_charge \<Rightarrow> to_charge turns b args
    | Motor_reset \<Rightarrow> Some (motor_reset b args)
    | Restart \<Rightarrow> Some (body_restart b args)
    | Set_current_location \<Rightarrow> Some (set_current_location b args)
    | Set_ultrasonic_switch \<Rightarrow> Some (set_ultrasonic_switch b args)
    | Poweroff \<Rightarrow> Some (poweroff b args)
    | Set_front_light \<Rightarrow> Some (set_front_light b args)
    | Set_back_light \<Rightarrow> Some (set_back_light b args)
    | Set_volume \<Rightarrow> Some (set_volume b args)
    | Wait \<Rightarrow> Some (body_wait b args))"

definition run_ptz_action :: "ptz_action \<Rightarrow> ptz \<Rightarrow> json \<Rightarrow> json res \<times> effect list" where
  "run_ptz_action a = (case a of
      Set_xyz \<Rightarrow> set_xyz | Set_lamp \<Rightarrow> set_lamp | Ptz_restart \<Rightarrow> ptz_restart | Adjust \<Rightarrow> adjust)"

definition run_pad_action :: "pad_action \<Rightarrow> pad \<Rightarrow> json \<Rightarrow> json res \<times> effect list" where
  "run_pad_action a = (case a of
      Set_left_servo \<Rightarrow> set_left_servo | Set_right_servo \<Rightarrow> set_right_servo
    | Set_left_lamp \<Rightarrow> set_left_lamp | Set_right_lamp \<Rightarrow> set_right_lamp)"

text \<open>
  Calling the function \<open>get_action\<close> returned: it is bound to the device (or, on a pad, to the track
  robot).  The functions a table can return are those of the device's kind.
\<close>

definition run_action ::
  "(camera_action \<Rightarrow> string) \<Rightarrow> turn list \<Rightarrow> device \<Rightarrow> action_fn \<Rightarrow> json \<Rightarrow> device action_result option" where
  "run_action pretty turns d fn args = (case (d, fn) of
      (Dev_body b, Body_fn a) \<Rightarrow>
        map_option (\<lambda>(r, b', es). (r, Dev_body b', es)) (run_body_action a turns b args)
    | (Dev_pad p, Body_fn a) \<Rightarrow>
        map_option (\<lambda>(r, b', es). (r, Dev_pad (p\<lparr> track_robot := b' \<rparr>), es))
          (run_body_action a turns (track_robot p) args)
    | (Dev_pad p, Pad_fn a) \<Rightarrow> (case run_pad_action a p args of (r, es) \<Rightarrow> Some (r, d, es))
    | (Dev_ptz p, Ptz_fn a) \<Rightarrow> (case run_ptz_action a p args of (r, es) \<Rightarrow> Some (r, d, es))
    | (Dev_camera, Camera_fn a) \<Rightarrow> Some (camera_report (pretty a) args, d, [])
    | _ \<Rightarrow> Some (Inl Undefined_behaviour, d, []))"

text \<open>
  \<open>stop()\<close>: only \<open>action_body_mqtt\<close> overrides the empty function of the base class.  The result names the
  body whose wait the call interrupts (theory \<open>StopProtocol\<close>).
\<close>

definition stop_target :: "device \<Rightarrow> action_body option" where
  "stop_target d = (case d of Dev_body b \<Rightarrow> Some b | _ \<Rightarrow> None)"

section \<open>Facts\<close>

lemma sm_inv_map_of_init: "sm_inv (map_of_init kvs)"
proof -
  have "sm_inv m \<Longrightarrow> sm_inv (fold (\<lambda>kv m. sm_emplace (fst kv) (snd kv) m) kvs m)" for m
    by (induction kvs arbitrary: m) auto
  then show ?thesis by (simp add: map_of_init_def)
qed

lemma dump_value_error:
  "dump_value p ea step cur j = Inl e \<Longrightarrow> e = Json_type_error 316"
  "dump_elements p ea step cur xs = Inl e \<Longrightarrow> e = Json_type_error 316"
  "dump_members p ea step cur m = Inl e \<Longrightarrow> e = Json_type_error 316"
proof (induction p ea step cur j and p ea step cur xs and p ea step cur m
    rule: dump_value_dump_elements_dump_members.induct)
qed (auto simp: rbind_eq_Inl dump_escaped_ref Let_def split: if_splits dest: escape_ref_error)

lemma json_dump_error: "json_dump n j = Inl e \<Longrightarrow> e = Json_type_error 316"
  by (auto simp: json_dump_def split: if_splits dest: dump_value_error)

lemma command_payload_error:
  "command_payload args n = Inl e \<Longrightarrow> e = Json_type_error 305 \<or> e = Json_type_error 316"
  by (auto simp: command_payload_def rbind_eq_Inl json_set_def json_ref_def
      split: json.splits dest: json_dump_error)

section \<open>Telemetry texts\<close>

lemma scan_key: "CHR 0x22 \<notin> set k \<Longrightarrow> CHR 0x5C \<notin> set k \<Longrightarrow> (\<forall>c\<in>set k. 0x20 \<le> ord c \<and> ord c \<le> 0x7F) \<Longrightarrow>
  scan (CHR 0x22 # k @ CHR 0x22 # x) = (T_string k, x)"
proof -
  have "CHR 0x22 \<notin> set k \<Longrightarrow> CHR 0x5C \<notin> set k \<Longrightarrow> (\<forall>c\<in>set k. 0x20 \<le> ord c \<and> ord c \<le> 0x7F) \<Longrightarrow>
    scan_string (k @ CHR 0x22 # x) = Inr (k, x)"
    by (induction k) (auto simp: scan_char_def utf8_ranges_def)
  then show "CHR 0x22 \<notin> set k \<Longrightarrow> CHR 0x5C \<notin> set k \<Longrightarrow> (\<forall>c\<in>set k. 0x20 \<le> ord c \<and> ord c \<le> 0x7F) \<Longrightarrow>
    scan (CHR 0x22 # k @ CHR 0x22 # x) = (T_string k, x)"
    by (simp add: scan_def scan_token_def is_ws_def)
qed

lemma scan_dec_string:
  assumes "value_stop x" "-9223372036854775808 \<le> i" "i \<le> 18446744073709551615"
  shows "scan (dec_string i @ x) = (if 0 \<le> i then T_unsigned i else T_integer i, x)"
  using scan_dec_nat [OF assms(1), of "nat i"] scan_dec_neg [OF assms(1,2)] assms(3)
  by (auto simp: dec_string_def)

lemma sax_dec_string:
  "sax_value (if 0 \<le> i then T_unsigned i else T_integer i) x fs = sax_state (json_norm (J_integer i)) x fs"
  by (simp add: sax_value.simps)

lemma scan_true: "scan (CHR ''t'' # CHR ''r'' # CHR ''u'' # CHR ''e'' # s) = (T_true, s)"
  using scan_bool [of True s] by simp

lemma parse_position:
  assumes "is_int32 p"
  shows "json_parse (position_text p @ ''}'') = Inr (J_object [(''position'', json_norm (J_integer p))])"
proof -
  have p: "scan (dec_string p @ ''}'') = (if 0 \<le> p then T_unsigned p else T_integer p, ''}'')"
    using scan_dec_string [of "''}''" p] assms by (simp add: is_int32_def)
  have k: "scan (CHR 0x22 # ''position'' @ CHR 0x22 # x) = (T_string ''position'', x)" for x
    by (rule scan_key) auto
  show ?thesis
    using p k [of "'': '' @ dec_string p @ ''}''"] sax_dec_string [of p "''}''"]
    by (simp add: position_text_def json_parse_def skip_bom_def sax_value.simps scan_member_def
        sax_state.simps scan_def [of "[]"] del: json_norm.simps)
qed

lemma parse_position_stop:
  assumes "is_int32 p"
  shows "json_parse (position_text p @ '','' @ [CHR 0x22] @ ''emergency_stop'' @ [CHR 0x22] @ '': true}'') =
    Inr (J_object [(''emergency_stop'', J_boolean True), (''position'', json_norm (J_integer p))])"
proof -
  let ?t = "'','' @ [CHR 0x22] @ ''emergency_stop'' @ [CHR 0x22] @ '': true}''"
  have p: "scan (dec_string p @ ?t) = (if 0 \<le> p then T_unsigned p else T_integer p, ?t)"
    using scan_dec_string [of ?t p] assms by (simp add: is_int32_def)
  have k: "scan (CHR 0x22 # ''position'' @ CHR 0x22 # x) = (T_string ''position'', x)" for x
    by (rule scan_key) auto
  have e: "scan (CHR 0x22 # ''emergency_stop'' @ CHR 0x22 # x) = (T_string ''emergency_stop'', x)" for x
    by (rule scan_key) auto
  show ?thesis
    using p k [of "'': '' @ dec_string p @ ?t"] e [of "'': true}''"] sax_dec_string [of p ?t]
    by (simp add: position_text_def json_parse_def skip_bom_def sax_value.simps scan_member_def
        sax_state.simps scan_def [of "[]"] scan_true del: json_norm.simps)
qed

section \<open>Properties\<close>

definition position_result :: "int \<Rightarrow> json" where
  "position_result p = J_object [(''position'', json_norm (J_integer p))]"

definition position_stopped :: "int \<Rightarrow> json" where
  "position_stopped p = J_object [(''emergency_stop'', J_boolean True), (''position'', json_norm (J_integer p))]"

text \<open>
  What a waiting loop may do with the turns it is given: wait on only if no turn saw the stop request;
  otherwise return in the first turn that saw it, with the flag \<open>emergency_stop\<close>, or earlier, in a turn
  with a message, with an error or a position.
\<close>

definition turn_outcome :: "turn \<Rightarrow> json res \<Rightarrow> bool" where
  "turn_outcome t r =
     (if seen_request t = REQ_STOP then \<exists>p. is_int32 p \<and> r = Inr (position_stopped p)
      else seen_status t = RUNNING \<and> popped t \<noteq> None \<and>
           (case r of Inr j \<Rightarrow> \<exists>p. is_int32 p \<and> j = position_result p | Inl e \<Rightarrow> True))"

definition move_outcome :: "turn list \<Rightarrow> json res option \<Rightarrow> bool" where
  "move_outcome turns res = (case res of
      None \<Rightarrow> \<forall>t\<in>set turns. seen_request t \<noteq> REQ_STOP
    | Some r \<Rightarrow> \<exists>k<length turns. (\<forall>i<k. seen_request (turns ! i) \<noteq> REQ_STOP) \<and> turn_outcome (turns ! k) r)"

lemma move_outcome_now: "turn_outcome t r \<Longrightarrow> move_outcome (t # ts) (Some r)"
  by (auto simp: move_outcome_def intro!: exI [of _ 0])

lemma move_outcome_later:
  assumes "seen_request t \<noteq> REQ_STOP" "move_outcome ts res"
  shows "move_outcome (t # ts) res"
proof (cases res)
  case None
  with assms show ?thesis by (simp add: move_outcome_def)
next
  case (Some r)
  with assms(2) obtain k where k: "k < length ts" "\<forall>i<k. seen_request (ts ! i) \<noteq> REQ_STOP"
    "turn_outcome (ts ! k) r"
    by (auto simp: move_outcome_def)
  have "\<forall>i<Suc k. seen_request ((t # ts) ! i) \<noteq> REQ_STOP"
    using k(2) assms(1) by (auto simp: nth_Cons split: nat.splits)
  with k Some show ?thesis
    by (auto simp: move_outcome_def intro!: exI [of _ "Suc k"])
qed

lemma location_loop_outcome: "is_int32 cur \<Longrightarrow> move_outcome turns (location_loop turns cur)"
proof (induction turns cur rule: location_loop.induct)
  case (1 cur)
  then show ?case by (simp add: move_outcome_def)
next
  case (2 t ts cur)
  consider (stop) "seen_request t = REQ_STOP"
    | (skip) "seen_request t \<noteq> REQ_STOP" "seen_status t \<noteq> RUNNING \<or> popped t = None"
    | (msg) payload where "seen_request t \<noteq> REQ_STOP" "seen_status t = RUNNING" "popped t = Some payload"
    by (cases "popped t") auto
  then show ?case
  proof cases
    case stop
    then show ?thesis
      using parse_position_stop [OF 2(4)] 2(4)
      by (auto simp: position_stopped_def turn_outcome_def simp del: json_norm.simps intro!: move_outcome_now)
  next
    case skip
    then show ?thesis
      using 2 by (auto intro!: move_outcome_later)
  next
    case (msg payload)
    let ?m = "rbind (json_parse_cstr payload) (\<lambda>m. rbind (rbind (json_at m ''position'') get_int) (\<lambda>p.
        rbind (rbind (json_at m ''posista'') get_int) (\<lambda>s. Inr (p, s))))"
    show ?thesis
    proof (cases ?m)
      case (Inl e)
      with msg show ?thesis by (auto simp: turn_outcome_def intro!: move_outcome_now)
    next
      case (Inr ps)
      obtain p s where ps: "ps = (p, s)" by force
      from Inr ps have p: "is_int32 p" by (auto dest: get_int_is_int32)
      show ?thesis
      proof (cases "s = 0")
        case True
        have "move_outcome ts (location_loop ts p)"
          using 2(2) [OF msg Inr ps [symmetric] _ p] True by simp
        with True msg Inr ps show ?thesis
          by (auto intro!: move_outcome_later)
      next
        case False
        have "turn_outcome t (Inr (position_result p))"
          using msg p unfolding turn_outcome_def by auto
        with False msg Inr ps parse_position [OF p] show ?thesis
          by (auto simp: position_result_def simp del: json_norm.simps intro!: move_outcome_now)
      qed
    qed
  qed
qed


text \<open>
  C34. The status of the body tells how a waiting action ended: after a normal return it is STOPPED;
  after an exception it is still RUNNING, although nothing waits any more, and at that point no command
  resets it.
\<close>

theorem move_status_after:
  "location_speed_move turns b args = Some (r, b', es) \<or> to_charge turns b args = Some (r, b', es) \<Longrightarrow>
   body_status b' = (case r of Inr _ \<Rightarrow> STOPPED | Inl _ \<Rightarrow> RUNNING)"
  by (auto simp: location_speed_move_def to_charge_def finish_move_def Let_def
      split: sum.splits option.splits)

lemma move_status_after_witness:
  "\<exists>b' es. location_speed_move [] (new_action_body ''1'') (J_object [(''arg'', J_null)]) =
     Some (Inl (Json_type_error 304), b', es) \<and> es \<noteq> [] \<and> body_status b' = RUNNING"
proof -
  let ?args = "J_object [(''arg'', J_null)]"
  have set: "json_set ?args ''action'' (J_integer 3) = Inr (J_object [(''action'', J_integer 3), (''arg'', J_null)])"
    by (simp add: json_set_def json_ref_def sm_emplace_def)
  obtain t where "json_dump (-1) (J_object [(''action'', J_integer 3), (''arg'', J_null)]) = Inr t"
    using json_dump_total [of "J_object [(''action'', J_integer 3), (''arg'', J_null)]"]
    by (auto simp: utf8_valid_ascii_string simp del: utf8_valid.simps)
  then obtain b' es where run: "location_speed_move [] (new_action_body ''1'') ?args =
      Some (Inl (Json_type_error 304), b', es)" "es \<noteq> []"
    by (auto simp: location_speed_move_def Let_def set json_at_def)
  with move_status_after [OF disjI1 [OF run(1)]] show ?thesis by auto
qed

definition battery_full :: "json \<Rightarrow> bool" where
  "battery_full x \<longleftrightarrow> (\<exists>n c. rbind (json_at x ''NomCap'') get_double = Inr n \<and>
     rbind (json_at x ''RemCap'') get_double = Inr c \<and> d_le (d_abs (d_sub n c)) battery_tolerance)"

lemma batteries_full_iff:
  "batteries_full xs f = Inr r \<Longrightarrow> f = 0 \<or> f = 1 \<Longrightarrow>
   r = (if f = 1 \<and> (\<forall>x\<in>set xs. battery_full x) then 1 else 0)"
proof (induction xs f rule: batteries_full.induct)
  case (1 f)
  then show ?case by auto
next
  case (2 x xs f)
  from 2(2) obtain n where n1: "rbind (json_at x ''NomCap'') get_double = Inr n"
    by (cases "rbind (json_at x ''NomCap'') get_double") (simp_all del: rbind_assoc rbind_eq_Inr)
  from 2(2) n1 obtain c where n2: "rbind (json_at x ''RemCap'') get_double = Inr c"
    by (cases "rbind (json_at x ''RemCap'') get_double") (simp_all del: rbind_assoc rbind_eq_Inr)
  note n = n1 n2
  let ?f = "if d_le (d_abs (d_sub n c)) battery_tolerance then (if odd f then 1 else 0) else 0 :: int"
  from n 2(2) have "batteries_full xs ?f = Inr r" by (simp del: rbind_assoc rbind_eq_Inr)
  moreover have "?f = 0 \<or> ?f = 1" by simp
  ultimately have "r = (if ?f = 1 \<and> (\<forall>x\<in>set xs. battery_full x) then 1 else 0)"
    by (rule 2(1) [OF n])
  moreover have "battery_full x \<longleftrightarrow> d_le (d_abs (d_sub n c)) battery_tolerance"
    unfolding battery_full_def n by simp
  ultimately show ?case using 2(3) by auto
qed

text \<open>
  Charging ends on full batteries only: \<open>to_charge\<close>'s check of a message yields 1 exactly when every
  entry of the battery list has its remaining capacity within 0.001 of the nominal one, so one battery
  that is not full keeps the robot on the charger.
\<close>

theorem charge_needs_all_full:
  assumes "batteries_full xs 1 = Inr r"
  shows "r = 1 \<longleftrightarrow> (\<forall>x\<in>set xs. battery_full x)"
  using batteries_full_iff [OF assms] by simp

lemma charge_needs_all_full_witness:
  "\<not> battery_full (J_object [(''NomCap'', J_unsigned 20), (''RemCap'', J_unsigned 13)])"
proof -
  let ?x = "J_object [(''NomCap'', J_unsigned 20), (''RemCap'', J_unsigned 13)]"
  have "batteries_full [?x] 1 = Inr 0"
    by code_simp
  from charge_needs_all_full [OF this] show ?thesis by simp
qed

text \<open>Messages as they arrive (time in nanoseconds and payload) through the callback.\<close>

fun telemetry_times :: "int \<Rightarrow> (int \<times> string) list \<Rightarrow> mos_obj \<Rightarrow> int list" where
  "telemetry_times limit [] obj = []"
| "telemetry_times limit ((now, p) # ms) obj = (case telemetry_callback limit now p obj of (_, obj') \<Rightarrow>
     (if msg_queue obj' \<noteq> msg_queue obj then [now] else []) @ telemetry_times limit ms obj')"

lemma telemetry_times_spaced:
  "0 \<le> limit \<Longrightarrow> list_all (\<lambda>t. last_recv_time obj + (limit + 1) * 1000000000 \<le> t) (take 1 (telemetry_times limit ms obj)) \<and>
   successively (\<lambda>s t. s + (limit + 1) * 1000000000 \<le> t) (telemetry_times limit ms obj)"
proof (induction limit ms obj rule: telemetry_times.induct)
  case (1 limit obj)
  then show ?case by simp
next
  case (2 limit now p ms obj)
  obtain r obj' where c: "telemetry_callback limit now p obj = (r, obj')" by force
  show ?case
  proof (cases "(now - last_recv_time obj) div 1000000000 > limit")
    case True
    have t: "last_recv_time obj + (limit + 1) * 1000000000 \<le> now"
    proof -
      have "0 \<le> (now - last_recv_time obj) mod 1000000000" by simp
      moreover have "1000000000 * (limit + 1) \<le> 1000000000 * ((now - last_recv_time obj) div 1000000000)"
        using True by (intro mult_left_mono) auto
      ultimately show ?thesis
        using mult_div_mod_eq [of 1000000000 "now - last_recv_time obj"] by (simp add: mult.commute)
    qed
    show ?thesis
      using 2 c True t
      by (cases "telemetry_times limit ms obj'")
        (auto simp: telemetry_callback_def Let_def queue_push_def successively_Cons)
  next
    case False
    then have "obj' = obj" using c by (auto simp: telemetry_callback_def Let_def)
    with 2 c show ?thesis by simp
  qed
qed

text \<open>
  C35. Telemetry is thinned out: of the messages the subscriber thread receives, whatever their times and
  payloads, the callback queues one only when the clock is at least one second past the configured
  limit since the one queued before (so 4 seconds apart for the position, 11 for the battery, the
  elapsed time being compared in whole seconds).
\<close>

theorem telemetry_thinned:
  assumes "0 \<le> limit"
  shows "successively (\<lambda>s t. s + (limit + 1) * 1000000000 \<le> t) (telemetry_times limit ms obj)"
  using telemetry_times_spaced [OF assms] by blast

lemma telemetry_thinned_witness:
  "successively (\<lambda>s t. s + 4000000000 \<le> t)
     (telemetry_times 3 [(9000000000, ''a''), (12900000000, ''b''), (13000000000, ''c'')]
        \<lparr> msg_queue = [], last_recv_time = 0, mos_done = False \<rparr>) \<and>
   telemetry_times 3 [(9000000000, ''a''), (12900000000, ''b''), (13000000000, ''c'')]
        \<lparr> msg_queue = [], last_recv_time = 0, mos_done = False \<rparr> = [9000000000, 13000000000]"
  using telemetry_thinned [of 3 "[(9000000000, ''a''), (12900000000, ''b''), (13000000000, ''c'')]"
      "\<lparr> msg_queue = [], last_recv_time = 0, mos_done = False \<rparr>"]
  by (simp add: telemetry_callback_def Let_def queue_push_def)

text \<open>
  A command that cannot be sent changes nothing: when the arguments are not an object (or null) or
  hold a string that is not UTF-8, every simple command of the body fails with type error 305 or 316,
  leaving the body as it was and publishing nothing; otherwise it publishes exactly one message, the
  arguments with the action's number, to its topic.
\<close>

theorem body_command_atomic:
  "case command_payload args n of
     Inl e \<Rightarrow> (e = Json_type_error 305 \<or> e = Json_type_error 316) \<and>
       body_command topic n heart after b args = (Inl e, b, [])
   | Inr payload \<Rightarrow> (\<exists>b'. body_command topic n heart after b args =
         (Inr J_null, b', mqtt_pub (topic b) payload # after) \<and>
         body_status b' = body_status b \<and> body_request b' = body_request b \<and>
         send_heart b' = (case heart of None \<Rightarrow> send_heart b | Some h \<Rightarrow> h))"
  using command_payload_error by (auto simp: body_command_def split: sum.splits option.splits)

end
