(* ===== verification/StopProtocol.thy ===== *)
theory StopProtocol imports Device begin

text \<open>
  \<open>action_body_mqtt::stop\<close> against a move in progress (\<open>device_mqtt.cpp\<close>).  Two threads share the atomics
  \<open>request\<close> and \<open>status\<close>: the mover, inside \<open>location_speed_move\<close> or \<open>to_charge\<close>, and the stopper, inside
  \<open>stop\<close> (callers of \<open>stop\<close> hold the task's control mutex).  Each load or store is a step; \<open>move_no\<close> and
  \<open>stop_no\<close> are ghost counters: the number of moves started, and its value when \<open>stop\<close> was called.
\<close>

section \<open>Threads\<close>

datatype mover_pc = M_idle | M_entry | M_check | M_poll | M_leave

datatype stopper_pc = S_idle | S_request | S_wait | S_clear

record stop_state =
  request :: int
  status :: int
  mover :: mover_pc
  stopper :: stopper_pc
  move_no :: nat
  stop_no :: nat

datatype stop_actor = By_mover | By_exception | By_stopper

definition stop_init :: stop_state where
  "stop_init = \<lparr> request = BODY_INIT, status = STOPPED, mover = M_idle, stopper = S_idle,
     move_no = 0, stop_no = 0 \<rparr>"

text \<open>
  The mover: \<open>M_entry\<close> is the part between setting the status and the loop, \<open>M_check\<close> the test of the
  request, \<open>M_poll\<close> the test of the status with the wait for a message, \<open>M_leave\<close> the code after the loop.
  An exception leaves from \<open>M_entry\<close> or \<open>M_poll\<close>.  The stopper: \<open>S_request\<close> is about to store \<open>REQ_STOP\<close>,
  \<open>S_wait\<close> about to test the status, \<open>S_clear\<close> about to store \<open>INIT\<close> and return.
\<close>

inductive stop_step :: "stop_state \<Rightarrow> stop_actor \<Rightarrow> stop_state \<Rightarrow> bool" where
  start: "mover s = M_idle \<Longrightarrow>
    stop_step s By_mover (s\<lparr> status := RUNNING, mover := M_entry, move_no := Suc (move_no s) \<rparr>)"
| entry: "mover s = M_entry \<Longrightarrow> stop_step s By_mover (s\<lparr> mover := M_check \<rparr>)"
| entry_throw: "mover s = M_entry \<Longrightarrow> stop_step s By_exception (s\<lparr> mover := M_idle \<rparr>)"
| check_stop: "mover s = M_check \<Longrightarrow> request s = REQ_STOP \<Longrightarrow>
    stop_step s By_mover (s\<lparr> status := STOPPED, mover := M_leave \<rparr>)"
| check_go: "mover s = M_check \<Longrightarrow> request s \<noteq> REQ_STOP \<Longrightarrow>
    stop_step s By_mover (s\<lparr> mover := M_poll \<rparr>)"
| poll_again: "mover s = M_poll \<Longrightarrow> stop_step s By_mover (s\<lparr> mover := M_check \<rparr>)"
| poll_final: "mover s = M_poll \<Longrightarrow> status s = RUNNING \<Longrightarrow>
    stop_step s By_mover (s\<lparr> mover := M_leave \<rparr>)"
| poll_throw: "mover s = M_poll \<Longrightarrow> status s = RUNNING \<Longrightarrow>
    stop_step s By_exception (s\<lparr> mover := M_idle \<rparr>)"
| leave: "mover s = M_leave \<Longrightarrow> stop_step s By_mover (s\<lparr> status := STOPPED, mover := M_idle \<rparr>)"
| call_running: "stopper s = S_idle \<Longrightarrow> status s = RUNNING \<Longrightarrow>
    stop_step s By_stopper (s\<lparr> stopper := S_request, stop_no := move_no s \<rparr>)"
| call_stopped: "stopper s = S_idle \<Longrightarrow> status s \<noteq> RUNNING \<Longrightarrow>
    stop_step s By_stopper (s\<lparr> stopper := S_clear, stop_no := move_no s \<rparr>)"
| store_request: "stopper s = S_request \<Longrightarrow>
    stop_step s By_stopper (s\<lparr> request := REQ_STOP, stopper := S_wait \<rparr>)"
| wait_more: "stopper s = S_wait \<Longrightarrow> status s = RUNNING \<Longrightarrow>
    stop_step s By_stopper (s\<lparr> stopper := S_request \<rparr>)"
| wait_done: "stopper s = S_wait \<Longrightarrow> status s \<noteq> RUNNING \<Longrightarrow>
    stop_step s By_stopper (s\<lparr> stopper := S_clear \<rparr>)"
| store_init: "stopper s = S_clear \<Longrightarrow>
    stop_step s By_stopper (s\<lparr> request := BODY_INIT, stopper := S_idle \<rparr>)"

inductive_cases stop_stepE: "stop_step s a s'"
inductive_cases mover_stepE: "stop_step s By_mover s'"
inductive_cases stopper_stepE: "stop_step s By_stopper s'"

inductive stop_reach :: "stop_state \<Rightarrow> bool" where
  reach_init: "stop_reach stop_init"
| reach_step: "stop_reach s \<Longrightarrow> stop_step s a s' \<Longrightarrow> stop_reach s'"

text \<open>The stopper running on its own: nobody starts or continues a move.\<close>

inductive stopper_alone :: "stop_state \<Rightarrow> stop_state \<Rightarrow> bool" where
  alone_refl: "stopper_alone s s"
| alone_step: "stopper_alone s s' \<Longrightarrow> stop_step s' By_stopper s'' \<Longrightarrow> stopper_alone s s''"

section \<open>Invariant\<close>

definition moving :: "stop_state \<Rightarrow> bool" where
  "moving s \<longleftrightarrow> mover s = M_entry \<or> mover s = M_check \<or> mover s = M_poll"

definition stop_inv :: "stop_state \<Rightarrow> bool" where
  "stop_inv s \<longleftrightarrow> (moving s \<longrightarrow> status s = RUNNING) \<and>
     (status s = RUNNING \<or> status s = STOPPED) \<and>
     stop_no s \<le> move_no s \<and>
     (stopper s = S_clear \<and> moving s \<longrightarrow> stop_no s < move_no s)"

lemma stop_inv_init: "stop_inv stop_init"
  by (simp add: stop_inv_def stop_init_def moving_def)

lemma stop_inv_step: "stop_step s a s' \<Longrightarrow> stop_inv s \<Longrightarrow> stop_inv s'"
  by (erule stop_stepE) (auto simp: stop_inv_def moving_def)

lemma stop_inv_reach: "stop_reach s \<Longrightarrow> stop_inv s"
  by (induction rule: stop_reach.induct) (auto intro: stop_inv_init stop_inv_step)

lemma alone_stuck:
  "stopper_alone s s' \<Longrightarrow> status s = RUNNING \<Longrightarrow> stopper s = S_request \<or> stopper s = S_wait \<Longrightarrow>
   status s' = RUNNING \<and> (stopper s' = S_request \<or> stopper s' = S_wait)"
  by (induction rule: stopper_alone.induct) (auto elim!: stopper_stepE)

section \<open>Properties\<close>



text \<open>
  The mover answers a request within two of its steps: once \<open>REQ_STOP\<close> is stored and as long as it
  stays stored, a move in progress that takes two steps without an exception has set the status to
  STOPPED, wherever in the loop it was.
\<close>

lemma stop_answered:
  assumes "moving s" "request s = REQ_STOP" "stop_step s By_mover s'" "stop_step s' By_mover s''"
  shows "status s' = STOPPED \<or> status s'' = STOPPED"
  using assms by (auto simp: moving_def elim!: mover_stepE)

lemma stop_answered_witness:
  "status (stop_init\<lparr> request := REQ_STOP, status := STOPPED, mover := M_leave \<rparr>) = STOPPED"
proof -
  let ?s = "stop_init\<lparr> request := REQ_STOP, status := RUNNING, mover := M_poll \<rparr>"
  let ?s1 = "?s\<lparr> mover := M_check \<rparr>"
  let ?s2 = "?s1\<lparr> status := STOPPED, mover := M_leave \<rparr>"
  have "stop_step ?s By_mover ?s1" by (rule poll_again) simp
  moreover have "stop_step ?s1 By_mover ?s2" by (rule check_stop) simp_all
  ultimately show ?thesis
    using stop_answered [of ?s ?s1 ?s2] by (simp add: moving_def stop_init_def)
qed

text \<open>
  C23. An exception in a move blocks \<open>stop\<close> for good: there is a reachable state in which no move is in
  progress and \<open>stop\<close>, called by a pause or a cancel, keeps asking and waiting however long it runs.
\<close>

theorem stop_hangs_after_exception:
  "\<exists>s. stop_reach s \<and> mover s = M_idle \<and>
     (\<forall>s'. stopper_alone s s' \<longrightarrow> stopper s' = S_request \<or> stopper s' = S_wait)"
proof -
  let ?s1 = "stop_init\<lparr> status := RUNNING, mover := M_entry, move_no := 1 \<rparr>"
  let ?s2 = "?s1\<lparr> mover := M_idle \<rparr>"
  let ?s3 = "?s2\<lparr> stopper := S_request, stop_no := 1 \<rparr>"
  have "stop_step stop_init By_mover ?s1"
    using start [of stop_init] by (simp add: stop_init_def)
  moreover have "stop_step ?s1 By_exception ?s2" by (rule entry_throw) simp
  moreover have "stop_step ?s2 By_stopper ?s3" using call_running [of ?s2] by (simp add: stop_init_def)
  ultimately have "stop_reach ?s3" by (blast intro: stop_reach.intros)
  moreover have "mover ?s3 = M_idle" by (simp add: stop_init_def)
  moreover have "stopper s' = S_request \<or> stopper s' = S_wait" if "stopper_alone ?s3 s'" for s'
    using alone_stuck [OF that] by simp
  ultimately show ?thesis by blast
qed

lemma stop_hangs_after_exception_witness:
  "\<exists>s. stop_reach s \<and> mover s = M_idle \<and> (stopper s = S_request \<or> stopper s = S_wait)"
  using stop_hangs_after_exception alone_refl by blast

text \<open>
  A request can be missed: \<open>stop\<close> called just before a move begins finds the body stopped and
  returns, and the move then runs with no request pending, so a pause or cancel that raced with the
  start of a move waits until the move ends by itself.
\<close>

lemma stop_missed_by_starting_move:
  "\<exists>s. stop_reach s \<and> stopper s = S_idle \<and> stop_no s = 0 \<and> mover s = M_poll \<and> move_no s = 1 \<and>
     request s \<noteq> REQ_STOP"
proof -
  let ?s1 = "stop_init\<lparr> stopper := S_clear \<rparr>"
  let ?s2 = "?s1\<lparr> status := RUNNING, mover := M_entry, move_no := 1 \<rparr>"
  let ?s3 = "?s2\<lparr> mover := M_check \<rparr>"
  let ?s4 = "?s3\<lparr> mover := M_poll \<rparr>"
  let ?s5 = "?s4\<lparr> stopper := S_idle \<rparr>"
  have "stop_step stop_init By_stopper ?s1"
    using call_stopped [of stop_init] by (simp add: stop_init_def)
  then have r1: "stop_reach ?s1" by (rule reach_step [OF reach_init])
  have "stop_step ?s1 By_mover ?s2" using start [of ?s1] by (simp add: stop_init_def)
  then have r2: "stop_reach ?s2" by (rule reach_step [OF r1])
  have "stop_step ?s2 By_mover ?s3" by (rule entry) simp
  then have r3: "stop_reach ?s3" by (rule reach_step [OF r2])
  have "stop_step ?s3 By_mover ?s4" by (rule check_go) (simp_all add: stop_init_def)
  then have r4: "stop_reach ?s4" by (rule reach_step [OF r3])
  have "stop_step ?s4 By_stopper ?s5" using store_init [of ?s4] by (simp add: stop_init_def)
  then have "stop_reach ?s5" by (rule reach_step [OF r4])
  then show ?thesis
    by (intro exI [of _ ?s5]) (simp add: stop_init_def)
qed

end
