(* ===== verification/Config.thy ===== *)
theory Config imports Prelude begin

text \<open>
  The configuration (\<open>config.hpp\<close>, \<open>config.cpp\<close>).  The YAML library is a parameter: a node type with
  the lookup of a key, the conversions and the elements of a sequence.  The \<open>std::set\<close> of modules is the
  binary search tree of the standard library, insertion descending by \<open>operator<\<close>; its rebalancing is a
  parameter \<open>rebal\<close> that may change the shape but not the order of the elements.
\<close>

section \<open>Data\<close>

record conf_module =
  mod_type :: string
  mod_name :: string
  mod_id :: string

record config_item =
  broker_ip :: string
  broker_port :: int
  broker_username :: string
  broker_password :: string
  broker_keep_alive :: int
  mqtt_client_id :: string
  robot_type :: string
  conf_robot_id :: string
  battery_threshold :: int
  modules :: "conf_module list"

section \<open>The set of modules\<close>

definition module_less :: "conf_module \<Rightarrow> conf_module \<Rightarrow> bool" where
  "module_less m other =
     (if mod_name m = mod_name other then False
      else if mod_id m = mod_id other then False
      else True)"

datatype 'a stree = Tip | Branch "'a stree" 'a "'a stree"

fun inorder :: "'a stree \<Rightarrow> 'a list" where
  "inorder Tip = []"
| "inorder (Branch l x r) = inorder l @ x # inorder r"

text \<open>
  \<open>std::set::emplace\<close>: descend to a leaf by comparing the new element with the nodes; then the element
  before that position, if there is one, must be less than the new element, otherwise the two count as
  equivalent and nothing is inserted.  \<open>prev\<close> is the last node the descent left on its left.
\<close>

fun insert_at :: "conf_module option \<Rightarrow> conf_module \<Rightarrow> conf_module stree \<Rightarrow> conf_module stree option" where
  "insert_at prev k Tip = (case prev of
      None \<Rightarrow> Some (Branch Tip k Tip)
    | Some p \<Rightarrow> if module_less p k then Some (Branch Tip k Tip) else None)"
| "insert_at prev k (Branch l x r) =
     (if module_less k x then map_option (\<lambda>l'. Branch l' x r) (insert_at prev k l)
      else map_option (\<lambda>r'. Branch l x r') (insert_at (Some x) k r))"

definition modules_emplace ::
  "(conf_module stree \<Rightarrow> conf_module stree) \<Rightarrow> conf_module \<Rightarrow> conf_module stree \<Rightarrow> conf_module stree" where
  "modules_emplace rebal k t = (case insert_at None k t of None \<Rightarrow> t | Some t' \<Rightarrow> rebal t')"

section \<open>Reading the file\<close>

fun read_modules ::
  "('n \<Rightarrow> string \<Rightarrow> 'n) \<Rightarrow> ('n \<Rightarrow> string res) \<Rightarrow> (conf_module stree \<Rightarrow> conf_module stree) \<Rightarrow> 'n list \<Rightarrow>
   conf_module stree \<Rightarrow> conf_module stree res" where
  "read_modules sub as_string rebal [] t = Inr t"
| "read_modules sub as_string rebal (n # ns) t =
     rbind (as_string (sub n ''type'')) (\<lambda>ty.
     rbind (as_string (sub n ''name'')) (\<lambda>nm.
     rbind (as_string (sub n ''id'')) (\<lambda>ident.
       read_modules sub as_string rebal ns
         (modules_emplace rebal \<lparr> mod_type = ty, mod_name = nm, mod_id = ident \<rparr> t))))"

definition read_config ::
  "('n \<Rightarrow> string \<Rightarrow> 'n) \<Rightarrow> ('n \<Rightarrow> string res) \<Rightarrow> ('n \<Rightarrow> int res) \<Rightarrow> ('n \<Rightarrow> 'n list) \<Rightarrow>
   (conf_module stree \<Rightarrow> conf_module stree) \<Rightarrow> 'n \<Rightarrow> config_item res" where
  "read_config sub as_string as_int elems rebal node =
     rbind (as_string (sub node ''broker_ip'')) (\<lambda>ip.
     rbind (as_int (sub node ''broker_port'')) (\<lambda>port.
     rbind (as_string (sub node ''broker_username'')) (\<lambda>user.
     rbind (as_string (sub node ''broker_password'')) (\<lambda>pass.
     rbind (as_int (sub node ''broker_keep_alive'')) (\<lambda>keep.
     rbind (as_string (sub node ''mqtt_client_id'')) (\<lambda>client.
     rbind (as_string (sub node ''robot_type'')) (\<lambda>rtype.
     rbind (as_string (sub node ''robot_id'')) (\<lambda>rid.
     rbind (as_int (sub node ''battery_threshold'')) (\<lambda>thr.
     rbind (read_modules sub as_string rebal (elems (sub node ''modules'')) Tip) (\<lambda>t.
       Inr \<lparr> broker_ip = ip, broker_port = port, broker_username = user, broker_password = pass,
             broker_keep_alive = keep, mqtt_client_id = client, robot_type = rtype,
             conf_robot_id = rid, battery_threshold = thr, modules = inorder t \<rparr>))))))))))"

section \<open>Facts\<close>

text \<open>Two modules clash when they share their name or their id.\<close>

definition clash :: "conf_module \<Rightarrow> conf_module \<Rightarrow> bool" where
  "clash m n \<longleftrightarrow> mod_name m = mod_name n \<or> mod_id m = mod_id n"

lemma module_less_clash: "module_less m n \<longleftrightarrow> \<not> clash m n"
  by (simp add: module_less_def clash_def)

lemma insert_front:
  "(\<forall>x\<in>set (inorder t). \<not> clash k x) \<Longrightarrow>
   \<exists>t'. insert_at None k t = Some t' \<and> inorder t' = k # inorder t"
  by (induction t) (auto simp: module_less_clash)

lemma emplace_front:
  assumes "\<And>t. inorder (rebal t) = inorder t" "\<forall>x\<in>set (inorder t). \<not> clash k x"
  shows "inorder (modules_emplace rebal k t) = k # inorder t"
  using insert_front [OF assms(2)] assms(1) by (auto simp: modules_emplace_def)

text \<open>The nodes a descent for a clash-free key passes: the left spine.\<close>

fun left_spine :: "'a stree \<Rightarrow> 'a list" where
  "left_spine Tip = []"
| "left_spine (Branch l x r) = x # left_spine l"

lemma insert_off_spine:
  "(\<forall>x\<in>set (left_spine t). \<not> clash k x) \<Longrightarrow>
   \<exists>t'. insert_at None k t = Some t' \<and> inorder t' = k # inorder t"
  by (induction t) (auto simp: module_less_clash)

section \<open>Properties\<close>

text \<open>
  Modules without a clash are all kept: if no two of the modules of the file share a name or an id, the
  set holds each of them, the last one of the file first, whatever the rebalancing of the tree does.
\<close>

lemma clash_free_modules_kept:
  assumes "\<And>t. inorder (rebal t) = inorder t" "sorted_wrt (\<lambda>m n. \<not> clash m n) ms"
  shows "inorder (fold (modules_emplace rebal) ms Tip) = rev ms"
proof -
  have "sorted_wrt (\<lambda>m n. \<not> clash m n) ms \<Longrightarrow> \<forall>m\<in>set ms. \<forall>x\<in>set (inorder t). \<not> clash m x \<Longrightarrow>
      inorder (fold (modules_emplace rebal) ms t) = rev ms @ inorder t" for t
  proof (induction ms arbitrary: t)
    case (Cons m ms)
    have "inorder (modules_emplace rebal m t) = m # inorder t"
      using emplace_front assms(1) Cons.prems(2) by simp
    moreover have "\<forall>n\<in>set ms. \<not> clash n m" using Cons.prems(1) by (auto simp: clash_def)
    ultimately show ?case using Cons.IH [of "modules_emplace rebal m t"] Cons.prems by auto
  qed simp
  from this [OF assms(2), of Tip] show ?thesis by simp
qed

definition demo_module :: "string \<Rightarrow> string \<Rightarrow> conf_module" where
  "demo_module nm ident = \<lparr> mod_type = ''PanTilt'', mod_name = nm, mod_id = ident \<rparr>"

lemma clash_free_modules_kept_witness:
  "inorder (fold (modules_emplace (\<lambda>t. t)) [demo_module ''a'' ''1'', demo_module ''b'' ''2''] Tip) =
     [demo_module ''b'' ''2'', demo_module ''a'' ''1'']"
  using clash_free_modules_kept [of "\<lambda>t. t" "[demo_module ''a'' ''1'', demo_module ''b'' ''2'']"]
  by (simp add: clash_def demo_module_def)

text \<open>The rotation a red-black tree makes after three insertions at the front.\<close>

fun rotate_three :: "'a stree \<Rightarrow> 'a stree" where
  "rotate_three (Branch (Branch (Branch a x b) y c) z d) = Branch (Branch a x b) y (Branch c z d)"
| "rotate_three t = t"

lemma inorder_rotate_three: "inorder (rotate_three t) = inorder t"
  by (induction t rule: rotate_three.induct) simp_all

text \<open>
  The check for duplicates depends on the shape of the tree: an element that is not on the left spine
  is never compared, so a module with its name and id is inserted once more; with the rotation a red-black
  tree makes, the fourth module of a file may repeat the first, which the second may not.
\<close>

theorem duplicate_module_admitted:
  "\<forall>k t. (\<forall>x\<in>set (left_spine t). \<not> clash k x) \<longrightarrow>
     (\<exists>t'. insert_at None k t = Some t' \<and> inorder t' = k # inorder t)"
  using insert_off_spine by blast

lemma duplicate_module_admitted_witness:
  "let a = demo_module ''a'' ''1''; b = demo_module ''b'' ''2''; c = demo_module ''c'' ''3'' in
   insert_at None a (Branch Tip a Tip) = None \<and>
   (\<exists>t'. insert_at None a (fold (modules_emplace rotate_three) [a, b, c] Tip) = Some t' \<and>
     inorder t' = [a, c, b, a])"
proof -
  let ?a = "demo_module ''a'' ''1''" let ?b = "demo_module ''b'' ''2''" let ?c = "demo_module ''c'' ''3''"
  have t: "fold (modules_emplace rotate_three) [?a, ?b, ?c] Tip = Branch (Branch Tip ?c Tip) ?b (Branch Tip ?a Tip)"
    by (simp add: modules_emplace_def module_less_def demo_module_def)
  have "insert_at None ?a (Branch Tip ?a Tip) = None"
    by (simp add: module_less_def)
  moreover have "\<exists>t'. insert_at None ?a (Branch (Branch Tip ?c Tip) ?b (Branch Tip ?a Tip)) = Some t' \<and>
      inorder t' = ?a # inorder (Branch (Branch Tip ?c Tip) ?b (Branch Tip ?a Tip))"
    by (rule duplicate_module_admitted [rule_format]) (auto simp: clash_def demo_module_def)
  ultimately show ?thesis unfolding Let_def t by (simp del: insert_at.simps)
qed

end
