(* ===== verification/Robot.thy ===== *)
theory Robot imports Device begin

text \<open>
  The robot (\<open>robot.hpp\<close>, \<open>robot.cpp\<close>): the map from device codes to devices, and the dispatch of an
  action that \<open>task::run\<close> and the service perform, \<open>get_device(code)->get_action(action)(args)\<close>.
\<close>

section \<open>The device list\<close>

type_synonym robot = "(string, device) smap"

definition new_robot :: robot where
  "new_robot = []"

definition add_device :: "string \<Rightarrow> device \<Rightarrow> robot \<Rightarrow> robot" where
  "add_device code d rb = sm_assign code d rb"

definition del_device :: "string \<Rightarrow> robot \<Rightarrow> robot" where
  "del_device code rb = (if map_of rb code \<noteq> None then sm_erase code rb else rb)"

definition get_device :: "robot \<Rightarrow> string \<Rightarrow> device res" where
  "get_device rb code = map_at rb code"

definition get_device_list :: "robot \<Rightarrow> (string \<times> device) list" where
  "get_device_list rb = rb"

lemma robot_inv_ops [simp, intro]:
  "sm_inv new_robot"
  "sm_inv rb \<Longrightarrow> sm_inv (add_device code d rb)"
  "sm_inv rb \<Longrightarrow> sm_inv (del_device code rb)"
  by (simp_all add: new_robot_def add_device_def del_device_def)

lemma get_device_ops:
  "get_device new_robot c = Inl Std_out_of_range"
  "sm_inv rb \<Longrightarrow> get_device (add_device code d rb) c = (if c = code then Inr d else get_device rb c)"
  "sm_inv rb \<Longrightarrow> get_device (del_device code rb) c = (if c = code then Inl Std_out_of_range else get_device rb c)"
  by (auto simp: get_device_def add_device_def del_device_def new_robot_def map_at_def
      sm.lookup_assign sm.lookup_erase)

section \<open>Dispatch\<close>

text \<open>
  Lookup of the device and of the action, the call, and the device stored back as the call left it (the
  call changes it through the pointer).  None while the action is still waiting for telemetry.
\<close>

definition dispatch ::
  "(camera_action \<Rightarrow> string) \<Rightarrow> turn list \<Rightarrow> robot \<Rightarrow> string \<Rightarrow> string \<Rightarrow> json \<Rightarrow> robot action_result option" where
  "dispatch pretty turns rb dcode acode args = (case get_device rb dcode of
      Inl e \<Rightarrow> Some (Inl e, rb, [])
    | Inr d \<Rightarrow> (case get_action d acode of
        Inl e \<Rightarrow> Some (Inl e, rb, [])
      | Inr fn \<Rightarrow>
          map_option (\<lambda>(r, d', es). (r, sm_assign dcode d' rb, es)) (run_action pretty turns d fn args)))"

lemma get_action_error: "get_action d code = Inl e \<Longrightarrow> e = Std_out_of_range"
  by (auto simp: get_action_def map_at_def rbind_eq_Inl split: device.splits sum.splits option.splits)

lemma get_action_kind:
  "get_action d code = Inr fn \<Longrightarrow> (case d of
      Dev_body b \<Rightarrow> \<exists>a. fn = Body_fn a
    | Dev_ptz p \<Rightarrow> \<exists>a. fn = Ptz_fn a
    | Dev_pad p \<Rightarrow> (\<exists>a. fn = Body_fn a) \<or> (\<exists>a. fn = Pad_fn a)
    | Dev_camera \<Rightarrow> \<exists>a. fn = Camera_fn a)"
  by (auto simp: get_action_def split: device.splits sum.splits)

text \<open>The exceptions an action can end with: those of the json library that the task's handlers name.\<close>

definition action_exn :: "cxx_exn \<Rightarrow> bool" where
  "action_exn e \<longleftrightarrow> (\<exists>n. e = Json_parse_error n) \<or> (\<exists>n. e = Json_out_of_range n) \<or> (\<exists>n. e = Json_type_error n)"

lemma action_exn_simps [simp]:
  "action_exn (Json_parse_error n)" "action_exn (Json_out_of_range n)" "action_exn (Json_type_error n)"
  by (auto simp: action_exn_def)

lemma json_at_exn: "json_at j k = Inl e \<Longrightarrow> action_exn e"
  by (auto simp: json_at_def split: json.splits option.splits)

lemma get_int_exn: "get_int j = Inl e \<Longrightarrow> action_exn e"
  by (auto simp: get_int_def split: json.splits)

lemma get_double_exn: "get_double j = Inl e \<Longrightarrow> action_exn e"
  by (auto simp: get_double_def split: json.splits)

lemma json_set_exn: "json_set j k v = Inl e \<Longrightarrow> action_exn e"
  by (auto simp: json_set_def json_ref_def rbind_eq_Inl split: json.splits)


section \<open>Results of actions\<close>

text \<open>
  Values that are well formed and print: what the parser returns and what the actions return.
\<close>

definition json_good :: "json \<Rightarrow> bool" where
  "json_good j \<longleftrightarrow> json_ok j \<and> json_utf8 j"

lemma json_good_parse: "json_parse s = Inr j \<Longrightarrow> json_good j"
  using json_parse_ok by (simp add: json_good_def)

lemma json_good_dump: "json_good j \<Longrightarrow> \<exists>t. json_dump n j = Inr t"
  using json_dump_total by (simp add: json_good_def)

lemma json_good_null [simp]: "json_good J_null"
  by (simp add: json_good_def)

lemma json_good_string [simp]: "json_good (J_string s) \<longleftrightarrow> utf8_valid s"
  by (simp add: json_good_def)

lemma json_good_assign:
  "json_good (J_object m) \<Longrightarrow> json_good v \<Longrightarrow> utf8_valid k \<Longrightarrow> json_good (J_object (sm_assign k v m))"
  using set_sm_assign [of k v m] by (fastforce simp: json_good_def simp del: utf8_valid.simps)

lemma json_good_empty: "json_good (J_object [])"
  by (simp add: json_good_def)

lemma json_good_set:
  assumes "json_set j k v = Inr j'" "json_good j" "json_good v" "utf8_valid k"
  shows "json_good j' \<and> is_object j'"
proof (cases j)
  case J_null
  with assms show ?thesis
    using json_good_assign [OF json_good_empty assms(3,4)]
    by (auto simp: json_set_def json_ref_def sm_emplace_def is_object_def simp del: utf8_valid.simps)
next
  case (J_object m)
  then have "sm_inv m" using assms(2) by (simp add: json_good_def)
  with J_object assms json_good_assign [of m v k] show ?thesis
    by (auto simp: is_object_def simp del: utf8_valid.simps)
qed (use assms in \<open>simp_all add: json_set_def json_ref_def\<close>)

lemma json_good_at:
  "json_at j k = Inr v \<Longrightarrow> json_good j \<Longrightarrow> json_good v"
  by (auto simp: json_at_def json_good_def split: json.splits option.splits dest!: map_of_SomeD)

lemma json_good_items: "json_good j \<Longrightarrow> x \<in> set (json_items j) \<Longrightarrow> json_good x"
  by (cases j) (auto simp: json_items_def json_good_def)

definition result_good :: "json res \<Rightarrow> bool" where
  "result_good r \<longleftrightarrow> (case r of Inl e \<Rightarrow> action_exn e | Inr j \<Rightarrow> json_good j \<and> (j = J_null \<or> is_object j))"

lemma result_good_simps [simp]:
  "result_good (Inl e) \<longleftrightarrow> action_exn e"
  "result_good (Inr j) \<longleftrightarrow> json_good j \<and> (j = J_null \<or> is_object j)"
  by (simp_all add: result_good_def)

lemma command_payload_exn: "command_payload args n = Inl e \<Longrightarrow> action_exn e"
  using command_payload_error by force

lemma parse_stopped:
  "json_parse (''{'' @ [CHR 0x22] @ ''emergency_stop'' @ [CHR 0x22] @ '': true}'') =
     Inr (J_object [(''emergency_stop'', J_boolean True)])"
  "json_parse (''{'' @ [CHR 0x22] @ ''battery_full'' @ [CHR 0x22] @ '': true}'') =
     Inr (J_object [(''battery_full'', J_boolean True)])"
  by code_simp+

lemma position_loop_good: "is_int32 p \<Longrightarrow> location_loop turns p = Some r \<Longrightarrow> result_good r"
proof (induction turns p rule: location_loop.induct)
  case (2 t ts cur)
  have stop: "result_good (json_parse (position_text q @ '','' @ [CHR 0x22] @ ''emergency_stop'' @ [CHR 0x22] @ '': true}''))"
    and pos: "result_good (json_parse (position_text q @ ''}''))" if "is_int32 q" for q
    using json_good_parse [OF parse_position_stop [OF that]] json_good_parse [OF parse_position [OF that]]
      parse_position_stop [OF that] parse_position [OF that]
    by (simp_all add: is_object_def)
  let ?m = "\<lambda>payload. rbind (json_parse_cstr payload) (\<lambda>m. rbind (rbind (json_at m ''position'') get_int) (\<lambda>p.
        rbind (rbind (json_at m ''posista'') get_int) (\<lambda>s. Inr (p, s))))"
  have err: "action_exn e" if "?m payload = Inl e" for payload e
    using that json_at_exn get_int_exn json_parse_error
    by (fastforce simp: json_parse_cstr_def rbind_eq_Inl)
  have p: "is_int32 q" if "?m payload = Inr (q, s)" for payload q s
    using that by (auto dest: get_int_is_int32)
  show ?case
    using 2 stop pos err p
    by (auto simp del: rbind_assoc rbind_eq_Inr split: if_splits option.splits sum.splits prod.splits)
qed simp
lemma batteries_full_exn: "batteries_full xs f = Inl e \<Longrightarrow> action_exn e"
  using json_at_exn get_double_exn
  by (induction xs f rule: batteries_full.induct) (fastforce simp: rbind_eq_Inl split: if_splits)+

lemma charge_loop_good: "charge_loop turns = Some r \<Longrightarrow> result_good r"
proof (induction turns rule: charge_loop.induct)
  case (2 t ts)
  have err: "action_exn e" if "rbind (json_parse_cstr payload) (\<lambda>m.
                     rbind (json_at m ''BatteryPack'') (\<lambda>a. batteries_full (json_items a) 1)) = Inl e" for payload e
    using that json_at_exn batteries_full_exn json_parse_error
    by (fastforce simp: json_parse_cstr_def rbind_eq_Inl)
  have stop: "result_good (Inr (J_object [(''emergency_stop'', J_boolean True)]))"
    "result_good (Inr (J_object [(''battery_full'', J_boolean True)]))"
    using parse_stopped [THEN json_good_parse] by (simp_all add: is_object_def)
  show ?case
    using 2 err stop unfolding charge_loop.simps parse_stopped
    by (auto simp del: rbind_assoc rbind_eq_Inr split: if_splits option.splits sum.splits)
qed simp

lemma finish_move_good:
  "finish_move b es r = Some (x, b', es') \<Longrightarrow> (\<And>y. r = Some y \<Longrightarrow> result_good y) \<Longrightarrow> result_good x"
  by (auto simp: finish_move_def split: option.splits sum.splits)

lemma location_speed_move_good:
  assumes "location_speed_move turns b args = Some (r, b', es)"
  shows "result_good r"
proof -
  have z: "is_int32 0" by (simp add: is_int32_def)
  have d: "action_exn e" if "json_dump n j = Inl e" for n j e using json_dump_error [OF that] by simp
  have a: "action_exn e" if "rbind (json_at c ''arg'') (\<lambda>a. rbind (json_at a ''position'') get_int) = Inl e" for c e
    using that json_at_exn get_int_exn by (fastforce simp: rbind_eq_Inl)
  have "\<exists>e. r = Inl e \<and> action_exn e" if "json_set args ''action'' (J_integer 3) = Inl e" for e
    using assms json_set_exn [OF that] by (simp add: location_speed_move_def that) blast
  then show ?thesis
    using assms d a
    by (cases "json_set args ''action'' (J_integer 3)")
      (auto simp: location_speed_move_def Let_def split: sum.splits
        elim!: finish_move_good intro: position_loop_good [OF z])
qed

lemma to_charge_good: "to_charge turns b args = Some (r, b', es) \<Longrightarrow> result_good r"
  using command_payload_exn charge_loop_good
  by (auto simp: to_charge_def Let_def split: sum.splits elim!: finish_move_good)

lemma body_command_good: "body_command topic n heart after b args = (r, b', es) \<Longrightarrow> result_good r"
  using command_payload_exn by (auto simp: body_command_def split: sum.splits)

lemma plain_command_good: "plain_command topic n after args = (r, es) \<Longrightarrow> result_good r"
  using command_payload_exn by (auto simp: plain_command_def split: sum.splits)

lemma body_wait_good: "body_wait b args = (r, b', es) \<Longrightarrow> result_good r"
  using json_at_exn get_int_exn by (fastforce simp: body_wait_def rbind_eq_Inl split: sum.splits)

lemma run_body_action_good: "run_body_action a turns b args = Some (r, b', es) \<Longrightarrow> result_good r"
  by (cases a)
    (auto simp: run_body_action_def stop_move_def speed_front_move_def speed_back_move_def motor_reset_def
      body_restart_def set_current_location_def set_ultrasonic_switch_def poweroff_def set_front_light_def
      set_back_light_def set_volume_def
      intro: body_command_good body_wait_good location_speed_move_good to_charge_good)

lemma run_ptz_action_good: "run_ptz_action a p args = (r, es) \<Longrightarrow> result_good r"
  by (cases a) (auto simp: run_ptz_action_def set_xyz_def set_lamp_def ptz_restart_def adjust_def
      intro: plain_command_good)

lemma run_pad_action_good: "run_pad_action a p args = (r, es) \<Longrightarrow> result_good r"
  by (cases a) (auto simp: run_pad_action_def set_left_servo_def set_right_servo_def set_left_lamp_def
      set_right_lamp_def intro: plain_command_good)

lemma camera_report_good:
  assumes "utf8_valid pretty" "json_good args"
  shows "result_good (camera_report pretty args)"
proof (cases "camera_report pretty args")
  case (Inl e)
  then show ?thesis using json_set_exn by (auto simp: camera_report_def rbind_eq_Inl)
next
  case (Inr j)
  then obtain r where r: "json_set J_null ''__PRETTY_FUNCTION__'' (J_string pretty) = Inr r"
    "json_set r ''args'' args = Inr j"
    by (auto simp: camera_report_def)
  from json_good_set [OF r(1)] assms(1) have "json_good r"
    by (simp add: utf8_valid_ascii_string del: utf8_valid.simps)
  from json_good_set [OF r(2) this assms(2)] Inr show ?thesis
    by (simp add: utf8_valid_ascii_string del: utf8_valid.simps)
qed

lemma run_action_good:
  assumes "run_action pretty turns d fn args = Some (r, d', es)" "get_action d code = Inr fn"
    "\<And>a. utf8_valid (pretty a)" "json_good args"
  shows "result_good r"
  using assms(1) get_action_kind [OF assms(2)] camera_report_good [OF assms(3,4)]
  by (auto simp: run_action_def split: device.splits prod.splits
      intro: run_body_action_good run_ptz_action_good run_pad_action_good)

lemma dispatch_good:
  assumes "dispatch pretty turns rb dcode acode args = Some (r, rb', es)"
    "\<And>a. utf8_valid (pretty a)" "json_good args"
  shows "(r = Inl Std_out_of_range \<and> rb' = rb \<and> es = []) \<or> result_good r"
  using assms(1) get_action_error run_action_good [OF _ _ assms(2,3)]
  by (auto simp: dispatch_def get_device_def map_at_def split: sum.splits option.splits)

section \<open>Properties\<close>

text \<open>
  C21. Every dispatched action ends in a way the task's handlers expect: when the device or its action does
  not exist the call fails with \<open>std::out_of_range\<close> and nothing happens; otherwise it fails with one of
  the json errors that \<open>task::run\<close> catches or returns null or a well-formed object that prints, and no
  device but the one addressed changes.
\<close>

theorem dispatch_contract:
  assumes "dispatch pretty turns rb dcode acode args = Some (r, rb', es)"
    "sm_inv rb" "\<And>a. utf8_valid (pretty a)" "json_good args"
  shows "if \<exists>d fn. get_device rb dcode = Inr d \<and> get_action d acode = Inr fn
    then result_good r \<and> (\<forall>c. c \<noteq> dcode \<longrightarrow> get_device rb' c = get_device rb c) \<and>
      map_of rb' dcode \<noteq> None
    else r = Inl Std_out_of_range \<and> rb' = rb \<and> es = []"
proof (cases "\<exists>d fn. get_device rb dcode = Inr d \<and> get_action d acode = Inr fn")
  case True
  then obtain d fn where df: "get_device rb dcode = Inr d" "get_action d acode = Inr fn" by blast
  with assms(1) obtain d' where run: "run_action pretty turns d fn args = Some (r, d', es)"
    and rb': "rb' = sm_assign dcode d' rb"
    by (auto simp: dispatch_def)
  from run_action_good [OF run df(2) assms(3,4)] True rb' assms(2) show ?thesis
    by (auto simp: get_device_def map_at_def sm.lookup_assign)
next
  case False
  with assms(1) get_action_error show ?thesis
    by (auto simp: dispatch_def get_device_def map_at_def split: sum.splits option.splits)
qed

lemma dispatch_contract_witness:
  "\<exists>r rb'. dispatch (\<lambda>_. []) [] (add_device ''7'' (Dev_body (new_action_body ''7'')) new_robot) ''7'' ''Wait''
      (J_object [(''arg'', J_integer 5)]) = Some (r, rb', [Sleep 5]) \<and> result_good r"
proof -
  let ?rb = "add_device ''7'' (Dev_body (new_action_body ''7'')) new_robot"
  let ?args = "J_object [(''arg'', J_integer 5)]"
  have a: "get_action (Dev_body (new_action_body ''7'')) ''Wait'' = Inr (Body_fn Wait)"
    unfolding get_action_def device.case by code_simp
  have g: "get_device ?rb ''7'' = Inr (Dev_body (new_action_body ''7''))"
    by (simp add: get_device_ops)
  have w: "body_wait b ?args = (Inr J_null, b, [Sleep 5])" for b
    by (simp add: body_wait_def get_int_def is_int32_def)
  have d: "dispatch (\<lambda>_. []) [] ?rb ''7'' ''Wait'' ?args =
      Some (Inr J_null, sm_assign ''7'' (Dev_body (new_action_body ''7'')) ?rb, [Sleep 5])"
    by (simp add: dispatch_def g a run_action_def run_body_action_def w)
  have good: "json_good ?args"
    by (simp add: json_good_def utf8_valid_ascii_string del: utf8_valid.simps)
  have "\<exists>dv fn. get_device ?rb ''7'' = Inr dv \<and> get_action dv ''Wait'' = Inr fn" using g a by blast
  with dispatch_contract [OF d _ _ good] d show ?thesis by (auto simp: utf8_valid.simps)
qed

end
