(* ===== verification/TimedTask.thy ===== *)
theory TimedTask imports Config Robot begin

text \<open>
  The timed tasks (\<open>timed_task.hpp\<close>, \<open>timed_task.cpp\<close>): the list in memory, the crontab file and the task
  files, which the service rewrites on every change and reads back when it starts.  The file system is a
  map from paths to contents; which files can be opened and the working directory are the environment.
  An operation returns its outcome with the state it leaves, also when it throws.  The text
  \<open>THROW_RUNTIME_ERROR\<close> puts in front of a message (file, line and function) is left out.
\<close>

section \<open>Files\<close>

record file_system =
  files :: "(string, string) smap"
  task_dir_exists :: bool

record environment =
  can_read :: "string \<Rightarrow> bool"
  can_write :: "string \<Rightarrow> bool"
  can_mkdir :: bool
  working_dir :: string

record timed_set =
  cron_file_path :: string
  task_recv_topic :: string
  timed_task_list :: "json list"

definition task_file_path :: string where
  "task_file_path = ''./timed_task/''"

text \<open>The path handed to the system ends at the first NUL.\<close>

definition task_file :: "string \<Rightarrow> string" where
  "task_file ident = c_str (task_file_path @ ident @ ''.json'')"

definition put_file :: "string \<Rightarrow> string \<Rightarrow> file_system \<Rightarrow> file_system" where
  "put_file path content fs = fs\<lparr> files := sm_assign path content (files fs) \<rparr>"

section \<open>Writing\<close>

abbreviation "LF \<equiv> CHR 0x0A"
abbreviation "QUOTE \<equiv> CHR 0x22"
abbreviation "APOS \<equiv> CHR 0x27"

text \<open>A \<open>std::filesystem::path\<close> is written as \<open>std::quoted\<close>.\<close>

definition quoted :: "string \<Rightarrow> string" where
  "quoted s = QUOTE # concat (map (\<lambda>c. if c = QUOTE \<or> c = CHR 0x5C then [CHR 0x5C, c] else [c]) s) @ [QUOTE]"

definition cron_header :: "string \<Rightarrow> string" where
  "cron_header dir = ''SHELL=/bin/bash'' @ [LF] @
     ''PATH=/usr/local/sbin:/usr/local/bin:/sbin:/bin:/usr/sbin:/usr/bin'' @ [LF] @
     ''MAILTO='' @ [QUOTE, QUOTE] @ [LF] @
     ''CRON_TZ=Asia/Shanghai'' @ [LF] @
     ''TZ=Asia/Shanghai'' @ [LF] @
     ''WORK_DIR='' @ quoted dir @ [LF]"

definition cron_command_tail :: "config_item \<Rightarrow> string \<Rightarrow> string" where
  "cron_command_tail cfg topic =
     '' | ./mqttx pub -V 3.1.1 --username '' @ [APOS] @ broker_username cfg @ [APOS] @ '' --password '' @
     [APOS] @ broker_password cfg @ [APOS] @ '' -h '' @ [APOS] @ broker_ip cfg @ [APOS] @ '' -p '' @
     dec_string (broker_port cfg) @ '' -t '' @ [APOS] @ topic @ [APOS] @
     '' -q 2 --stdin &>> ./logs/cron.log''"

definition cron_command :: "config_item \<Rightarrow> string \<Rightarrow> string \<Rightarrow> string" where
  "cron_command cfg topic ident =
     ''cd ${WORK_DIR} && mkdir -p logs && cat ./timed_task/'' @ ident @ ''.json'' @ cron_command_tail cfg topic"

definition cron_line :: "config_item \<Rightarrow> string \<Rightarrow> string \<Rightarrow> string \<Rightarrow> string" where
  "cron_line cfg topic expr ident = expr @ '' root '' @ cron_command cfg topic ident @ [LF]"

text \<open>
  The loop of \<open>update_file\<close>: \<open>text\<close> is what the crontab file holds so far.  On an exception the file keeps
  what has been written.
\<close>

fun write_tasks ::
  "environment \<Rightarrow> config_item \<Rightarrow> string \<Rightarrow> json list \<Rightarrow> string \<Rightarrow> file_system \<Rightarrow> unit res \<times> string \<times> file_system" where
  "write_tasks env cfg topic [] text fs = (Inr (), text, fs)"
| "write_tasks env cfg topic (t # ts) text fs =
     (case rbind (rbind (json_at t ''id'') get_string) (\<lambda>ident.
            rbind (rbind (json_at t ''cron'') get_string) (\<lambda>expr. Inr (ident, expr))) of
        Inl e \<Rightarrow> (Inl e, text, fs)
      | Inr (ident, expr) \<Rightarrow>
          (let text' = text @ cron_line cfg topic expr ident in
           if \<not> can_write env (task_file ident)
           then (Inl (Std_runtime_error (''Unable to open cron_file:'' @ task_file ident)), text', fs)
           else (case json_dump 4 t of
               Inl e \<Rightarrow> (Inl e, text', put_file (task_file ident) [] fs)
             | Inr content \<Rightarrow>
                 write_tasks env cfg topic ts text' (put_file (task_file ident) (content @ [LF]) fs))))"

definition make_task_dir :: "environment \<Rightarrow> file_system \<Rightarrow> file_system res" where
  "make_task_dir env fs =
     (if task_dir_exists fs then Inr fs
      else if can_mkdir env then Inr (fs\<lparr> task_dir_exists := True \<rparr>)
      else Inl (Std_runtime_error ''create_directory''))"

definition update_file :: "environment \<Rightarrow> config_item \<Rightarrow> timed_set \<Rightarrow> file_system \<Rightarrow> unit res \<times> file_system" where
  "update_file env cfg s fs0 = (case make_task_dir env fs0 of
      Inl e \<Rightarrow> (Inl e, fs0)
    | Inr fs \<Rightarrow>
        if \<not> can_write env (cron_file_path s)
        then (Inl (Std_runtime_error (''Unable to open cron_file:'' @ cron_file_path s)), fs)
        else (case write_tasks env cfg (task_recv_topic s) (timed_task_list s) (cron_header (working_dir env)) fs of
            (r, text, fs') \<Rightarrow> (r, put_file (cron_file_path s) text fs')))"

section \<open>Changing the list\<close>

text \<open>\<open>add_timed_task\<close>'s search loop: the list without the first task of the same id.\<close>

fun erase_same_id :: "json \<Rightarrow> json list \<Rightarrow> json list res" where
  "erase_same_id task [] = Inr []"
| "erase_same_id task (t # ts) =
     rbind (json_at t ''id'') (\<lambda>i1. rbind (json_at task ''id'') (\<lambda>i2.
       if json_eq i1 i2 then Inr ts else rbind (erase_same_id task ts) (\<lambda>ts'. Inr (t # ts'))))"

definition add_timed_task ::
  "environment \<Rightarrow> config_item \<Rightarrow> json \<Rightarrow> timed_set \<Rightarrow> file_system \<Rightarrow> unit res \<times> timed_set \<times> file_system" where
  "add_timed_task env cfg task0 s fs =
     (case rbind (json_set task0 ''type'' (J_integer 3)) (\<lambda>task.
             rbind (erase_same_id task (timed_task_list s)) (\<lambda>ts. Inr (ts @ [task]))) of
        Inl e \<Rightarrow> (Inl e, s, fs)
      | Inr ts \<Rightarrow> (let s' = s\<lparr> timed_task_list := ts \<rparr> in
          case update_file env cfg s' fs of (r, fs') \<Rightarrow> (r, s', fs')))"

text \<open>\<open>del_timed_task\<close>'s loop: None when no task has the id.\<close>

fun find_task_id :: "string \<Rightarrow> json list \<Rightarrow> json list option res" where
  "find_task_id ident [] = Inr None"
| "find_task_id ident (t # ts) =
     rbind (rbind (json_at t ''id'') get_string) (\<lambda>i.
       if i = ident then Inr (Some ts)
       else rbind (find_task_id ident ts) (\<lambda>r. Inr (map_option (\<lambda>ts'. t # ts') r)))"

definition del_timed_task ::
  "environment \<Rightarrow> config_item \<Rightarrow> string \<Rightarrow> timed_set \<Rightarrow> file_system \<Rightarrow> unit res \<times> timed_set \<times> file_system" where
  "del_timed_task env cfg ident s fs = (case find_task_id ident (timed_task_list s) of
      Inl e \<Rightarrow> (Inl e, s, fs)
    | Inr None \<Rightarrow> (Inr (), s, fs)
    | Inr (Some ts) \<Rightarrow> (let s' = s\<lparr> timed_task_list := ts \<rparr> in
        case update_file env cfg s' fs of (r, fs') \<Rightarrow> (r, s', fs')))"

definition get_timed_task_list :: "timed_set \<Rightarrow> json list" where
  "get_timed_task_list s = timed_task_list s"

section \<open>Reading the crontab\<close>

text \<open>White space of the C locale, the word characters of \<open>\w\<close> and the characters of a cron field.\<close>

definition is_space :: "char \<Rightarrow> bool" where
  "is_space c \<longleftrightarrow> c = CHR 0x20 \<or> (0x09 \<le> ord c \<and> ord c \<le> 0x0D)"

definition is_alnum :: "char \<Rightarrow> bool" where
  "is_alnum c \<longleftrightarrow> (CHR ''a'' \<le> c \<and> c \<le> CHR ''z'') \<or> (CHR ''A'' \<le> c \<and> c \<le> CHR ''Z'') \<or>
     (CHR ''0'' \<le> c \<and> c \<le> CHR ''9'')"

definition is_word :: "char \<Rightarrow> bool" where
  "is_word c \<longleftrightarrow> is_alnum c \<or> c = CHR ''_''"

definition is_field :: "char \<Rightarrow> bool" where
  "is_field c \<longleftrightarrow> is_alnum c \<or> c \<in> set ''-*?/,''"

text \<open>The lines \<open>std::getline(cron_file >> std::ws, line)\<close> yields.\<close>

function cron_lines :: "string \<Rightarrow> string list" where
  "cron_lines s = (case dropWhile is_space s of
      [] \<Rightarrow> []
    | c # cs \<Rightarrow> takeWhile (\<lambda>x. x \<noteq> LF) (c # cs) # cron_lines (drop 1 (dropWhile (\<lambda>x. x \<noteq> LF) (c # cs))))"
  by pat_completeness auto

lemma length_dropWhile_less: "dropWhile P s = c # cs \<Longrightarrow> length cs < length s"
  using length_dropWhile_le [of P s] by simp

termination cron_lines
proof (relation "measure length")
  fix s :: string and c cs
  assume "dropWhile is_space s = c # cs"
  then have "length cs < length s" by (rule length_dropWhile_less)
  moreover have "length (drop 1 (dropWhile (\<lambda>x. x \<noteq> LF) (c # cs))) \<le> length cs"
    using length_dropWhile_le [of "\<lambda>x. x \<noteq> LF" cs] by (cases "c = LF") auto
  ultimately show "(drop 1 (dropWhile (\<lambda>x. x \<noteq> LF) (c # cs)), s) \<in> measure length" by simp
qed simp

declare cron_lines.simps [simp del]

text \<open>
  The two regular expressions, in the only way they can match.  A run of one class followed by white space
  is maximal, as the classes are disjoint from white space; so the five fields, the user name and the
  white space between them are determined.
\<close>

definition eat_run :: "(char \<Rightarrow> bool) \<Rightarrow> string \<Rightarrow> string option" where
  "eat_run P s = (if s \<noteq> [] \<and> P (hd s) then Some (dropWhile P s) else None)"

fun eat_fields :: "nat \<Rightarrow> string \<Rightarrow> string option" where
  "eat_fields 0 s = Some s"
| "eat_fields (Suc n) s = (case eat_run is_field s of
      None \<Rightarrow> None
    | Some s1 \<Rightarrow> (case eat_run is_space s1 of None \<Rightarrow> None | Some s2 \<Rightarrow> eat_fields n s2))"

text \<open>
  What follows five fields and white space: a user name of one to 32 word characters, white space and the
  command, which has no line break.  When nothing follows the white space, its last character becomes the
  command.
\<close>

definition match_command :: "string \<Rightarrow> string option" where
  "match_command s =
     (let user = takeWhile is_word s; rest = dropWhile is_word s;
          ws = takeWhile is_space rest; cmd = dropWhile is_space rest in
      if user = [] \<or> length user > 32 \<or> ws = [] then None
      else if cmd \<noteq> [] then (if LF \<in> set cmd \<or> CHR 0x0D \<in> set cmd then None else Some cmd)
      else if length ws \<ge> 2 \<and> last ws \<noteq> LF \<and> last ws \<noteq> CHR 0x0D then Some [last ws]
      else None)"

definition match_cron_line :: "string \<Rightarrow> string option" where
  "match_cron_line line = (case eat_fields 5 line of None \<Rightarrow> None | Some s \<Rightarrow> match_command s)"

text \<open>The first place where \<open>cat\s\./timed_task/\<close> matches: what follows it.\<close>

definition after_cat :: "string \<Rightarrow> string option" where
  "after_cat s = (if take 3 s = ''cat'' \<and> 4 \<le> length s \<and> is_space (s ! 3) \<and> take 13 (drop 4 s) = ''./timed_task/''
     then Some (drop 17 s) else None)"

fun find_cat :: "string \<Rightarrow> string option" where
  "find_cat [] = None"
| "find_cat (c # s) = (case after_cat (c # s) of Some r \<Rightarrow> Some r | None \<Rightarrow> find_cat s)"

text \<open>The text before the last \<open>.json\<close>.\<close>

fun before_json :: "string \<Rightarrow> string option" where
  "before_json [] = None"
| "before_json (c # s) = (case before_json s of
      Some r \<Rightarrow> Some (c # r)
    | None \<Rightarrow> if take 5 (c # s) = ''.json'' then Some [] else None)"

definition match_task_id :: "string \<Rightarrow> string option" where
  "match_task_id cmd = (if LF \<in> set cmd \<or> CHR 0x0D \<in> set cmd then None
     else case find_cat cmd of None \<Rightarrow> None | Some r \<Rightarrow> before_json r)"

section \<open>Starting\<close>

fun load_tasks :: "environment \<Rightarrow> file_system \<Rightarrow> string list \<Rightarrow> json list res" where
  "load_tasks env fs [] = Inr []"
| "load_tasks env fs (line # lines) =
     (if line = [] \<and> hd line = CHR ''#'' then load_tasks env fs lines
      else case match_cron_line line of
        None \<Rightarrow> load_tasks env fs lines
      | Some cmd \<Rightarrow> (case match_task_id cmd of
          None \<Rightarrow> load_tasks env fs lines
        | Some ident \<Rightarrow> (case map_of (files fs) (task_file ident) of
            None \<Rightarrow> load_tasks env fs lines
          | Some content \<Rightarrow>
              if \<not> can_read env (task_file ident)
              then Inl (Std_runtime_error (''Unable to open task_file:'' @ task_file ident))
              else rbind (json_parse content) (\<lambda>task.
                rbind (load_tasks env fs lines) (\<lambda>ts. Inr (if is_object task then task # ts else ts))))))"

definition new_timed_set ::
  "environment \<Rightarrow> config_item \<Rightarrow> string \<Rightarrow> string \<Rightarrow> file_system \<Rightarrow> timed_set res \<times> file_system" where
  "new_timed_set env cfg cron_path topic fs0 =
     (let fs1 = (if map_of (files fs0) cron_path = None \<and> can_write env cron_path
                 then put_file cron_path [] fs0 else fs0) in
      case make_task_dir env fs1 of
        Inl e \<Rightarrow> (Inl e, fs1)
      | Inr fs \<Rightarrow> (case map_of (files fs) cron_path of
          None \<Rightarrow> (Inl (Std_runtime_error (''Unable to open cron_file:'' @ cron_path)), fs)
        | Some text \<Rightarrow>
            if \<not> can_read env cron_path
            then (Inl (Std_runtime_error (''Unable to open cron_file:'' @ cron_path)), fs)
            else (case load_tasks env fs (cron_lines text) of
                Inl e \<Rightarrow> (Inl e, fs)
              | Inr ts \<Rightarrow>
                  (let s = \<lparr> cron_file_path = cron_path, task_recv_topic = topic, timed_task_list = ts \<rparr> in
                   case update_file env cfg s fs of (r, fs') \<Rightarrow> (rbind r (\<lambda>_. Inr s), fs')))))"

end
