(* ===== verification/TimedTaskFiles.thy ===== *)
theory TimedTaskFiles imports TimedTask begin

text \<open>
  What the timed tasks write and read back: the crontab lines and the two regular expressions are inverse
  on well-formed tasks, a restart finds the tasks that were stored, the list behaves as an ordered map by
  id, and what happens when a task lacks its id or its cron expression.
\<close>

section \<open>Reading back what was written\<close>

lemma cron_lines_Nil [simp]: "cron_lines [] = []"
  by (simp add: cron_lines.simps)

lemma cron_lines_line:
  assumes "l \<noteq> []" "\<not> is_space (hd l)" "LF \<notin> set l"
  shows "cron_lines (l @ LF # rest) = l # cron_lines rest"
proof -
  have d: "dropWhile is_space (l @ LF # rest) = l @ LF # rest" using assms(1,2) by (cases l) simp_all
  have t: "takeWhile (\<lambda>x. x \<noteq> LF) (l @ LF # rest) = l"
    using assms(3) by (intro takeWhile_append_stop) auto
  have w: "dropWhile (\<lambda>x. x \<noteq> LF) (l @ LF # rest) = LF # rest"
    using assms(3) by (intro dropWhile_append_stop) auto
  have c: "(case xs of [] \<Rightarrow> [] | c # cs \<Rightarrow> f (c # cs)) = f xs" if "xs \<noteq> []" for xs :: string and f :: "string \<Rightarrow> string list"
    using that by (cases xs) auto
  have "cron_lines (l @ LF # rest) = takeWhile (\<lambda>x. x \<noteq> LF) (l @ LF # rest) #
      cron_lines (drop 1 (dropWhile (\<lambda>x. x \<noteq> LF) (l @ LF # rest)))"
    by (subst cron_lines.simps, subst d, rule c) simp
  then show ?thesis unfolding t w by simp
qed

lemma field_not_space: "is_field c \<Longrightarrow> \<not> is_space c"
proof -
  have "\<not> is_field c" if "is_space c"
  proof -
    have "ord c \<in> set [9..<14] \<or> c = CHR 0x20" using that by (auto simp: is_space_def)
    then have "c \<in> {CHR 0x09, CHR 0x0A, CHR 0x0B, CHR 0x0C, CHR 0x0D, CHR 0x20}"
      by (auto simp: char_eq_iff_ord)
    then show ?thesis by (auto simp: is_field_def is_alnum_def)
  qed
  then show "is_field c \<Longrightarrow> \<not> is_space c" by blast
qed

lemma word_not_space: "is_word c \<Longrightarrow> \<not> is_space c"
proof -
  assume "is_word c"
  then consider "c = CHR ''_''" | "is_field c" by (auto simp: is_word_def is_field_def)
  then show ?thesis using field_not_space by cases (auto simp: is_space_def)
qed

lemma eat_run_append:
  "r \<noteq> [] \<Longrightarrow> \<forall>c\<in>set r. P c \<Longrightarrow> s = [] \<or> \<not> P (hd s) \<Longrightarrow> eat_run P (r @ s) = Some s"
proof -
  assume r: "r \<noteq> []" "\<forall>c\<in>set r. P c" and s: "s = [] \<or> \<not> P (hd s)"
  then have "dropWhile P (r @ s) = dropWhile P s" by (intro dropWhile_append2) auto
  moreover have "dropWhile P s = s" using s by (cases s) auto
  ultimately show ?thesis using r by (cases r) (auto simp: eat_run_def)
qed

text \<open>A cron expression: five fields with white space between them.\<close>

definition cron_part :: "string \<times> string \<Rightarrow> bool" where
  "cron_part p \<longleftrightarrow> fst p \<noteq> [] \<and> (\<forall>c\<in>set (fst p). is_field c) \<and> snd p \<noteq> [] \<and> (\<forall>c\<in>set (snd p). is_space c \<and> c \<noteq> LF)"

definition cron_ok :: "string \<Rightarrow> bool" where
  "cron_ok e \<longleftrightarrow> (\<exists>ps f. length ps = 4 \<and> (\<forall>p\<in>set ps. cron_part p) \<and> f \<noteq> [] \<and> (\<forall>c\<in>set f. is_field c) \<and>
     e = concat (map (\<lambda>p. fst p @ snd p) ps) @ f)"

lemma eat_fields_append:
  "\<forall>p\<in>set ps. cron_part p \<Longrightarrow> s \<noteq> [] \<Longrightarrow> \<not> is_space (hd s) \<Longrightarrow>
   eat_fields (length ps) (concat (map (\<lambda>p. fst p @ snd p) ps) @ s) = Some s"
proof (induction ps)
  case (Cons p ps)
  let ?rest = "concat (map (\<lambda>p. fst p @ snd p) ps) @ s"
  have p: "fst p \<noteq> []" "\<forall>c\<in>set (fst p). is_field c" "snd p \<noteq> []" "\<forall>c\<in>set (snd p). is_space c"
    using Cons.prems(1) by (auto simp: cron_part_def)
  have hd: "\<not> is_space (hd ?rest)" "?rest \<noteq> []"
    using Cons.prems by (cases ps; auto simp: cron_part_def field_not_space hd_append)+
  have "\<not> is_field (hd (snd p @ ?rest))" using p(3,4) field_not_space by (cases "snd p") auto
  then have "eat_run is_field (fst p @ snd p @ ?rest) = Some (snd p @ ?rest)"
    using p by (intro eat_run_append) auto
  moreover have "eat_run is_space (snd p @ ?rest) = Some ?rest"
    using p hd by (intro eat_run_append) auto
  ultimately show ?case using Cons by simp
qed simp

lemma match_cron_line_ok:
  assumes "cron_ok e" "cmd \<noteq> []" "\<not> is_space (hd cmd)" "LF \<notin> set cmd" "CHR 0x0D \<notin> set cmd"
  shows "match_cron_line (e @ '' root '' @ cmd) = Some cmd"
proof -
  from assms(1) obtain ps f where e: "length ps = 4" "\<forall>p\<in>set ps. cron_part p" "f \<noteq> []" "\<forall>c\<in>set f. is_field c"
    "e = concat (map (\<lambda>p. fst p @ snd p) ps) @ f" by (auto simp: cron_ok_def)
  have "eat_fields (length (ps @ [(f, '' '')])) (concat (map (\<lambda>p. fst p @ snd p) (ps @ [(f, '' '')])) @ ''root '' @ cmd) =
      Some (''root '' @ cmd)"
    by (rule eat_fields_append) (use e in \<open>auto simp: cron_part_def is_space_def\<close>)
  then have "eat_fields 5 (e @ '' root '' @ cmd) = Some (''root '' @ cmd)" using e(1,5) by simp
  moreover have "match_command (''root '' @ cmd) = Some cmd"
  proof -
    have w: "is_word (CHR ''r'')" "is_word (CHR ''o'')" "is_word (CHR ''t'')" "\<not> is_word (CHR 0x20)"
      "is_space (CHR 0x20)"
      by (simp_all add: is_word_def is_alnum_def is_space_def)
    have "dropWhile is_space cmd = cmd" "takeWhile is_space cmd = []"
      using assms(2,3) by (cases cmd; simp)+
    then show ?thesis using assms(2,4,5) w by (simp add: match_command_def Let_def)
  qed
  ultimately show ?thesis by (simp add: match_cron_line_def)
qed

lemma match_header:
  assumes "\<not> is_field c" "\<not> is_space c" "\<forall>c\<in>set f. is_field c"
  shows "match_cron_line (f @ c # s) = None"
proof (cases f)
  case Nil
  then show ?thesis using assms by (simp add: match_cron_line_def eat_run_def numeral_eq_Suc)
next
  case (Cons d ds)
  have "eat_run is_field (f @ c # s) = Some (c # s)"
    using assms Cons by (intro eat_run_append) auto
  then show ?thesis using assms by (simp add: match_cron_line_def eat_run_def [of is_space] numeral_eq_Suc)
qed

lemma before_json_append:
  assumes "before_json tail = None" "tail = CHR '' '' # u"
  shows "before_json (s @ ''.json'' @ tail) = Some s"
proof (induction s)
  case Nil
  have "before_json (''json'' @ tail) = None" using assms by simp
  then show ?case by simp
qed simp


lemma json_roundtrip_line:
  assumes "json_ok j" "json_utf8 j" "json_dump 4 j = Inr t"
  shows "json_parse (t @ [LF]) = Inr (json_norm j)"
proof -
  have d: "dump_value True False 4 0 j = Inr t" using assms(3) by (simp add: json_dump_def)
  have "value_stop [LF]" by (simp add: value_stop_def)
  then obtain tok r where p: "scan (t @ [LF]) = (tok, r)" "sax_value tok r [] = sax_state (json_norm j) [LF] []"
    using readsD [OF reads_dump [OF assms(1,2) d], of "[LF]" "[]"] by auto
  obtain c cs where t: "t = c # cs" "c \<noteq> CHR 0xEF"
    using dump_value_hd [OF d assms(1,2)] by (cases t) auto
  have "skip_bom (t @ [LF]) = Some (t @ [LF])" using t by (simp add: skip_bom_def)
  moreover have "fst (scan [LF]) = T_end_of_input" by (simp add: scan_def is_ws_def)
  ultimately show ?thesis using p by (simp add: json_parse_def sax_state.simps)
qed


definition name_ok :: "string \<Rightarrow> bool" where
  "name_ok s \<longleftrightarrow> LF \<notin> set s \<and> CHR 0x0D \<notin> set s \<and> CHR 0x00 \<notin> set s"

text \<open>A timed task that can be written and found again.\<close>

definition storable :: "json \<Rightarrow> bool" where
  "storable t \<longleftrightarrow> is_object t \<and> json_ok t \<and> json_utf8 t \<and>
     (\<exists>ident expr. json_at t ''id'' = Inr (J_string ident) \<and> json_at t ''cron'' = Inr (J_string expr) \<and>
        name_ok ident \<and> cron_ok expr)"

definition id_of :: "json \<Rightarrow> string" where
  "id_of t = (case json_at t ''id'' of Inr (J_string i) \<Rightarrow> i | _ \<Rightarrow> [])"

definition cron_of :: "json \<Rightarrow> string" where
  "cron_of t = (case json_at t ''cron'' of Inr (J_string i) \<Rightarrow> i | _ \<Rightarrow> [])"

definition tail_ok :: "config_item \<Rightarrow> string \<Rightarrow> bool" where
  "tail_ok cfg topic \<longleftrightarrow> LF \<notin> set (cron_command_tail cfg topic) \<and> CHR 0x0D \<notin> set (cron_command_tail cfg topic) \<and>
     before_json (cron_command_tail cfg topic) = None"

lemma storableD:
  assumes "storable t"
  shows "json_at t ''id'' = Inr (J_string (id_of t))" "json_at t ''cron'' = Inr (J_string (cron_of t))"
    "name_ok (id_of t)" "cron_ok (cron_of t)" "is_object t" "json_ok t" "json_utf8 t"
  using assms by (auto simp: storable_def id_of_def cron_of_def)

lemma task_file_id: "CHR 0x00 \<notin> set i \<Longrightarrow> task_file i = ''./timed_task/'' @ i @ ''.json''"
  unfolding task_file_def task_file_path_def by (rule c_str_id) auto

lemma task_file_inj: "name_ok i \<Longrightarrow> name_ok k \<Longrightarrow> task_file i = task_file k \<longleftrightarrow> i = k"
  by (auto simp: name_ok_def task_file_id)

lemma cron_command_parse:
  assumes "name_ok ident" "tail_ok cfg topic"
  shows "match_task_id (cron_command cfg topic ident) = Some ident"
proof -
  let ?tail = "cron_command_tail cfg topic"
  have "\<exists>u. ?tail = CHR '' '' # u" by (simp add: cron_command_tail_def)
  then have b: "before_json (ident @ ''.json'' @ ?tail) = Some ident"
    using before_json_append assms(2) by (auto simp: tail_ok_def)
  have f: "find_cat (cron_command cfg topic ident) = Some (ident @ ''.json'' @ ?tail)"
    unfolding cron_command_def by (simp add: after_cat_def is_space_def)
  have "LF \<notin> set (cron_command cfg topic ident) \<and> CHR 0x0D \<notin> set (cron_command cfg topic ident)"
    using assms unfolding cron_command_def by (auto simp: name_ok_def tail_ok_def)
  with f b show ?thesis by (simp add: match_task_id_def)
qed

lemma cron_command_hd:
  "cron_command cfg topic ident \<noteq> []" "\<not> is_space (hd (cron_command cfg topic ident))"
  by (simp_all add: cron_command_def is_space_def)

lemma cron_ok_hd: "cron_ok e \<Longrightarrow> e \<noteq> [] \<and> \<not> is_space (hd e) \<and> LF \<notin> set e"
proof -
  assume "cron_ok e"
  then obtain ps f where e: "length ps = 4" "\<forall>p\<in>set ps. cron_part p" "f \<noteq> []" "\<forall>c\<in>set f. is_field c"
    "e = concat (map (\<lambda>p. fst p @ snd p) ps) @ f" by (auto simp: cron_ok_def)
  obtain p ps' where ps: "ps = p # ps'" using e(1) by (cases ps) auto
  have "LF \<notin> set f" using e(4) field_not_space [of LF] by (auto simp: is_space_def)
  moreover have "LF \<notin> set (fst q @ snd q)" if "q \<in> set ps" for q
  proof -
    have "cron_part q" using e(2) that by blast
    then have q: "\<forall>c\<in>set (fst q). is_field c" "\<forall>c\<in>set (snd q). c \<noteq> LF" by (simp_all add: cron_part_def)
    have "\<not> is_field LF" using field_not_space [of LF] by (auto simp: is_space_def)
    with q show ?thesis by (metis Un_iff set_append)
  qed
  ultimately show ?thesis
    using e ps field_not_space by (auto simp: cron_part_def hd_append)
qed

definition task_line :: "config_item \<Rightarrow> string \<Rightarrow> json \<Rightarrow> string" where
  "task_line cfg topic t = cron_of t @ '' root '' @ cron_command cfg topic (id_of t)"

lemma task_line_facts:
  assumes "storable t" "tail_ok cfg topic"
  shows "task_line cfg topic t \<noteq> []" "\<not> is_space (hd (task_line cfg topic t))" "LF \<notin> set (task_line cfg topic t)"
    "match_cron_line (task_line cfg topic t) = Some (cron_command cfg topic (id_of t))"
    "match_task_id (cron_command cfg topic (id_of t)) = Some (id_of t)"
proof -
  note t = storableD [OF assms(1)]
  note c = cron_ok_hd [OF t(4)]
  show "task_line cfg topic t \<noteq> []" "\<not> is_space (hd (task_line cfg topic t))"
    using c by (auto simp: task_line_def)
  have cmd: "LF \<notin> set (cron_command cfg topic (id_of t))" "CHR 0x0D \<notin> set (cron_command cfg topic (id_of t))"
    using t(3) assms(2) by (auto simp: cron_command_def name_ok_def tail_ok_def)
  then show "LF \<notin> set (task_line cfg topic t)" using c by (auto simp: task_line_def)
  show "match_cron_line (task_line cfg topic t) = Some (cron_command cfg topic (id_of t))"
    unfolding task_line_def by (rule match_cron_line_ok [OF t(4) cron_command_hd cmd])
  show "match_task_id (cron_command cfg topic (id_of t)) = Some (id_of t)"
    by (rule cron_command_parse [OF t(3) assms(2)])
qed

section \<open>What a successful update writes\<close>

lemma write_tasks_ok:
  assumes "sm_inv (files fs)" "\<forall>t\<in>set ts. storable t" "distinct (map id_of ts)"
    "\<forall>t\<in>set ts. can_write env (task_file (id_of t))"
  shows "\<exists>fs'. write_tasks env cfg topic ts acc fs =
      (Inr (), acc @ concat (map (\<lambda>t. task_line cfg topic t @ [LF]) ts), fs') \<and>
    (\<forall>t\<in>set ts. \<exists>d. json_dump 4 t = Inr d \<and> map_of (files fs') (task_file (id_of t)) = Some (d @ [LF])) \<and>
    (\<forall>p. (\<forall>t\<in>set ts. p \<noteq> task_file (id_of t)) \<longrightarrow> map_of (files fs') p = map_of (files fs) p) \<and>
    task_dir_exists fs' = task_dir_exists fs \<and> sm_inv (files fs')"
  using assms
proof (induction ts arbitrary: acc fs)
  case (Cons t ts)
  note t = storableD [of t]
  have st: "storable t" using Cons.prems(2) by simp
  obtain d where d: "json_dump 4 t = Inr d"
    using json_dump_total storable_def st by blast
  let ?fs = "put_file (task_file (id_of t)) (d @ [LF]) fs"
  have inv: "sm_inv (files ?fs)" using Cons.prems(1) by (simp add: put_file_def)
  from Cons.IH [OF inv, of "acc @ task_line cfg topic t @ [LF]"] Cons.prems
  obtain fs' where fs': "write_tasks env cfg topic ts (acc @ task_line cfg topic t @ [LF]) ?fs =
      (Inr (), acc @ (task_line cfg topic t @ [LF]) @ concat (map (\<lambda>t. task_line cfg topic t @ [LF]) ts), fs')"
    "\<forall>t\<in>set ts. \<exists>d. json_dump 4 t = Inr d \<and> map_of (files fs') (task_file (id_of t)) = Some (d @ [LF])"
    "\<And>p. (\<forall>t\<in>set ts. p \<noteq> task_file (id_of t)) \<Longrightarrow> map_of (files fs') p = map_of (files ?fs) p"
    "task_dir_exists fs' = task_dir_exists ?fs" "sm_inv (files fs')"
    by auto
  have other: "\<forall>u\<in>set ts. task_file (id_of t) \<noteq> task_file (id_of u)"
    using Cons.prems(2,3) st storableD(3) task_file_inj by (metis distinct.simps(2) imageI list.set_intros(2) list.simps(9) set_map)
  have line: "cron_line cfg topic (cron_of t) (id_of t) = task_line cfg topic t @ [LF]"
    by (simp add: cron_line_def task_line_def)
  have "write_tasks env cfg topic (t # ts) acc fs = write_tasks env cfg topic ts (acc @ task_line cfg topic t @ [LF]) ?fs"
    using t(1,2) [OF st] Cons.prems(4) d line by (simp add: get_string_def Let_def)
  moreover have "map_of (files fs') (task_file (id_of t)) = Some (d @ [LF])"
    using fs'(3) [OF other] Cons.prems(1) by (simp add: put_file_def sm.lookup_assign)
  moreover have "map_of (files fs') p = map_of (files fs) p" if "\<forall>u\<in>set (t # ts). p \<noteq> task_file (id_of u)" for p
    using fs'(3) [of p] that Cons.prems(1) by (simp add: put_file_def sm.lookup_assign)
  moreover have "task_dir_exists fs' = task_dir_exists fs" using fs'(4) by (simp add: put_file_def)
  ultimately show ?case using fs'(1,2,5) d by auto
qed simp


section \<open>What a start reads\<close>

definition header_lines :: "string \<Rightarrow> string list" where
  "header_lines dir =
     [''SHELL=/bin/bash'', ''PATH=/usr/local/sbin:/usr/local/bin:/sbin:/bin:/usr/sbin:/usr/bin'',
      ''MAILTO='' @ [QUOTE, QUOTE], ''CRON_TZ=Asia/Shanghai'', ''TZ=Asia/Shanghai'', ''WORK_DIR='' @ quoted dir]"

lemma cron_header_lines: "cron_header dir = concat (map (\<lambda>l. l @ [LF]) (header_lines dir))"
  by (simp add: cron_header_def header_lines_def)

lemma cron_lines_concat:
  assumes "\<forall>l\<in>set ls. l \<noteq> [] \<and> \<not> is_space (hd l) \<and> LF \<notin> set l"
  shows "cron_lines (concat (map (\<lambda>l. l @ [LF]) ls) @ rest) = ls @ cron_lines rest"
  using assms by (induction ls) (simp_all add: cron_lines_line)

lemma LF_quoted: "LF \<notin> set dir \<Longrightarrow> LF \<notin> set (quoted dir)"
  by (auto simp: quoted_def split: if_splits)

lemma header_lines_ok:
  "LF \<notin> set dir \<Longrightarrow> \<forall>l\<in>set (header_lines dir). l \<noteq> [] \<and> \<not> is_space (hd l) \<and> LF \<notin> set l"
  unfolding header_lines_def by (simp add: is_space_def LF_quoted)

lemma header_lines_skipped:
  assumes "l \<in> set (header_lines dir)"
  shows "match_cron_line l = None"
proof -
  have e: "\<not> is_field (CHR ''='')" "\<not> is_space (CHR ''='')" "\<not> is_field (CHR ''_'')" "\<not> is_space (CHR ''_'')"
    by (simp_all add: is_field_def is_alnum_def is_space_def)
  have f: "is_field (CHR ''S'')" "is_field (CHR ''H'')" "is_field (CHR ''E'')" "is_field (CHR ''L'')"
    "is_field (CHR ''P'')" "is_field (CHR ''A'')" "is_field (CHR ''T'')" "is_field (CHR ''M'')" "is_field (CHR ''I'')"
    "is_field (CHR ''O'')" "is_field (CHR ''C'')" "is_field (CHR ''R'')" "is_field (CHR ''N'')" "is_field (CHR ''Z'')"
    "is_field (CHR ''W'')" "is_field (CHR ''K'')"
    by (simp_all add: is_field_def is_alnum_def)
  have "match_cron_line (''SHELL'' @ CHR ''='' # x) = None" "match_cron_line (''PATH'' @ CHR ''='' # x) = None"
    "match_cron_line (''MAILTO'' @ CHR ''='' # x) = None" "match_cron_line (''CRON'' @ CHR ''_'' # x) = None"
    "match_cron_line (''TZ'' @ CHR ''='' # x) = None" "match_cron_line (''WORK'' @ CHR ''_'' # x) = None" for x
    by (rule match_header; simp add: e f)+
  with assms show ?thesis by (auto simp: header_lines_def)
qed

lemma load_tasks_skip:
  "\<forall>l\<in>set ls. l \<noteq> [] \<and> match_cron_line l = None \<Longrightarrow> load_tasks env fs (ls @ rest) = load_tasks env fs rest"
  by (induction ls) simp_all

lemma json_norm_object: "is_object t \<Longrightarrow> is_object (json_norm t)"
  by (cases t) (simp_all add: is_object_def)

lemma load_tasks_ok:
  assumes "\<forall>t\<in>set ts. storable t" "tail_ok cfg topic" "\<forall>p. can_read env p"
    "\<forall>t\<in>set ts. \<exists>d. json_dump 4 t = Inr d \<and> map_of (files fs) (task_file (id_of t)) = Some (d @ [LF])"
  shows "load_tasks env fs (map (task_line cfg topic) ts) = Inr (map json_norm ts)"
  using assms(1,4)
proof (induction ts)
  case (Cons t ts)
  have st: "storable t" using Cons.prems(1) by simp
  note t = storableD [OF st] and l = task_line_facts [OF st assms(2)]
  obtain d where d: "json_dump 4 t = Inr d" "map_of (files fs) (task_file (id_of t)) = Some (d @ [LF])"
    using Cons.prems(2) by auto
  have "json_parse (d @ [LF]) = Inr (json_norm t)" by (rule json_roundtrip_line [OF t(6,7) d(1)])
  then show ?case using Cons l d(2) assms(3) json_norm_object [OF t(5)] by simp
qed simp

lemma json_at_norm: "json_at (json_norm t) k = (case json_at t k of Inl e \<Rightarrow> Inl e | Inr v \<Rightarrow> Inr (json_norm v))"
proof (cases t)
  case (J_object m)
  have "map_of (map (\<lambda>kv. (fst kv, json_norm (snd kv))) m) k = map_option json_norm (map_of m k)"
    by (induction m) auto
  with J_object show ?thesis by (simp split: option.split)
qed (auto simp: json_at_def)

lemma json_norm_ok: "json_ok j \<Longrightarrow> json_ok (json_norm j)"
proof (induction j)
  case (J_object m)
  have "map fst (map (\<lambda>kv. (fst kv, json_norm (snd kv))) m) = map fst m" by simp
  with J_object show ?case by (auto simp: sm_inv_def comp_def)
qed auto

lemma json_norm_utf8: "json_utf8 j \<Longrightarrow> json_utf8 (json_norm j)"
  by (induction j) auto

lemma storable_norm:
  assumes "storable t"
  shows "storable (json_norm t)" "id_of (json_norm t) = id_of t"
proof -
  note t = storableD [OF assms]
  have a: "json_at (json_norm t) ''id'' = Inr (J_string (id_of t))" "json_at (json_norm t) ''cron'' = Inr (J_string (cron_of t))"
    using t(1,2) by (simp_all add: json_at_norm)
  then show "storable (json_norm t)"
    using t json_norm_ok json_norm_utf8 json_norm_object by (auto simp: storable_def)
  show "id_of (json_norm t) = id_of t" using a by (simp add: id_of_def [of "json_norm t"])
qed

definition env_ok :: "environment \<Rightarrow> bool" where
  "env_ok env \<longleftrightarrow> (\<forall>p. can_read env p) \<and> (\<forall>p. can_write env p) \<and> can_mkdir env \<and> LF \<notin> set (working_dir env)"

lemma update_file_ok:
  assumes "env_ok env" "sm_inv (files fs)" "\<forall>t\<in>set (timed_task_list s). storable t"
    "distinct (map id_of (timed_task_list s))"
    "take 13 (cron_file_path s) \<noteq> ''./timed_task/''"
  shows "\<exists>fs'. update_file env cfg s fs = (Inr (), fs') \<and> sm_inv (files fs') \<and> task_dir_exists fs' \<and>
    map_of (files fs') (cron_file_path s) = Some (concat (map (\<lambda>l. l @ [LF])
      (header_lines (working_dir env) @ map (task_line cfg (task_recv_topic s)) (timed_task_list s)))) \<and>
    (\<forall>t\<in>set (timed_task_list s). \<exists>d. json_dump 4 t = Inr d \<and> map_of (files fs') (task_file (id_of t)) = Some (d @ [LF]))"
proof -
  obtain fs1 where fs1: "make_task_dir env fs = Inr fs1" "sm_inv (files fs1)" "task_dir_exists fs1"
    using assms(1,2) by (cases "task_dir_exists fs") (auto simp: make_task_dir_def env_ok_def)
  from write_tasks_ok [OF fs1(2) assms(3,4), of env cfg "task_recv_topic s" "cron_header (working_dir env)"] assms(1)
  obtain fs2 where w: "write_tasks env cfg (task_recv_topic s) (timed_task_list s) (cron_header (working_dir env)) fs1 =
      (Inr (), cron_header (working_dir env) @ concat (map (\<lambda>t. task_line cfg (task_recv_topic s) t @ [LF]) (timed_task_list s)), fs2)"
    "\<forall>t\<in>set (timed_task_list s). \<exists>d. json_dump 4 t = Inr d \<and> map_of (files fs2) (task_file (id_of t)) = Some (d @ [LF])"
    "task_dir_exists fs2 = task_dir_exists fs1" "sm_inv (files fs2)"
    by (auto simp: env_ok_def)
  have ne: "task_file (id_of t) \<noteq> cron_file_path s" if "t \<in> set (timed_task_list s)" for t
  proof -
    have "name_ok (id_of t)" using storableD(3) that assms(3) by blast
    then have "take 13 (task_file (id_of t)) = ''./timed_task/''" by (simp add: name_ok_def task_file_id)
    with assms(5) show ?thesis by metis
  qed
  show ?thesis
    using w fs1 assms(1) ne
    by (auto simp: update_file_def env_ok_def cron_header_lines put_file_def sm.lookup_assign comp_def)
qed


section \<open>The list as an ordered map\<close>

definition has_id :: "json \<Rightarrow> bool" where
  "has_id t \<longleftrightarrow> (\<exists>i. json_at t ''id'' = Inr (J_string i))"

lemma id_of_eq: "json_at t ''id'' = Inr (J_string i) \<Longrightarrow> id_of t = i"
  by (simp add: id_of_def)

lemma has_idD: "has_id t \<Longrightarrow> json_at t ''id'' = Inr (J_string (id_of t))"
  by (auto simp: has_id_def id_of_def)

lemma erase_same_id_ok:
  "\<forall>t\<in>set ts. has_id t \<Longrightarrow> has_id task \<Longrightarrow>
   erase_same_id task ts = Inr (erase_first (\<lambda>t. id_of t = id_of task) ts)"
  by (induction ts) (simp_all add: has_idD)

lemma find_task_id_ok:
  "\<forall>t\<in>set ts. has_id t \<Longrightarrow> find_task_id i ts =
     Inr (if \<exists>t\<in>set ts. id_of t = i then Some (erase_first (\<lambda>t. id_of t = i) ts) else None)"
  by (induction ts) (auto simp: has_idD get_string_def)

lemma json_set_type:
  assumes "is_object t" "json_ok t"
  obtains t' where "json_set t ''type'' (J_integer 3) = Inr t'" "\<And>k. k \<noteq> ''type'' \<Longrightarrow> json_at t' k = json_at t k"
    "is_object t'"
proof -
  from assms obtain m where m: "t = J_object m" "sm_inv m" by (auto simp: is_object_def split: json.splits)
  show ?thesis
    by (rule that [of "J_object (sm_assign ''type'' (J_integer 3) m)"])
      (use m in \<open>auto simp: sm.lookup_assign is_object_def\<close>)
qed

section \<open>The contract of the store\<close>

text \<open>
  What the callback of the service relies on: entries with distinct keys, \<open>put\<close> moving its entry to the
  end, \<open>drop\<close> removing the entry of a key.
\<close>

locale keyed_store =
  fixes entries :: "'s \<Rightarrow> 'e list"
    and key :: "'e \<Rightarrow> 'k"
    and put :: "'e \<Rightarrow> 's \<Rightarrow> 's"
    and drop_key :: "'k \<Rightarrow> 's \<Rightarrow> 's"
    and stored :: "'e \<Rightarrow> 'e"
    and valid :: "'e \<Rightarrow> bool"
    and inv :: "'s \<Rightarrow> bool"
  assumes inv_distinct: "inv s \<Longrightarrow> distinct (map key (entries s))"
    and key_stored: "valid e \<Longrightarrow> key (stored e) = key e"
    and put_entries: "inv s \<Longrightarrow> valid e \<Longrightarrow> entries (put e s) = filter (\<lambda>x. key x \<noteq> key e) (entries s) @ [stored e]"
    and drop_entries: "inv s \<Longrightarrow> entries (drop_key k s) = filter (\<lambda>x. key x \<noteq> k) (entries s)"
    and inv_put: "inv s \<Longrightarrow> valid e \<Longrightarrow> inv (put e s)"
    and inv_drop: "inv s \<Longrightarrow> inv (drop_key k s)"
begin

lemma keys_put: "inv s \<Longrightarrow> valid e \<Longrightarrow> set (map key (entries (put e s))) = insert (key e) (set (map key (entries s)))"
  by (auto simp: put_entries key_stored image_iff)

lemma keys_drop: "inv s \<Longrightarrow> set (map key (entries (drop_key k s))) = set (map key (entries s)) - {k}"
  by (auto simp: drop_entries)

lemma put_replaces:
  "inv s \<Longrightarrow> valid e \<Longrightarrow> x \<in> set (entries (put e s)) \<Longrightarrow> key x = key e \<Longrightarrow> x = stored e"
  by (auto simp: put_entries)

lemma put_keeps: "inv s \<Longrightarrow> valid e \<Longrightarrow> x \<in> set (entries s) \<Longrightarrow> key x \<noteq> key e \<Longrightarrow> x \<in> set (entries (put e s))"
  by (auto simp: put_entries)

lemma put_count:
  assumes "inv s" "valid e"
  shows "length (entries (put e s)) = (if key e \<in> set (map key (entries s)) then length (entries s) else Suc (length (entries s)))"
proof -
  have iff: "(\<exists>x\<in>set (entries s). key x = key e) \<longleftrightarrow> key e \<in> set (map key (entries s))"
    by (auto simp: image_iff) metis
  have "length (filter (\<lambda>x. key x \<noteq> key e) (entries s)) = length (erase_first (\<lambda>x. key x = key e) (entries s))"
    using erase_first_eq_filter [OF inv_distinct [OF assms(1)]] by simp
  then show ?thesis
    using put_entries [OF assms] length_erase_first [of "\<lambda>x. key x = key e" "entries s"] iff
    by (cases "entries s") (simp_all split: if_splits)
qed

lemma drop_put: "inv s \<Longrightarrow> valid e \<Longrightarrow> entries (drop_key (key e) (put e s)) = entries (drop_key (key e) s)"
  by (simp add: drop_entries inv_put put_entries key_stored)

end

definition timed_inv :: "timed_set \<Rightarrow> bool" where
  "timed_inv s \<longleftrightarrow> (\<forall>t\<in>set (timed_task_list s). has_id t) \<and> distinct (map id_of (timed_task_list s))"

definition valid_timed :: "json \<Rightarrow> bool" where
  "valid_timed t \<longleftrightarrow> is_object t \<and> json_ok t \<and> has_id t"

definition as_instant :: "json \<Rightarrow> json" where
  "as_instant t = (case json_set t ''type'' (J_integer 3) of Inr t' \<Rightarrow> t' | Inl _ \<Rightarrow> t)"

definition set_after :: "unit res \<times> timed_set \<times> file_system \<Rightarrow> timed_set" where
  "set_after r = fst (snd r)"

lemma as_instant_id:
  assumes "valid_timed t"
  shows "has_id (as_instant t)" "id_of (as_instant t) = id_of t" "json_set t ''type'' (J_integer 3) = Inr (as_instant t)"
proof -
  obtain t' where t': "json_set t ''type'' (J_integer 3) = Inr t'" "json_at t' ''id'' = json_at t ''id''"
    by (rule json_set_type [of t]) (use assms in \<open>simp_all add: valid_timed_def\<close>)
  then show "has_id (as_instant t)" "id_of (as_instant t) = id_of t" "json_set t ''type'' (J_integer 3) = Inr (as_instant t)"
    using assms by (simp_all add: as_instant_def valid_timed_def has_id_def id_of_def)
qed

lemma set_after_add:
  assumes "timed_inv s" "valid_timed t"
  shows "timed_task_list (set_after (add_timed_task env cfg t s fs)) =
    filter (\<lambda>x. id_of x \<noteq> id_of t) (timed_task_list s) @ [as_instant t]"
proof -
  note a = as_instant_id [OF assms(2)]
  have "erase_same_id (as_instant t) (timed_task_list s) = Inr (filter (\<lambda>x. id_of x \<noteq> id_of t) (timed_task_list s))"
    using assms(1) erase_same_id_ok [of "timed_task_list s" "as_instant t"] a
      erase_first_eq_filter [of id_of "timed_task_list s" "id_of t"]
    by (simp add: timed_inv_def)
  then show ?thesis using a(3) by (auto simp: add_timed_task_def set_after_def Let_def split: prod.splits)
qed

lemma set_after_del:
  assumes "timed_inv s"
  shows "timed_task_list (set_after (del_timed_task env cfg i s fs)) = filter (\<lambda>x. id_of x \<noteq> i) (timed_task_list s)"
  using assms find_task_id_ok [of "timed_task_list s" i] erase_first_eq_filter [of id_of "timed_task_list s" i]
  by (auto simp: del_timed_task_def set_after_def timed_inv_def Let_def filter_id_conv split: prod.splits if_splits)

interpretation timed: keyed_store timed_task_list id_of
    "\<lambda>t s. set_after (add_timed_task env cfg t s fs)" "\<lambda>i s. set_after (del_timed_task env cfg i s fs)"
    as_instant valid_timed timed_inv
  for env cfg fs
proof unfold_locales
  fix s t i
  show "timed_inv s \<Longrightarrow> distinct (map id_of (timed_task_list s))" by (simp add: timed_inv_def)
  show "valid_timed t \<Longrightarrow> id_of (as_instant t) = id_of t" by (rule as_instant_id)
  show "timed_inv s \<Longrightarrow> valid_timed t \<Longrightarrow> timed_task_list (set_after (add_timed_task env cfg t s fs)) =
      filter (\<lambda>x. id_of x \<noteq> id_of t) (timed_task_list s) @ [as_instant t]" by (rule set_after_add)
  show "timed_inv s \<Longrightarrow> timed_task_list (set_after (del_timed_task env cfg i s fs)) =
      filter (\<lambda>x. id_of x \<noteq> i) (timed_task_list s)" by (rule set_after_del)
  assume s: "timed_inv s"
  show "valid_timed t \<Longrightarrow> timed_inv (set_after (add_timed_task env cfg t s fs))"
    using s set_after_add [OF s] as_instant_id by (auto simp: timed_inv_def distinct_map_filter)
  show "timed_inv (set_after (del_timed_task env cfg i s fs))"
    using s set_after_del [OF s] by (auto simp: timed_inv_def distinct_map_filter)
qed

section \<open>A small timed task\<close>

definition demo_timed :: json where
  "demo_timed = J_object [(''cron'', J_string ''0 1 * * *''), (''id'', J_string ''a'')]"

definition demo_config :: config_item where
  "demo_config = \<lparr> broker_ip = ''localhost'', broker_port = 1883, broker_username = ''u'', broker_password = ''p'',
     broker_keep_alive = 60, mqtt_client_id = ''c'', robot_type = ''Pad'', conf_robot_id = ''7'',
     battery_threshold = 20, modules = [] \<rparr>"

definition demo_env :: environment where
  "demo_env = \<lparr> can_read = (\<lambda>_. True), can_write = (\<lambda>_. True), can_mkdir = True, working_dir = ''/srv'' \<rparr>"

definition demo_set :: timed_set where
  "demo_set = \<lparr> cron_file_path = ''/etc/cron.d/timed_task_robot'', task_recv_topic = ''/SmartSer/Robot/Task/7'',
     timed_task_list = [demo_timed] \<rparr>"

definition demo_files :: file_system where
  "demo_files = \<lparr> files = [], task_dir_exists = False \<rparr>"

lemma demo_timed_id: "has_id demo_timed" "id_of demo_timed = ''a''" "is_object demo_timed" "json_ok demo_timed"
  by (simp_all add: has_id_def id_of_def demo_timed_def is_object_def)

lemma demo_storable: "storable demo_timed"
proof -
  have f: "is_field (CHR ''0'')" "is_field (CHR ''1'')" "is_field (CHR ''*'')" "is_space (CHR 0x20)"
    by (simp_all add: is_field_def is_alnum_def is_space_def)
  have "cron_ok ''0 1 * * *''"
    unfolding cron_ok_def
    by (rule exI [of _ "[(''0'', '' ''), (''1'', '' ''), (''*'', '' ''), (''*'', '' '')]"], rule exI [of _ "''*''"])
      (simp add: cron_part_def f)
  then show ?thesis
    by (simp add: storable_def demo_timed_def is_object_def name_ok_def utf8_valid_ascii_string del: utf8_valid.simps)
qed

lemma demo_tail_ok: "tail_ok demo_config ''/SmartSer/Robot/Task/7''"
  by code_simp

section \<open>Restart\<close>

text \<open>
  Timed tasks survive a restart: when every task of the list is well formed (an object of valid
  UTF-8 with an id free of line breaks and NUL and a cron expression of five fields) and the ids are
  distinct, an update succeeds, and the constructor, reading the crontab and the task files it wrote,
  ends with the same tasks in the same order (numbers with the type the parser gives them).  The
  credentials and the topic must not contain \<open>.json\<close> or line breaks.
\<close>

theorem restart_roundtrip:
  assumes "env_ok env" "sm_inv (files fs)" "\<forall>t\<in>set (timed_task_list s). storable t"
    "distinct (map id_of (timed_task_list s))" "tail_ok cfg (task_recv_topic s)"
    "take 13 (cron_file_path s) \<noteq> ''./timed_task/''"
  shows "\<exists>fs1 fs2. update_file env cfg s fs = (Inr (), fs1) \<and>
    new_timed_set env cfg (cron_file_path s) (task_recv_topic s) fs1 =
      (Inr (s\<lparr> timed_task_list := map json_norm (timed_task_list s) \<rparr>), fs2)"
proof -
  let ?ts = "timed_task_list s"
  let ?lines = "header_lines (working_dir env) @ map (task_line cfg (task_recv_topic s)) ?ts"
  let ?s' = "s\<lparr> timed_task_list := map json_norm ?ts \<rparr>"
  obtain fs1 where fs1: "update_file env cfg s fs = (Inr (), fs1)" "sm_inv (files fs1)" "task_dir_exists fs1"
    "map_of (files fs1) (cron_file_path s) = Some (concat (map (\<lambda>l. l @ [LF]) ?lines))"
    "\<forall>t\<in>set ?ts. \<exists>d. json_dump 4 t = Inr d \<and> map_of (files fs1) (task_file (id_of t)) = Some (d @ [LF])"
    using update_file_ok [OF assms(1-4,6)] by blast
  have "LF \<notin> set (working_dir env)" using assms(1) by (simp add: env_ok_def)
  then have "\<forall>l\<in>set ?lines. l \<noteq> [] \<and> \<not> is_space (hd l) \<and> LF \<notin> set l"
    using header_lines_ok task_line_facts assms(3,5) by auto
  then have lines: "cron_lines (concat (map (\<lambda>l. l @ [LF]) ?lines)) = ?lines"
    using cron_lines_concat [of ?lines "[]"] by simp
  have "\<forall>l\<in>set (header_lines (working_dir env)). l \<noteq> [] \<and> match_cron_line l = None"
    using header_lines_skipped header_lines_ok \<open>LF \<notin> set (working_dir env)\<close> by blast
  then have "load_tasks env fs1 ?lines = load_tasks env fs1 (map (task_line cfg (task_recv_topic s)) ?ts)"
    by (rule load_tasks_skip)
  also have "\<dots> = Inr (map json_norm ?ts)"
    by (rule load_tasks_ok [OF assms(3,5) _ fs1(5)]) (use assms(1) in \<open>simp add: env_ok_def\<close>)
  finally have load: "load_tasks env fs1 (cron_lines (concat (map (\<lambda>l. l @ [LF]) ?lines))) = Inr (map json_norm ?ts)"
    by (simp only: lines)
  have norm: "\<forall>t\<in>set (timed_task_list ?s'). storable t" "map id_of (timed_task_list ?s') = map id_of ?ts"
    using storable_norm assms(3) by auto
  have d: "distinct (map id_of (timed_task_list ?s'))" using norm(2) assms(4) by metis
  have c: "take 13 (cron_file_path ?s') \<noteq> ''./timed_task/''" using assms(6) by simp
  obtain fs2 where "update_file env cfg ?s' fs1 = (Inr (), fs2)"
    using update_file_ok [OF assms(1) fs1(2) norm(1) d c] by blast
  moreover have "?s' = \<lparr> cron_file_path = cron_file_path s, task_recv_topic = task_recv_topic s,
      timed_task_list = map json_norm ?ts \<rparr>" by simp
  ultimately have "new_timed_set env cfg (cron_file_path s) (task_recv_topic s) fs1 = (Inr ?s', fs2)"
    using fs1(3,4) load assms(1)
    by (simp add: new_timed_set_def make_task_dir_def env_ok_def Let_def del: map_append)
  with fs1(1) show ?thesis by blast
qed

lemma restart_roundtrip_witness:
  "\<exists>fs1 fs2. update_file demo_env demo_config demo_set demo_files = (Inr (), fs1) \<and>
    new_timed_set demo_env demo_config ''/etc/cron.d/timed_task_robot'' ''/SmartSer/Robot/Task/7'' fs1 =
      (Inr demo_set, fs2)"
proof -
  have e: "env_ok demo_env" by (simp add: env_ok_def demo_env_def)
  have n: "json_norm demo_timed = demo_timed" by (simp add: demo_timed_def)
  show ?thesis
    using restart_roundtrip [OF e, of demo_files demo_set demo_config] demo_storable demo_tail_ok n
    by (simp add: demo_files_def demo_set_def)
qed

section \<open>Properties\<close>

text \<open>
  C17. The list of timed tasks is an ordered map by id: adding a task moves it to the end in place of the one
  with its id, deleting removes exactly the one with the id, the ids stay distinct, and this holds
  whether or not the files could be written.
\<close>

theorem timed_list_ordered_map:
  assumes "timed_inv s" "valid_timed t"
    "add_timed_task env cfg t s fs = (r1, s1, fs1)" "del_timed_task env cfg i s fs = (r2, s2, fs2)"
  shows "timed_task_list s1 = filter (\<lambda>x. id_of x \<noteq> id_of t) (timed_task_list s) @ [as_instant t] \<and>
    timed_task_list s2 = filter (\<lambda>x. id_of x \<noteq> i) (timed_task_list s) \<and> timed_inv s1 \<and> timed_inv s2"
  using timed.put_entries [OF assms(1,2), of env cfg fs] timed.drop_entries [OF assms(1), of env cfg i fs]
    timed.inv_put [OF assms(1,2), of env cfg fs] timed.inv_drop [OF assms(1), of env cfg i fs] assms(3,4)
  by (simp_all add: set_after_def)

lemma timed_list_ordered_map_witness:
  "\<exists>r s' fs'. add_timed_task demo_env demo_config demo_timed demo_set demo_files = (r, s', fs') \<and>
     timed_task_list s' = [as_instant demo_timed]"
proof -
  obtain r s' fs' where a: "add_timed_task demo_env demo_config demo_timed demo_set demo_files = (r, s', fs')"
    by (metis prod_cases3)
  obtain r2 s2 fs2 where d: "del_timed_task demo_env demo_config ''b'' demo_set demo_files = (r2, s2, fs2)"
    by (metis prod_cases3)
  have l: "timed_inv demo_set" "valid_timed demo_timed"
    by (simp_all add: timed_inv_def valid_timed_def demo_set_def demo_timed_id)
  from timed_list_ordered_map [OF l a d] a show ?thesis
    by (simp add: demo_set_def)
qed



text \<open>
  Comment lines of the crontab are no tasks: a line that starts with \<open>#\<close> never matches the expression of
  a task, so it is skipped although the test written for it, \<open>line.empty() && line[0] == '#'\<close>, is never
  true.
\<close>

lemma comment_lines_skipped:
  "load_tasks env fs ((CHR ''#'' # l) # lines) = load_tasks env fs lines"
proof -
  have "match_cron_line (CHR ''#'' # l) = None"
    using match_header [of "CHR ''#''" "[]" l] by (simp add: is_field_def is_alnum_def is_space_def)
  then show ?thesis by simp
qed

end
