(* ===== verification/Task.thy ===== *)
theory Task imports Robot "HOL-Library.Multiset" begin

text \<open>
  The task (\<open>task.hpp\<close>, \<open>task.cpp\<close>): its data, its construction from the backend's json, the
  assignment operator and the feedback messages.  Running a task is theory \<open>TaskRun\<close>.
\<close>

section \<open>Data\<close>

text \<open>The enumeration of class \<open>task\<close>.\<close>

abbreviation (input) "INIT \<equiv> (-1 :: int)"
abbreviation (input) "PAUSE \<equiv> (0 :: int)"
abbreviation (input) "START \<equiv> (1 :: int)"
abbreviation (input) "EXECING \<equiv> (2 :: int)"
abbreviation (input) "EXEC_RESULT \<equiv> (3 :: int)"
abbreviation (input) "END \<equiv> (4 :: int)"
abbreviation (input) "CANCEL \<equiv> (6 :: int)"
abbreviation (input) "MACHINE_EXCEPTION \<equiv> (7 :: int)"
abbreviation (input) "INSTRUCTION_EXCEPTION \<equiv> (8 :: int)"
abbreviation (input) "REQ_PAUSE \<equiv> (9 :: int)"
abbreviation (input) "REQ_RESUME \<equiv> (10 :: int)"
abbreviation (input) "REQ_CANCEL \<equiv> (11 :: int)"

record task_action =
  act_no :: int
  device_code :: string
  active_code :: string
  active_args :: json
  act_remark :: "string option"
  act_tag :: "string option"

text \<open>What a \<open>task_step_callback\<close> holds: the empty function or the lambda of \<open>set_current_task\<close>.\<close>

datatype task_callback = Empty_callback | Service_callback

record task =
  task_status :: int
  req_status :: int
  task_bot :: bool
  priority :: int
  active_no :: int
  task_id :: string
  max_count :: int
  executed_count :: int
  task_remark :: "string option"
  task_tag :: "string option"
  action_list :: "task_action list"
  task_will_start_callback :: task_callback
  action_start_callback :: task_callback
  action_result_callback :: task_callback
  pause_callback :: task_callback
  cancel_callback :: task_callback
  over_callback :: task_callback

text \<open>The default constructor: the member initializers.  \<open>task_bot\<close>: the pointer is not null.\<close>

definition empty_task :: task where
  "empty_task = \<lparr> task_status = INIT, req_status = INIT, task_bot = False, priority = 0, active_no = 0,
     task_id = '''', max_count = 0, executed_count = 0, task_remark = None, task_tag = None,
     action_list = [],
     task_will_start_callback = Empty_callback, action_start_callback = Empty_callback,
     action_result_callback = Empty_callback, pause_callback = Empty_callback,
     cancel_callback = Empty_callback, over_callback = Empty_callback \<rparr>"

section \<open>Reading a task\<close>

text \<open>\<open>get_to\<close> on \<open>std::optional<std::string>\<close>, through the serializer at the top of \<open>task.cpp\<close>.\<close>

definition get_optional_string :: "json \<Rightarrow> string option res" where
  "get_optional_string j = (if is_null j then Inr None else rbind (get_string j) (\<lambda>s. Inr (Some s)))"

definition optional_to_json :: "string option \<Rightarrow> json" where
  "optional_to_json opt = (case opt of Some s \<Rightarrow> J_string s | None \<Rightarrow> J_null)"

text \<open>The argument of an action comes as a json text inside the json message.\<close>

definition action_from_json :: "json \<Rightarrow> task_action res" where
  "action_from_json j =
     rbind (rbind (json_at j ''no'') get_int) (\<lambda>n.
     rbind (rbind (json_at j ''device_code'') get_string) (\<lambda>dc.
     rbind (rbind (json_at j ''active_code'') get_string) (\<lambda>ac.
     rbind (json_at j ''active_args'') (\<lambda>args.
     rbind (json_at args ''arg'') (\<lambda>a.
     rbind (if \<not> is_null a then rbind (get_string a) json_parse else Inr J_null) (\<lambda>arg.
     rbind (json_set args ''arg'' arg) (\<lambda>args'.
     rbind (rbind (json_at j ''remark'') get_optional_string) (\<lambda>r.
     rbind (rbind (json_at j ''tag'') get_optional_string) (\<lambda>t.
       Inr \<lparr> act_no = n, device_code = dc, active_code = ac, active_args = args', act_remark = r,
             act_tag = t \<rparr>)))))))))"

text \<open>
  \<open>std::sort\<close> with the comparison by number is a parameter: the order it leaves actions of equal number
  in is unspecified.  Its specification is \<open>sorts_actions\<close>.
\<close>

definition sorts_actions :: "(task_action list \<Rightarrow> task_action list) \<Rightarrow> bool" where
  "sorts_actions srt \<longleftrightarrow> (\<forall>xs. mset (srt xs) = mset xs \<and> sorted (map act_no (srt xs)))"

definition task_from_json ::
  "(task_action list \<Rightarrow> task_action list) \<Rightarrow> json \<Rightarrow> task \<Rightarrow> task res" where
  "task_from_json srt j t =
     rbind (rbind (json_at j ''id'') get_string) (\<lambda>ident.
     rbind (rbind (json_at j ''priority'') get_int) (\<lambda>prio.
     if prio < 0 \<or> prio > 999 then Inl (Std_runtime_error ''priority must be in [0,999]'') else
     rbind (json_value_int j ''executed_count'' 0) (\<lambda>ec.
     rbind (json_value_int j ''max_count'' 1) (\<lambda>mc.
     if ec \<ge> mc then Inl (Std_runtime_error ''executed_count must be less than max_count'') else
     rbind (rbind (json_at j ''remark'') get_optional_string) (\<lambda>r.
     rbind (rbind (json_at j ''tag'') get_optional_string) (\<lambda>tg.
     rbind (json_at j ''action_list'') (\<lambda>al.
     if is_array al then
       rbind (rmap action_from_json (json_items al)) (\<lambda>acts.
         Inr (t\<lparr> task_id := ident, priority := prio, executed_count := ec, max_count := mc,
                task_remark := r, task_tag := tg, action_list := srt (action_list t @ acts) \<rparr>))
     else Inl (Std_runtime_error
       (''field with '' @ [CHR 0x22] @ ''action_list'' @ [CHR 0x22] @ '' must be array of json'')))))))))"

text \<open>The constructor from json.\<close>

definition new_task :: "(task_action list \<Rightarrow> task_action list) \<Rightarrow> json \<Rightarrow> task res" where
  "new_task srt j = task_from_json srt j empty_task"

section \<open>Assignment and state queries\<close>

text \<open>
  \<open>operator=\<close> under the lock \<open>run_sche\<close> (theory \<open>TaskRun\<close> holds the lock); assigning a task to itself is
  the identity here, as the early return makes it in the code.
\<close>

definition task_assign :: "task \<Rightarrow> task \<Rightarrow> task" where
  "task_assign this t = this\<lparr>
     task_id := task_id t, priority := priority t, max_count := max_count t,
     executed_count := executed_count t, task_remark := task_remark t, task_tag := task_tag t,
     action_list := action_list t,
     active_no := active_no t, task_bot := task_bot t, task_status := task_status t,
     req_status := req_status t,
     task_will_start_callback := task_will_start_callback t,
     action_start_callback := action_start_callback t,
     action_result_callback := action_result_callback t,
     pause_callback := pause_callback t,
     cancel_callback := cancel_callback t,
     over_callback := over_callback t \<rparr>"

definition get_status :: "task \<Rightarrow> int" where
  "get_status t = task_status t"

definition task_is_empty :: "task \<Rightarrow> bool" where
  "task_is_empty t = (if task_status t = INIT then True else False)"

definition task_is_over :: "task \<Rightarrow> bool" where
  "task_is_over t = (if task_status t = END then True else False)"

section \<open>Feedback\<close>

text \<open>
  \<open>generate_feedback\<close> fills one static json object; \<open>fb\<close> is its value before the call and \<open>now\<close> the
  result of \<open>time(nullptr)\<close>.
\<close>

definition generate_feedback ::
  "json \<Rightarrow> int \<Rightarrow> task \<Rightarrow> int \<Rightarrow> int \<Rightarrow> string \<Rightarrow> string option \<Rightarrow> string option \<Rightarrow> json res" where
  "generate_feedback fb now t no st rslt rem tg =
     rbind (json_set fb ''task_id'' (J_string (task_id t))) (\<lambda>f.
     rbind (json_set f ''count'' (J_integer (executed_count t))) (\<lambda>f.
     rbind (json_set f ''action_no'' (J_integer no)) (\<lambda>f.
     rbind (json_set f ''time'' (J_integer now)) (\<lambda>f.
     rbind (json_set f ''status'' (J_integer st)) (\<lambda>f.
     rbind (json_set f ''result'' (J_string rslt)) (\<lambda>f.
     rbind (json_set f ''remark'' (optional_to_json rem)) (\<lambda>f.
     json_set f ''tag'' (optional_to_json tg))))))))"

text \<open>The object a call leaves, whatever feedback came before.\<close>

definition feedback :: "int \<Rightarrow> task \<Rightarrow> int \<Rightarrow> int \<Rightarrow> string \<Rightarrow> string option \<Rightarrow> string option \<Rightarrow> json" where
  "feedback now t no st rslt rem tg = J_object
     [(''action_no'', J_integer no), (''count'', J_integer (executed_count t)),
      (''remark'', optional_to_json rem), (''result'', J_string rslt), (''status'', J_integer st),
      (''tag'', optional_to_json tg), (''task_id'', J_string (task_id t)), (''time'', J_integer now)]"

lemma generate_feedback_first: "generate_feedback J_null now t no st rslt rem tg = Inr (feedback now t no st rslt rem tg)"
  by (simp add: generate_feedback_def feedback_def json_set_def json_ref_def sm_emplace_def)

lemma generate_feedback_again:
  "generate_feedback (feedback now' t' no' st' rslt' rem' tg') now t no st rslt rem tg =
     Inr (feedback now t no st rslt rem tg)"
  by (simp add: generate_feedback_def feedback_def json_set_def json_ref_def sm_emplace_def)

section \<open>Facts\<close>

text \<open>What holds of every task read from a message.\<close>

definition action_good :: "task_action \<Rightarrow> bool" where
  "action_good a \<longleftrightarrow> is_int32 (act_no a) \<and> json_good (active_args a) \<and> is_object (active_args a) \<and>
     (\<forall>s. act_remark a = Some s \<longrightarrow> utf8_valid s) \<and> (\<forall>s. act_tag a = Some s \<longrightarrow> utf8_valid s)"

definition task_good :: "task \<Rightarrow> bool" where
  "task_good t \<longleftrightarrow> 0 \<le> priority t \<and> priority t \<le> 999 \<and> executed_count t < max_count t \<and>
     is_int32 (executed_count t) \<and> is_int32 (max_count t) \<and> utf8_valid (task_id t) \<and>
     (\<forall>s. task_remark t = Some s \<longrightarrow> utf8_valid s) \<and> (\<forall>s. task_tag t = Some s \<longrightarrow> utf8_valid s) \<and>
     sorted (map act_no (action_list t)) \<and> (\<forall>a\<in>set (action_list t). action_good a)"

lemma get_string_good: "get_string j = Inr s \<Longrightarrow> json_good j \<Longrightarrow> utf8_valid s"
  by (cases j) (auto simp: get_string_def simp del: utf8_valid.simps)

lemma get_optional_string_good:
  "get_optional_string j = Inr opt \<Longrightarrow> json_good j \<Longrightarrow> opt = Some s \<Longrightarrow> utf8_valid s"
  by (auto simp: get_optional_string_def get_string_good split: if_splits)

lemma json_value_int_is_int32: "json_value_int j k d = Inr i \<Longrightarrow> is_int32 d \<Longrightarrow> is_int32 i"
  by (auto simp: json_value_int_def dest: get_int_is_int32 split: json.splits option.splits)

lemma action_from_json_good:
  assumes "action_from_json j = Inr a" "json_good j"
  shows "action_good a"
proof -
  from assms(1) obtain args args' ag arg rj tj r t n where
    p: "json_at j ''active_args'' = Inr args" "json_at args ''arg'' = Inr ag"
      "(if \<not> is_null ag then rbind (get_string ag) json_parse else Inr J_null) = Inr arg"
      "json_set args ''arg'' arg = Inr args'"
      "json_at j ''remark'' = Inr rj" "get_optional_string rj = Inr r"
      "json_at j ''tag'' = Inr tj" "get_optional_string tj = Inr t"
      "rbind (json_at j ''no'') get_int = Inr n"
    and a: "act_no a = n" "active_args a = args'" "act_remark a = r" "act_tag a = t"
    by (auto simp: action_from_json_def)
  have "json_good arg" using p(3) json_good_parse by (auto split: if_splits)
  moreover have "json_good args" using p(1) assms(2) by (rule json_good_at)
  moreover have "utf8_valid ''arg''" by (simp add: utf8_valid_ascii_string del: utf8_valid.simps)
  ultimately have "json_good args' \<and> is_object args'" using json_good_set [OF p(4)] by blast
  moreover have "json_good rj" "json_good tj" using p(5,7) assms(2) by (auto intro: json_good_at)
  moreover have "is_int32 n" using p(9) get_int_is_int32 by auto
  ultimately show ?thesis
    using p(6,8) a by (auto simp: action_good_def dest: get_optional_string_good)
qed

lemma new_task_fields:
  assumes "new_task srt j = Inr t"
  obtains al acts where "json_at j ''action_list'' = Inr al" "is_array al"
    "rmap action_from_json (json_items al) = Inr acts" "action_list t = srt acts"
    "task_status t = INIT" "req_status t = INIT"
  using assms by (auto simp: new_task_def task_from_json_def empty_task_def split: if_splits)

lemma rmap_set: "rmap f xs = Inr ys \<Longrightarrow> y \<in> set ys \<Longrightarrow> \<exists>x\<in>set xs. f x = Inr y"
  by (induction xs arbitrary: ys) auto

lemma rmap_Inl: "rmap f xs = Inl e \<Longrightarrow> \<exists>x\<in>set xs. f x = Inl e"
  by (induction xs) (auto simp: rbind_eq_Inl)

lemma get_string_exn: "get_string j = Inl e \<Longrightarrow> action_exn e"
  by (auto simp: get_string_def split: json.splits)

lemma get_optional_string_exn: "get_optional_string j = Inl e \<Longrightarrow> action_exn e"
  using get_string_exn by (auto simp: get_optional_string_def rbind_eq_Inl split: if_splits)

lemma json_value_int_exn: "json_value_int j k d = Inl e \<Longrightarrow> action_exn e"
  using get_int_exn by (auto simp: json_value_int_def split: json.splits option.splits)

lemma json_parse_exn: "json_parse s = Inl e \<Longrightarrow> action_exn e"
  using json_parse_error by force

lemmas json_exns = json_at_exn get_int_exn get_string_exn get_optional_string_exn json_value_int_exn
  json_parse_exn json_set_exn

lemma action_from_json_exn: "action_from_json j = Inl e \<Longrightarrow> action_exn e"
  by (auto simp: action_from_json_def rbind_eq_Inl dest: json_exns split: if_splits)

lemma new_task_exn:
  "new_task srt j = Inl e \<Longrightarrow> action_exn e \<or> (\<exists>s. e = Std_runtime_error s)"
  by (auto simp: new_task_def task_from_json_def rbind_eq_Inl dest: json_exns action_from_json_exn rmap_Inl
      split: if_splits)

lemma new_task_full:
  assumes "sorts_actions srt" "json_good j" "new_task srt j = Inr t"
  shows "task_good t \<and> task_status t = INIT \<and> req_status t = INIT \<and>
    (\<exists>al acts. json_at j ''action_list'' = Inr (J_array al) \<and> rmap action_from_json al = Inr acts \<and>
       mset (action_list t) = mset acts)"
proof -
  from assms(3) obtain ident prio ec mc rj r tj tg al acts where
    p: "rbind (json_at j ''id'') get_string = Inr ident" "rbind (json_at j ''priority'') get_int = Inr prio"
      "json_value_int j ''executed_count'' 0 = Inr ec" "json_value_int j ''max_count'' 1 = Inr mc"
      "json_at j ''remark'' = Inr rj" "get_optional_string rj = Inr r"
      "json_at j ''tag'' = Inr tj" "get_optional_string tj = Inr tg"
      "json_at j ''action_list'' = Inr al" "is_array al" "rmap action_from_json (json_items al) = Inr acts"
    and b: "0 \<le> prio" "prio \<le> 999" "ec < mc"
    and t: "t = empty_task\<lparr> task_id := ident, priority := prio, executed_count := ec, max_count := mc,
              task_remark := r, task_tag := tg, action_list := srt acts \<rparr>"
    by (auto simp: new_task_def task_from_json_def empty_task_def split: if_splits)
  have acts: "mset (srt acts) = mset acts" "sorted (map act_no (srt acts))"
    using assms(1) by (auto simp: sorts_actions_def)
  have "json_good al" "json_good rj" "json_good tj" using p(5,7,9) assms(2) by (auto intro: json_good_at)
  have "action_good a" if "a \<in> set (srt acts)" for a
  proof -
    have "a \<in> set acts" using that acts(1) by (metis set_mset_mset)
    then obtain x where "x \<in> set (json_items al)" "action_from_json x = Inr a" using rmap_set [OF p(11)] by blast
    with \<open>json_good al\<close> show ?thesis by (blast intro: action_from_json_good json_good_items)
  qed
  moreover have "utf8_valid ident" using p(1) assms(2) by (auto intro: get_string_good json_good_at)
  moreover have "is_int32 ec" "is_int32 mc"
    using p(3,4) by (auto intro: json_value_int_is_int32 simp: is_int32_def [of 0] is_int32_def [of 1])
  moreover have "\<forall>s. r = Some s \<longrightarrow> utf8_valid s" "\<forall>s. tg = Some s \<longrightarrow> utf8_valid s"
    using p(6,8) \<open>json_good rj\<close> \<open>json_good tj\<close> get_optional_string_good by blast+
  ultimately have "task_good t" using b acts(2) by (simp add: task_good_def t)
  moreover from p(10) obtain xs where "al = J_array xs" by (auto simp: is_array_def split: json.splits)
  ultimately show ?thesis using p(9,11) acts(1) by (auto simp: t json_items_def empty_task_def)
qed

lemma new_task_ok:
  "sorts_actions srt \<Longrightarrow> json_good j \<Longrightarrow> new_task srt j = Inr t \<Longrightarrow>
   task_good t \<and> task_status t = INIT \<and> req_status t = INIT"
  using new_task_full by blast

section \<open>Properties\<close>

text \<open>
  C20. A task read from a message is well formed: its priority is between 0 and 999, it still has an
  execution left, its actions are exactly those of the message, in ascending order of their numbers, each
  with arguments that are an object and print, and it has not started.  The sort is any that permutes and
  sorts.
\<close>

theorem new_task_good:
  assumes "sorts_actions srt" "json_good j" "new_task srt j = Inr t"
  shows "task_good t \<and> task_status t = INIT \<and> req_status t = INIT \<and>
    (\<exists>al acts. json_at j ''action_list'' = Inr (J_array al) \<and> rmap action_from_json al = Inr acts \<and>
       mset (action_list t) = mset acts)"
  using new_task_full [OF assms] .

definition demo_task_json :: "json \<Rightarrow> json" where
  "demo_task_json prio = J_object
     [(''action_list'', J_array []), (''id'', J_string ''a''), (''priority'', prio), (''remark'', J_null),
      (''tag'', J_null)]"

lemma sorts_sort_key: "sorts_actions (sort_key act_no)"
  by (simp add: sorts_actions_def)

lemma demo_task_json_new:
  "get_int prio = Inr p \<Longrightarrow> 0 \<le> p \<Longrightarrow> p \<le> 999 \<Longrightarrow>
   \<exists>t. new_task (sort_key act_no) (demo_task_json prio) = Inr t \<and> priority t = p"
  by (simp add: new_task_def task_from_json_def demo_task_json_def get_string_def json_value_int_def
      get_optional_string_def is_null_def is_array_def json_items_def empty_task_def)

lemma new_task_good_witness: "\<exists>t. new_task (sort_key act_no) (demo_task_json (J_unsigned 7)) = Inr t \<and> task_good t"
proof -
  have g: "json_good (demo_task_json (J_unsigned 7))"
    by (simp add: json_good_def demo_task_json_def utf8_valid_ascii_string del: utf8_valid.simps)
  obtain t where t: "new_task (sort_key act_no) (demo_task_json (J_unsigned 7)) = Inr t"
    using demo_task_json_new [of "J_unsigned 7" 7] by (auto simp: get_int_def is_int32_def)
  from new_task_good [OF sorts_sort_key g t] t show ?thesis by blast
qed

text \<open>
  The errors of reading a task are those its callers handle: a \<open>std::runtime_error\<close> for a priority,
  counter or action list that is rejected, or a json parse error, type error or missing key; nothing else
  escapes, for any json value.
\<close>

theorem new_task_errors:
  "new_task srt j = Inl e \<Longrightarrow>
   e \<in> {Std_runtime_error ''priority must be in [0,999]'',
        Std_runtime_error ''executed_count must be less than max_count'',
        Std_runtime_error (''field with '' @ [CHR 0x22] @ ''action_list'' @ [CHR 0x22] @ '' must be array of json'')} \<or>
   action_exn e"
  by (auto simp: new_task_def task_from_json_def rbind_eq_Inl dest: json_exns action_from_json_exn rmap_Inl
      split: if_splits)

lemma new_task_errors_witness:
  "new_task (sort_key act_no) (demo_task_json (J_integer (-1))) = Inl (Std_runtime_error ''priority must be in [0,999]'') \<and>
   action_exn (Json_type_error 304)"
proof -
  have a: "new_task (sort_key act_no) (demo_task_json (J_integer (-1))) = Inl (Std_runtime_error ''priority must be in [0,999]'')"
    by (simp add: new_task_def task_from_json_def demo_task_json_def get_string_def get_int_def is_int32_def)
  have b: "new_task (sort_key act_no) J_null = Inl (Json_type_error 304)"
    by (simp add: new_task_def task_from_json_def json_at_def)
  from a new_task_errors [OF b] show ?thesis by auto
qed

text \<open>
  The check of the priority sees the converted value: \<open>get<int>\<close> wraps a 64-bit number, so a message
  with priority 4294967296 (and every 2^32 k + p with p between 0 and 999) is accepted, with priority p.
\<close>

theorem priority_wraps:
  "\<forall>k p. 0 \<le> p \<longrightarrow> p \<le> 999 \<longrightarrow>
     (\<exists>t. new_task (sort_key act_no) (demo_task_json (J_unsigned (4294967296 * k + p))) = Inr t \<and> priority t = p)"
proof (intro allI impI)
  fix k p :: int
  assume p: "0 \<le> p" "p \<le> 999"
  have "(4294967296 * k + p + 2147483648) mod 4294967296 = (p + 2147483648 + 4294967296 * k) mod 4294967296"
    by (simp only: ac_simps)
  also have "\<dots> = (p + 2147483648) mod 4294967296" by (rule mod_mult_self2)
  also have "\<dots> = p + 2147483648" using p by (intro mod_pos_pos_trivial) auto
  finally have "wrap32 (4294967296 * k + p) = p" by (simp add: wrap32_def)
  then have "get_int (J_unsigned (4294967296 * k + p)) = Inr p" by (simp add: get_int_def)
  with demo_task_json_new p show "\<exists>t. new_task (sort_key act_no) (demo_task_json (J_unsigned (4294967296 * k + p))) = Inr t \<and> priority t = p"
    by blast
qed

lemma priority_wraps_witness:
  "\<exists>t. new_task (sort_key act_no) (demo_task_json (J_unsigned 4294967296)) = Inr t \<and> priority t = 0"
  using priority_wraps [rule_format, of 0 1] by simp

end
