(* ===== verification/TaskRun.thy ===== *)
theory TaskRun imports Task begin

text \<open>
  Running and controlling a task (\<open>task.cpp\<close>: \<open>run\<close>, \<open>pause\<close>, \<open>resume\<close>, \<open>cancel\<close>).  The thread of \<open>run\<close>
  and the thread that calls the control functions share the atomics \<open>status\<close> and \<open>req_status\<close>; every load
  or store of one of them is a step of its own, and the steps of the two threads interleave.  The mutex
  \<open>run_sche\<close> admits one runner (the others count in \<open>waiting\<close>), the mutex \<open>control\<close> one control function.
\<close>

section \<open>State\<close>

text \<open>
  The program points of \<open>run\<close>, each named by what it is about to do; the loops carry the index of the
  action.  \<open>R_dead\<close>: an exception left \<open>run\<close> and with it the thread, which terminates the process.
\<close>

datatype runner_pc =
    R_idle
  | R_begin
  | R_refuse
  | R_refused
  | R_enter
  | R_test nat
  | R_cancel nat
  | R_cancel_store nat
  | R_resume nat
  | R_resume_store nat
  | R_pause nat
  | R_pause_store nat
  | R_paused nat
  | R_exec nat
  | R_action nat
  | R_end
  | R_over
  | R_dead

datatype control_pc =
    C_idle
  | C_pause_req | C_pause_stop | C_pause_wait
  | C_resume_req | C_resume_wait
  | C_cancel_req | C_cancel_stop | C_cancel_wait

datatype event =
    Callback task_callback json
  | Effects "effect list"

text \<open>How the call of an action ended.\<close>

datatype action_end = Called | Done | Again | Failed

text \<open>\<open>trail\<close> is a ghost: the calls of actions in the current run with their ends.\<close>

record run_state =
  the_task :: task
  the_robot :: robot
  static_feedback :: json
  events :: "event list"
  rpc :: runner_pc
  cpc :: control_pc
  waiting :: nat
  trail :: "(nat \<times> action_end) list"

definition run_init :: "robot \<Rightarrow> run_state" where
  "run_init rb = \<lparr> the_task = empty_task, the_robot = rb, static_feedback = J_null, events = [],
     rpc = R_idle, cpc = C_idle, waiting = 0, trail = [] \<rparr>"

abbreviation "status_of s \<equiv> task_status (the_task s)"
abbreviation "request_of s \<equiv> req_status (the_task s)"

definition set_status :: "int \<Rightarrow> run_state \<Rightarrow> run_state" where
  "set_status x s = s\<lparr> the_task := (the_task s)\<lparr> task_status := x \<rparr> \<rparr>"

definition set_request :: "int \<Rightarrow> run_state \<Rightarrow> run_state" where
  "set_request x s = s\<lparr> the_task := (the_task s)\<lparr> req_status := x \<rparr> \<rparr>"

section \<open>The runner\<close>

text \<open>A callback applied to a fresh feedback.\<close>

definition call_back ::
  "int \<Rightarrow> (task \<Rightarrow> task_callback) \<Rightarrow> int \<Rightarrow> int \<Rightarrow> string \<Rightarrow> string option \<Rightarrow> string option \<Rightarrow>
   run_state \<Rightarrow> run_state res" where
  "call_back now slot no st rslt rem tg s =
     rbind (generate_feedback (static_feedback s) now (the_task s) no st rslt rem tg) (\<lambda>f.
       Inr (s\<lparr> static_feedback := f, events := events s @ [Callback (slot (the_task s)) f] \<rparr>))"

definition go :: "runner_pc \<Rightarrow> run_state res \<Rightarrow> run_state option" where
  "go pc r = (case r of Inl e \<Rightarrow> None | Inr s \<Rightarrow> Some (s\<lparr> rpc := pc \<rparr>))"

definition go_or_die :: "run_state \<Rightarrow> runner_pc \<Rightarrow> run_state res \<Rightarrow> run_state" where
  "go_or_die s pc r = (case go pc r of None \<Rightarrow> s\<lparr> rpc := R_dead \<rparr> | Some s' \<Rightarrow> s')"

text \<open>The \<open>remark\<close> each handler of the action's try block puts into the result.\<close>

fun failure_remark :: "cxx_exn \<Rightarrow> string option" where
  "failure_remark Std_out_of_range = Some ''Executed fail, device_code or active_code no found''"
| "failure_remark (Json_parse_error n) = Some ''Executed fail, json parse error''"
| "failure_remark (Json_out_of_range n) = Some ''Executed fail, key of json no found''"
| "failure_remark (Json_type_error n) = Some ''Executed fail, json type parse error''"
| "failure_remark _ = None"

definition handle_failure :: "int \<Rightarrow> task_action \<Rightarrow> nat \<Rightarrow> json \<Rightarrow> cxx_exn \<Rightarrow> run_state \<Rightarrow> run_state" where
  "handle_failure now act i result e s0 =
     (let s = s0\<lparr> trail := trail s0 @ [(i, Failed)] \<rparr> in
      case failure_remark e of
        None \<Rightarrow> s\<lparr> rpc := R_dead \<rparr>
      | Some msg \<Rightarrow> go_or_die s R_end
          (rbind (json_set result ''remark'' (J_string msg)) (\<lambda>result'.
           rbind (json_dump 0 result') (\<lambda>txt.
             call_back now action_result_callback (active_no (the_task s)) INSTRUCTION_EXCEPTION txt
               (act_remark act) (act_tag act) s))))"

text \<open>The try block, from the return of the dispatched action on.\<close>

definition finish_action :: "int \<Rightarrow> task_action \<Rightarrow> nat \<Rightarrow> json res \<Rightarrow> run_state \<Rightarrow> run_state" where
  "finish_action now act i r s = (case r of
      Inl e \<Rightarrow> handle_failure now act i J_null e s
    | Inr result \<Rightarrow> (case json_set result ''remark'' (J_string ''Executed successfully'') of
          Inl e \<Rightarrow> handle_failure now act i result e s
        | Inr result' \<Rightarrow>
            if json_contains result' ''emergency_stop''
            then s\<lparr> trail := trail s @ [(i, Again)], rpc := R_test i \<rparr>
            else (case rbind (json_dump 0 result') (\<lambda>txt.
                    call_back now action_result_callback (active_no (the_task s)) EXEC_RESULT txt
                      (act_remark act) (act_tag act) s) of
                Inl e \<Rightarrow> handle_failure now act i result' e s
              | Inr s' \<Rightarrow> s'\<lparr> trail := trail s' @ [(i, Done)], rpc := R_test (Suc i) \<rparr>)))"

text \<open>
  One step of \<open>run\<close>: \<open>now\<close> is the time, \<open>turns\<close> what the action's waiting loop observes, if the step is the
  call of an action.  None: the thread does not move (no run to start, or the action is still waiting).
\<close>

definition run_turn ::
  "(camera_action \<Rightarrow> string) \<Rightarrow> int \<Rightarrow> turn list \<Rightarrow> run_state \<Rightarrow> run_state option" where
  "run_turn pretty now turns s = (let t = the_task s in case rpc s of
      R_idle \<Rightarrow> if 0 < waiting s then Some (s\<lparr> waiting := waiting s - 1, rpc := R_begin, trail := [] \<rparr>) else None
    | R_begin \<Rightarrow>
        if executed_count t = 2147483647 then Some (s\<lparr> rpc := R_dead \<rparr>)
        else (let t1 = t\<lparr> executed_count := executed_count t + 1 \<rparr>; s1 = s\<lparr> the_task := t1 \<rparr> in
          Some (go_or_die s1 (if executed_count t1 > max_count t1 then R_refuse else R_enter)
            (call_back now task_will_start_callback 0 START '''' (Some ''The task will start.'')
               (task_tag t1) s1)))
    | R_refuse \<Rightarrow> Some (set_status END (s\<lparr> rpc := R_refused \<rparr>))
    | R_refused \<Rightarrow> Some (go_or_die s R_idle (call_back now over_callback (active_no t) END
        ''The number of tasks that can be executed is insufficient.'' (task_remark t) (task_tag t) s))
    | R_enter \<Rightarrow> Some (set_status EXECING
        (s\<lparr> the_task := t\<lparr> task_bot := True, active_no := 0 \<rparr>, rpc := R_test 0 \<rparr>))
    | R_test i \<Rightarrow> Some (s\<lparr> rpc := (if i < length (action_list t) then R_cancel i else R_end) \<rparr>)
    | R_cancel i \<Rightarrow>
        Some (s\<lparr> rpc := (if req_status t = REQ_CANCEL \<and> (task_status t = EXECING \<or> task_status t = PAUSE)
                       then R_cancel_store i else R_resume i) \<rparr>)
    | R_cancel_store i \<Rightarrow> (let s1 = set_status CANCEL s in
        Some (go_or_die s1 R_end (call_back now cancel_callback (active_no t) CANCEL ''''
          (Some ''The task will cancel.'') (task_tag t) s1)))
    | R_resume i \<Rightarrow>
        Some (s\<lparr> rpc := (if req_status t = REQ_RESUME \<and> task_status t = PAUSE then R_resume_store i
                       else R_pause i) \<rparr>)
    | R_resume_store i \<Rightarrow> Some (set_status EXECING (s\<lparr> rpc := R_pause i \<rparr>))
    | R_pause i \<Rightarrow>
        Some (s\<lparr> rpc := (if req_status t = REQ_PAUSE \<and> task_status t = EXECING then R_pause_store i
                       else R_exec i) \<rparr>)
    | R_pause_store i \<Rightarrow> (let s1 = set_status PAUSE s in
        Some (go_or_die s1 (R_paused i) (call_back now pause_callback (active_no t) PAUSE ''''
          (Some ''The task will pause.'') (task_tag t) s1)))
    | R_paused i \<Rightarrow>
        Some (if req_status t \<noteq> REQ_RESUME \<and> req_status t \<noteq> REQ_CANCEL then s else s\<lparr> rpc := R_exec i \<rparr>)
    | R_exec i \<Rightarrow>
        if task_status t = EXECING then
          (if i < length (action_list t) then
             (let act = action_list t ! i;
                  s1 = s\<lparr> the_task := t\<lparr> active_no := act_no act \<rparr> \<rparr> in
              Some (let s2 = go_or_die s1 (R_action i) (call_back now action_start_callback (act_no act) EXECING ''''
                 (Some ''The action will exec'') (act_tag act) s1) in s2\<lparr> trail := trail s2 @ [(i, Called)] \<rparr>))
           else Some (s\<lparr> rpc := R_dead \<rparr>))
        else Some (s\<lparr> rpc := R_test i \<rparr>)
    | R_action i \<Rightarrow> (let act = action_list t ! i in
        map_option (\<lambda>(r, rb', es).
            finish_action now act i r (s\<lparr> the_robot := rb', events := events s @ [Effects es] \<rparr>))
          (dispatch pretty turns (the_robot s) (device_code act) (active_code act) (active_args act)))
    | R_end \<Rightarrow> Some (set_status END (s\<lparr> rpc := R_over \<rparr>))
    | R_over \<Rightarrow> Some (go_or_die s R_idle (call_back now over_callback (active_no t) END ''The task is over.''
        (task_remark t) (task_tag t) s))
    | R_dead \<Rightarrow> None)"

section \<open>The control functions\<close>

datatype control_call = Call_pause | Call_resume | Call_cancel

text \<open>The test of the status at the head of each function.\<close>

definition control_start :: "control_call \<Rightarrow> run_state \<Rightarrow> run_state" where
  "control_start c s = (case c of
      Call_pause \<Rightarrow> if status_of s = EXECING then s\<lparr> cpc := C_pause_req \<rparr> else s
    | Call_resume \<Rightarrow> if status_of s = PAUSE then s\<lparr> cpc := C_resume_req \<rparr> else s
    | Call_cancel \<Rightarrow> if status_of s = EXECING \<or> status_of s = PAUSE then s\<lparr> cpc := C_cancel_req \<rparr> else s)"

text \<open>
  \<open>stop()\<close> on every device in turn.  An action in progress is a single step of the runner here, so the
  interplay of a stop with a move is not seen (it is theory \<open>StopProtocol\<close>); a body whose status was left
  RUNNING by an exception blocks \<open>stop\<close> for good: None.
\<close>

definition stop_device :: "device \<Rightarrow> device option" where
  "stop_device d = (case d of
      Dev_body b \<Rightarrow> if body_status b = RUNNING then None else Some (Dev_body (b\<lparr> body_request := BODY_INIT \<rparr>))
    | _ \<Rightarrow> Some d)"

fun stop_devices :: "robot \<Rightarrow> robot option" where
  "stop_devices [] = Some []"
| "stop_devices ((c, d) # rb) = (case stop_device d of
      None \<Rightarrow> None
    | Some d' \<Rightarrow> map_option (\<lambda>rb'. (c, d') # rb') (stop_devices rb))"

text \<open>One step of the control function that holds the mutex \<open>control\<close>.\<close>

definition control_turn :: "run_state \<Rightarrow> run_state option" where
  "control_turn s = (case cpc s of
      C_idle \<Rightarrow> None
    | C_pause_req \<Rightarrow> Some (set_request REQ_PAUSE (s\<lparr> cpc := C_pause_stop \<rparr>))
    | C_pause_stop \<Rightarrow>
        if task_bot (the_task s)
        then map_option (\<lambda>rb. s\<lparr> the_robot := rb, cpc := C_pause_wait \<rparr>) (stop_devices (the_robot s))
        else Some (s\<lparr> rpc := R_dead \<rparr>)
    | C_pause_wait \<Rightarrow> Some (if status_of s \<noteq> PAUSE \<and> status_of s \<noteq> END then s else s\<lparr> cpc := C_idle \<rparr>)
    | C_resume_req \<Rightarrow> Some (set_request REQ_RESUME (s\<lparr> cpc := C_resume_wait \<rparr>))
    | C_resume_wait \<Rightarrow> Some (if status_of s \<noteq> EXECING \<and> status_of s \<noteq> END then s else s\<lparr> cpc := C_idle \<rparr>)
    | C_cancel_req \<Rightarrow> Some (set_request REQ_CANCEL (s\<lparr> cpc := C_cancel_stop \<rparr>))
    | C_cancel_stop \<Rightarrow>
        if task_bot (the_task s)
        then map_option (\<lambda>rb. s\<lparr> the_robot := rb, cpc := C_cancel_wait \<rparr>) (stop_devices (the_robot s))
        else Some (s\<lparr> rpc := R_dead \<rparr>)
    | C_cancel_wait \<Rightarrow> Some (if \<not> task_is_over (the_task s) then s else s\<lparr> cpc := C_idle \<rparr>))"


section \<open>Interleaving\<close>

text \<open>
  The two threads together with what the service does to a task: \<open>Spawn\<close> is the start of a thread on
  \<open>run\<close>, \<open>Assign\<close> the assignment of a new task (under \<open>run_sche\<close>, from the thread that also calls the
  control functions), \<open>Install\<close> the assignment of the callbacks and \<open>Use\<close> an action on a device that does
  not belong to a task (the charge of the battery protection).
\<close>

datatype task_actor = Runner | Controller | Call control_call | Spawn | Assign task | Install | Use

definition install_callbacks :: "task \<Rightarrow> task" where
  "install_callbacks t = t\<lparr>
     task_will_start_callback := Service_callback, action_start_callback := Service_callback,
     action_result_callback := Service_callback, pause_callback := Service_callback,
     cancel_callback := Service_callback, over_callback := Service_callback \<rparr>"

inductive task_step ::
  "(camera_action \<Rightarrow> string) \<Rightarrow> run_state \<Rightarrow> task_actor \<Rightarrow> run_state \<Rightarrow> bool"
  for pretty :: "camera_action \<Rightarrow> string" where
  runner: "run_turn pretty now turns s = Some s' \<Longrightarrow> task_step pretty s Runner s'"
| controller: "rpc s \<noteq> R_dead \<Longrightarrow> control_turn s = Some s' \<Longrightarrow> task_step pretty s Controller s'"
| call: "rpc s \<noteq> R_dead \<Longrightarrow> cpc s = C_idle \<Longrightarrow> task_step pretty s (Call c) (control_start c s)"
| spawn: "rpc s \<noteq> R_dead \<Longrightarrow> cpc s = C_idle \<Longrightarrow> task_step pretty s Spawn (s\<lparr> waiting := Suc (waiting s) \<rparr>)"
| assign: "rpc s = R_idle \<Longrightarrow> cpc s = C_idle \<Longrightarrow> task_good t \<Longrightarrow>
    task_status t = INIT \<Longrightarrow> req_status t = INIT \<Longrightarrow>
    task_step pretty s (Assign t) (s\<lparr> the_task := task_assign (the_task s) t \<rparr>)"
| install: "rpc s \<noteq> R_dead \<Longrightarrow> cpc s = C_idle \<Longrightarrow>
    task_step pretty s Install (s\<lparr> the_task := install_callbacks (the_task s) \<rparr>)"
| use: "rpc s \<noteq> R_dead \<Longrightarrow> cpc s = C_idle \<Longrightarrow>
    dispatch pretty turns (the_robot s) code active args = Some (r, rb', es) \<Longrightarrow>
    task_step pretty s Use (s\<lparr> the_robot := rb' \<rparr>)"

inductive_cases task_stepE: "task_step pretty s a s'"

inductive run_reach :: "(camera_action \<Rightarrow> string) \<Rightarrow> run_state \<Rightarrow> bool"
  for pretty :: "camera_action \<Rightarrow> string" where
  init: "run_reach pretty (run_init rb)"
| step: "run_reach pretty s \<Longrightarrow> task_step pretty s a s' \<Longrightarrow> run_reach pretty s'"

text \<open>A stretch of an execution: the actors of its steps, in order.\<close>

inductive run_path :: "(camera_action \<Rightarrow> string) \<Rightarrow> run_state \<Rightarrow> task_actor list \<Rightarrow> run_state \<Rightarrow> bool"
  for pretty :: "camera_action \<Rightarrow> string" where
  path_Nil: "run_path pretty s [] s"
| path_Cons: "task_step pretty s a s' \<Longrightarrow> run_path pretty s' as s'' \<Longrightarrow> run_path pretty s (a # as) s''"

section \<open>Effects of a step\<close>

lemma set_status_simps [simp]:
  "the_task (set_status x s) = (the_task s)\<lparr> task_status := x \<rparr>"
  "the_robot (set_status x s) = the_robot s" "static_feedback (set_status x s) = static_feedback s"
  "events (set_status x s) = events s" "rpc (set_status x s) = rpc s" "cpc (set_status x s) = cpc s"
  "waiting (set_status x s) = waiting s" "trail (set_status x s) = trail s"
  by (simp_all add: set_status_def)

lemma set_request_simps [simp]:
  "the_task (set_request x s) = (the_task s)\<lparr> req_status := x \<rparr>"
  "the_robot (set_request x s) = the_robot s" "static_feedback (set_request x s) = static_feedback s"
  "events (set_request x s) = events s" "rpc (set_request x s) = rpc s" "cpc (set_request x s) = cpc s"
  "waiting (set_request x s) = waiting s" "trail (set_request x s) = trail s"
  by (simp_all add: set_request_def)

text \<open>Callbacks, and what follows them, touch nothing the other thread looks at.\<close>

lemma go_or_die_call:
  "the_task (go_or_die s pc (call_back now slot no st rslt rem tg s)) = the_task s \<and>
   cpc (go_or_die s pc (call_back now slot no st rslt rem tg s)) = cpc s \<and>
   trail (go_or_die s pc (call_back now slot no st rslt rem tg s)) = trail s \<and>
   waiting (go_or_die s pc (call_back now slot no st rslt rem tg s)) = waiting s \<and>
   (rpc (go_or_die s pc (call_back now slot no st rslt rem tg s)) = pc \<or>
    rpc (go_or_die s pc (call_back now slot no st rslt rem tg s)) = R_dead)"
  by (auto simp: go_or_die_def go_def call_back_def rbind_def split: sum.splits)

lemmas go_or_die_call_simps [simp] =
  go_or_die_call [THEN conjunct1] go_or_die_call [THEN conjunct2, THEN conjunct1]
  go_or_die_call [THEN conjunct2, THEN conjunct2, THEN conjunct1]
  go_or_die_call [THEN conjunct2, THEN conjunct2, THEN conjunct2, THEN conjunct1]

lemma rpc_go_or_die [simp]: "rpc (go_or_die s pc r) = (if isl r then R_dead else pc)"
  by (auto simp: go_or_die_def go_def split: sum.splits)

lemma call_back_Inr:
  "call_back now slot no st rslt rem tg s = Inr s' \<Longrightarrow>
   the_task s' = the_task s \<and> cpc s' = cpc s \<and> trail s' = trail s \<and> waiting s' = waiting s \<and>
   rpc s' = rpc s \<and> the_robot s' = the_robot s"
  by (auto simp: call_back_def)

lemma handle_failure_effect:
  "the_task (handle_failure now act i r e s) = the_task s \<and> cpc (handle_failure now act i r e s) = cpc s \<and>
   waiting (handle_failure now act i r e s) = waiting s \<and>
   trail (handle_failure now act i r e s) = trail s @ [(i, Failed)] \<and>
   (rpc (handle_failure now act i r e s) = R_end \<or> rpc (handle_failure now act i r e s) = R_dead)"
  by (auto simp: handle_failure_def go_or_die_def go_def Let_def dest!: call_back_Inr
      split: option.splits sum.splits)

lemma finish_action_effect:
  "the_task (finish_action now act i r s) = the_task s \<and> cpc (finish_action now act i r s) = cpc s \<and>
   waiting (finish_action now act i r s) = waiting s \<and>
   ((rpc (finish_action now act i r s), trail (finish_action now act i r s)) \<in>
      {(R_test i, trail s @ [(i, Again)]), (R_test (Suc i), trail s @ [(i, Done)]),
       (R_end, trail s @ [(i, Failed)]), (R_dead, trail s @ [(i, Failed)])})"
  using handle_failure_effect
  by (auto simp: finish_action_def dest: call_back_Inr split: sum.splits)


text \<open>
  One step of the runner as the other thread sees it: the program point, the status and the trail; only
  the entry changes other fields of the task.
\<close>

definition runner_move :: "run_state \<Rightarrow> runner_pc \<Rightarrow> int \<Rightarrow> (nat \<times> action_end) list \<Rightarrow> bool" where
  "runner_move s pc st tr \<longleftrightarrow> (case rpc s of
      R_idle \<Rightarrow> 0 < waiting s \<and> pc = R_begin \<and> st = status_of s \<and> tr = []
    | R_begin \<Rightarrow> (pc = R_refuse \<or> pc = R_enter \<or> pc = R_dead) \<and> st = status_of s \<and> tr = trail s
    | R_refuse \<Rightarrow> pc = R_refused \<and> st = END \<and> tr = trail s
    | R_refused \<Rightarrow> (pc = R_idle \<or> pc = R_dead) \<and> st = status_of s \<and> tr = trail s
    | R_enter \<Rightarrow> pc = R_test 0 \<and> st = EXECING \<and> tr = trail s
    | R_test i \<Rightarrow> pc = (if i < length (action_list (the_task s)) then R_cancel i else R_end) \<and>
        st = status_of s \<and> tr = trail s
    | R_cancel i \<Rightarrow> pc = (if request_of s = REQ_CANCEL \<and> (status_of s = EXECING \<or> status_of s = PAUSE)
        then R_cancel_store i else R_resume i) \<and> st = status_of s \<and> tr = trail s
    | R_cancel_store i \<Rightarrow> (pc = R_end \<or> pc = R_dead) \<and> st = CANCEL \<and> tr = trail s
    | R_resume i \<Rightarrow> pc = (if request_of s = REQ_RESUME \<and> status_of s = PAUSE then R_resume_store i
        else R_pause i) \<and> st = status_of s \<and> tr = trail s
    | R_resume_store i \<Rightarrow> pc = R_pause i \<and> st = EXECING \<and> tr = trail s
    | R_pause i \<Rightarrow> pc = (if request_of s = REQ_PAUSE \<and> status_of s = EXECING then R_pause_store i
        else R_exec i) \<and> st = status_of s \<and> tr = trail s
    | R_pause_store i \<Rightarrow> (pc = R_paused i \<or> pc = R_dead) \<and> st = PAUSE \<and> tr = trail s
    | R_paused i \<Rightarrow> pc = (if request_of s \<noteq> REQ_RESUME \<and> request_of s \<noteq> REQ_CANCEL then R_paused i
        else R_exec i) \<and> st = status_of s \<and> tr = trail s
    | R_exec i \<Rightarrow> st = status_of s \<and>
        (if status_of s = EXECING
         then (pc = R_action i \<and> i < length (action_list (the_task s)) \<and> tr = trail s @ [(i, Called)]) \<or>
           (pc = R_dead \<and> (tr = trail s \<or> tr = trail s @ [(i, Called)]))
         else pc = R_test i \<and> tr = trail s)
    | R_action i \<Rightarrow> st = status_of s \<and>
        (pc, tr) \<in> {(R_test i, trail s @ [(i, Again)]), (R_test (Suc i), trail s @ [(i, Done)]),
          (R_end, trail s @ [(i, Failed)]), (R_dead, trail s @ [(i, Failed)])}
    | R_end \<Rightarrow> pc = R_over \<and> st = END \<and> tr = trail s
    | R_over \<Rightarrow> (pc = R_idle \<or> pc = R_dead) \<and> st = status_of s \<and> tr = trail s
    | R_dead \<Rightarrow> False)"

lemma run_turn_move:
  assumes "run_turn pretty now turns s = Some s'"
  shows "runner_move s (rpc s') (status_of s') (trail s')"
    and "cpc s' = cpc s" and "request_of s' = request_of s"
    and "action_list (the_task s') = action_list (the_task s)"
    and "task_bot (the_task s') = (rpc s = R_enter \<or> task_bot (the_task s))"
    and "max_count (the_task s') = max_count (the_task s)"
proof -
  have "runner_move s (rpc s') (status_of s') (trail s') \<and> cpc s' = cpc s \<and> request_of s' = request_of s \<and>
    action_list (the_task s') = action_list (the_task s) \<and>
    task_bot (the_task s') = (rpc s = R_enter \<or> task_bot (the_task s)) \<and>
    max_count (the_task s') = max_count (the_task s)"
  proof (cases "\<exists>i. rpc s = R_action i")
    case True
    then obtain i where i: "rpc s = R_action i" by blast
    with assms obtain r rb' es where
      s': "s' = finish_action now (action_list (the_task s) ! i) i r (s\<lparr> the_robot := rb', events := events s @ [Effects es] \<rparr>)"
      by (auto simp: run_turn_def Let_def)
    show ?thesis
      using finish_action_effect [of now "action_list (the_task s) ! i" i r "s\<lparr> the_robot := rb', events := events s @ [Effects es] \<rparr>"]
      unfolding s' by (auto simp: runner_move_def i)
  next
    case False
    with assms show ?thesis
      by (cases "rpc s")
        (auto simp: run_turn_def runner_move_def Let_def split: if_splits)
  qed
  then show "runner_move s (rpc s') (status_of s') (trail s')"
    and "cpc s' = cpc s" and "request_of s' = request_of s"
    and "action_list (the_task s') = action_list (the_task s)"
    and "task_bot (the_task s') = (rpc s = R_enter \<or> task_bot (the_task s))"
    and "max_count (the_task s') = max_count (the_task s)" by blast+
qed

end
