(* ===== verification/TaskControl.thy ===== *)
theory TaskControl imports TaskRun begin

text \<open>
  The invariant of running and controlling a task, and the properties that rest on it: the transitions of
  the status, the answers to the three control requests and the order of the actions.
\<close>

section \<open>The invariant\<close>

text \<open>What the status can be at each program point of the runner.\<close>

definition status_at :: "runner_pc \<Rightarrow> int \<Rightarrow> bool" where
  "status_at pc st = (case pc of
      R_idle \<Rightarrow> st = INIT \<or> st = END
    | R_begin \<Rightarrow> st = INIT \<or> st = END
    | R_refuse \<Rightarrow> st = INIT \<or> st = END
    | R_enter \<Rightarrow> st = INIT \<or> st = END
    | R_refused \<Rightarrow> st = END
    | R_cancel_store i \<Rightarrow> st = EXECING \<or> st = PAUSE
    | R_resume_store i \<Rightarrow> st = PAUSE
    | R_pause_store i \<Rightarrow> st = EXECING
    | R_paused i \<Rightarrow> st = PAUSE
    | R_action i \<Rightarrow> st = EXECING
    | R_end \<Rightarrow> st = EXECING \<or> st = CANCEL
    | R_over \<Rightarrow> st = END
    | R_dead \<Rightarrow> True
    | _ \<Rightarrow> st = EXECING \<or> st = PAUSE)"

text \<open>The index the loop is at.\<close>

definition loop_index :: "runner_pc \<Rightarrow> nat option" where
  "loop_index pc = (case pc of
      R_cancel i \<Rightarrow> Some i | R_cancel_store i \<Rightarrow> Some i | R_resume i \<Rightarrow> Some i | R_resume_store i \<Rightarrow> Some i
    | R_pause i \<Rightarrow> Some i | R_pause_store i \<Rightarrow> Some i | R_paused i \<Rightarrow> Some i | R_exec i \<Rightarrow> Some i
    | R_action i \<Rightarrow> Some i | _ \<Rightarrow> None)"

definition bot_inv :: "run_state \<Rightarrow> bool" where
  "bot_inv s \<longleftrightarrow> ((status_of s = EXECING \<or> status_of s = PAUSE \<or> status_of s = CANCEL \<or> cpc s \<noteq> C_idle) \<longrightarrow>
     task_bot (the_task s))"

text \<open>A request stays in \<open>req_status\<close> until the function that made it returns.\<close>

definition request_at :: "control_pc \<Rightarrow> int \<Rightarrow> bool" where
  "request_at pc rq = (case pc of
      C_pause_stop \<Rightarrow> rq = REQ_PAUSE | C_pause_wait \<Rightarrow> rq = REQ_PAUSE
    | C_resume_wait \<Rightarrow> rq = REQ_RESUME
    | C_cancel_stop \<Rightarrow> rq = REQ_CANCEL | C_cancel_wait \<Rightarrow> rq = REQ_CANCEL
    | _ \<Rightarrow> True)"

text \<open>
  When the runner has left the wait of a pause, or is about to resume, the request that let it out is
  still standing and its function still waiting.
\<close>

definition waits_resume :: "run_state \<Rightarrow> bool" where
  "waits_resume s \<longleftrightarrow> request_of s = REQ_RESUME \<and> cpc s = C_resume_wait"

definition waits_cancel :: "run_state \<Rightarrow> bool" where
  "waits_cancel s \<longleftrightarrow> request_of s = REQ_CANCEL \<and> (cpc s = C_cancel_stop \<or> cpc s = C_cancel_wait)"

definition paused_inv :: "run_state \<Rightarrow> bool" where
  "paused_inv s \<longleftrightarrow> (case rpc s of
      R_dead \<Rightarrow> True
    | R_paused i \<Rightarrow> (request_of s = REQ_RESUME \<or> request_of s = REQ_CANCEL) \<longrightarrow>
        cpc s \<noteq> C_resume_req \<and> (waits_resume s \<or> waits_cancel s)
    | R_resume_store i \<Rightarrow> waits_resume s
    | R_pause_store i \<Rightarrow> cpc s \<noteq> C_resume_req \<and>
        ((request_of s = REQ_PAUSE \<and> cpc s \<noteq> C_resume_wait) \<or> waits_cancel s)
    | _ \<Rightarrow> cpc s \<noteq> C_resume_req \<and> (status_of s = PAUSE \<longrightarrow> waits_resume s \<or> waits_cancel s))"

definition run_inv :: "run_state \<Rightarrow> bool" where
  "run_inv s \<longleftrightarrow> status_at (rpc s) (status_of s) \<and>
     (\<forall>i. loop_index (rpc s) = Some i \<longrightarrow> i < length (action_list (the_task s))) \<and>
     (\<forall>i. rpc s = R_test i \<and> status_of s = PAUSE \<longrightarrow> i < length (action_list (the_task s))) \<and>
     bot_inv s \<and> request_at (cpc s) (request_of s)"


lemma run_inv_init: "run_inv (run_init rb) \<and> paused_inv (run_init rb)"
  by (simp add: run_inv_def run_init_def status_at_def loop_index_def bot_inv_def request_at_def
      empty_task_def paused_inv_def)

lemma run_inv_runner:
  assumes "run_turn pretty now turns s = Some s'" "run_inv s"
  shows "run_inv s'"
proof -
  note m = run_turn_move [OF assms(1)]
  have st: "status_at (rpc s') (status_of s') \<and>
     (\<forall>i. loop_index (rpc s') = Some i \<longrightarrow> i < length (action_list (the_task s'))) \<and>
     (\<forall>i. rpc s' = R_test i \<and> status_of s' = PAUSE \<longrightarrow> i < length (action_list (the_task s')))"
    using m(1) assms(2) unfolding m(4) runner_move_def run_inv_def
    by (cases "rpc s") (auto simp: status_at_def loop_index_def split: if_splits)
  have "bot_inv s'"
    using m(1) assms(2) unfolding bot_inv_def m(2,5) runner_move_def run_inv_def
    by (cases "rpc s") (auto simp: status_at_def)
  with st assms(2) show ?thesis unfolding run_inv_def m(2,3) by auto
qed

lemma paused_inv_runner:
  assumes "run_turn pretty now turns s = Some s'" "run_inv s" "paused_inv s"
  shows "paused_inv s'"
proof -
  note m = run_turn_move [OF assms(1)]
  have w: "waits_resume s' = waits_resume s" "waits_cancel s' = waits_cancel s"
    by (simp_all add: waits_resume_def waits_cancel_def m(2,3))
  have "request_at (cpc s) (request_of s)" "status_at (rpc s) (status_of s)"
    using assms(2) by (simp_all add: run_inv_def)
  with m(1) assms(3) show ?thesis unfolding paused_inv_def w m(2,3) runner_move_def
    by (cases "rpc s")
      (auto simp: status_at_def request_at_def waits_resume_def waits_cancel_def split: if_splits)
qed


text \<open>A step of the controller, as the runner sees it.\<close>

definition control_move :: "run_state \<Rightarrow> control_pc \<Rightarrow> int \<Rightarrow> bool" where
  "control_move s pc rq \<longleftrightarrow> (case cpc s of
      C_idle \<Rightarrow> False
    | C_pause_req \<Rightarrow> pc = C_pause_stop \<and> rq = REQ_PAUSE
    | C_pause_stop \<Rightarrow> pc = C_pause_wait \<and> rq = request_of s
    | C_pause_wait \<Rightarrow> pc = (if status_of s \<noteq> PAUSE \<and> status_of s \<noteq> END then C_pause_wait else C_idle) \<and>
        rq = request_of s
    | C_resume_req \<Rightarrow> pc = C_resume_wait \<and> rq = REQ_RESUME
    | C_resume_wait \<Rightarrow> pc = (if status_of s \<noteq> EXECING \<and> status_of s \<noteq> END then C_resume_wait else C_idle) \<and>
        rq = request_of s
    | C_cancel_req \<Rightarrow> pc = C_cancel_stop \<and> rq = REQ_CANCEL
    | C_cancel_stop \<Rightarrow> pc = C_cancel_wait \<and> rq = request_of s
    | C_cancel_wait \<Rightarrow> pc = (if status_of s \<noteq> END then C_cancel_wait else C_idle) \<and> rq = request_of s)"

lemma control_turn_move:
  assumes "control_turn s = Some s'" "bot_inv s"
  shows "control_move s (cpc s') (request_of s')"
    and "rpc s' = rpc s" "trail s' = trail s" "events s' = events s" "waiting s' = waiting s"
    and "status_of s' = status_of s" "action_list (the_task s') = action_list (the_task s)"
    and "task_bot (the_task s') = task_bot (the_task s)" "max_count (the_task s') = max_count (the_task s)"
  using assms
  by (cases "cpc s"; auto simp: control_turn_def control_move_def bot_inv_def task_is_over_def split: if_splits)+

lemma run_inv_controller:
  assumes "control_turn s = Some s'" "run_inv s"
  shows "run_inv s'"
proof -
  have b: "bot_inv s" using assms(2) by (simp add: run_inv_def)
  note m = control_turn_move [OF assms(1) b]
  have r: "request_at (cpc s) (request_of s)" using assms(2) by (simp add: run_inv_def)
  have "request_at (cpc s') (request_of s')"
    using m(1) r by (cases "cpc s") (simp_all add: control_move_def request_at_def)
  moreover have "bot_inv s'"
    using b m(1) unfolding bot_inv_def m(6,8) by (cases "cpc s") (auto simp: control_move_def)
  ultimately show ?thesis using assms(2) unfolding run_inv_def m(2,6,7) by auto
qed

lemma paused_inv_controller:
  assumes "control_turn s = Some s'" "run_inv s" "paused_inv s"
  shows "paused_inv s'"
proof -
  have b: "bot_inv s" using assms(2) by (simp add: run_inv_def)
  note m = control_turn_move [OF assms(1) b]
  have "status_at (rpc s) (status_of s)" "request_at (cpc s) (request_of s)"
    using assms(2) by (simp_all add: run_inv_def)
  with m(1) assms(3) show ?thesis
    unfolding paused_inv_def waits_resume_def waits_cancel_def m(2,6)
    by (cases "cpc s"; cases "rpc s"; simp add: control_move_def status_at_def request_at_def split: if_splits; auto)
qed

lemma inv_call:
  assumes "cpc s = C_idle" "run_inv s" "paused_inv s"
  shows "run_inv (control_start c s) \<and> paused_inv (control_start c s)"
proof -
  have "run_inv (s\<lparr> cpc := x \<rparr>)" if "x = C_pause_req \<or> x = C_resume_req \<or> x = C_cancel_req"
    "status_of s = EXECING \<or> status_of s = PAUSE" for x
    using that assms(1,2) by (auto simp: run_inv_def bot_inv_def request_at_def)
  moreover have "paused_inv (s\<lparr> cpc := x \<rparr>)" if "x = C_pause_req \<and> status_of s = EXECING \<or>
      x = C_resume_req \<and> status_of s = PAUSE \<or> x = C_cancel_req" for x
    using that assms by (cases "rpc s")
      (auto simp: run_inv_def status_at_def paused_inv_def waits_resume_def waits_cancel_def)
  ultimately show ?thesis
    using assms by (auto simp: control_start_def split: control_call.splits)
qed

lemma inv_assign:
  assumes "rpc s = R_idle" "cpc s = C_idle" "task_status t = INIT"
  shows "run_inv (s\<lparr> the_task := task_assign (the_task s) t \<rparr>) \<and>
    paused_inv (s\<lparr> the_task := task_assign (the_task s) t \<rparr>)"
  using assms by (simp add: run_inv_def status_at_def loop_index_def bot_inv_def request_at_def
      task_assign_def paused_inv_def)

lemma inv_same:
  assumes "rpc s' = rpc s" "cpc s' = cpc s" "status_of s' = status_of s" "request_of s' = request_of s"
    "task_bot (the_task s') = task_bot (the_task s)" "action_list (the_task s') = action_list (the_task s)"
  shows "run_inv s' = run_inv s" "paused_inv s' = paused_inv s"
  unfolding run_inv_def bot_inv_def paused_inv_def waits_resume_def waits_cancel_def assms by auto

lemma run_inv_step:
  assumes "task_step pretty s a s'" "run_inv s" "paused_inv s"
  shows "run_inv s' \<and> paused_inv s'"
  using assms(1)
proof (cases rule: task_step.cases)
  case (runner now turns)
  then show ?thesis using assms run_inv_runner paused_inv_runner by blast
next
  case controller
  then show ?thesis using assms run_inv_controller paused_inv_controller by blast
next
  case (call c)
  then show ?thesis using assms inv_call by blast
next
  case spawn
  then show ?thesis using assms inv_same [of s' s] by simp
next
  case (assign t)
  then show ?thesis using inv_assign by blast
next
  case install
  then show ?thesis using assms inv_same [of s' s] by (simp add: install_callbacks_def)
next
  case (use turns code active args r rb' es)
  then show ?thesis using assms inv_same [of s' s] by simp
qed

lemma run_reach_inv: "run_reach pretty s \<Longrightarrow> run_inv s \<and> paused_inv s"
  by (induction rule: run_reach.induct) (use run_inv_init run_inv_step in blast)+

text \<open>Stretches of an execution in which a condition holds throughout, with the number of steps the
  runner makes.\<close>

inductive stays :: "(camera_action \<Rightarrow> string) \<Rightarrow> (run_state \<Rightarrow> bool) \<Rightarrow> run_state \<Rightarrow> nat \<Rightarrow> run_state \<Rightarrow> bool"
  for pretty :: "camera_action \<Rightarrow> string" and P :: "run_state \<Rightarrow> bool" and s :: run_state where
  stays_refl: "P s \<Longrightarrow> stays pretty P s 0 s"
| stays_runner: "stays pretty P s n s1 \<Longrightarrow> task_step pretty s1 Runner s2 \<Longrightarrow> P s2 \<Longrightarrow>
    stays pretty P s (Suc n) s2"
| stays_other: "stays pretty P s n s1 \<Longrightarrow> task_step pretty s1 a s2 \<Longrightarrow> a \<noteq> Runner \<Longrightarrow> P s2 \<Longrightarrow>
    stays pretty P s n s2"

lemma stays_ends: "stays pretty P s n s' \<Longrightarrow> P s' \<and> (run_reach pretty s \<longrightarrow> run_reach pretty s')"
  by (induction rule: stays.induct) (auto intro: run_reach.step)

text \<open>A rank that every step of the runner lowers and no other step raises bounds their number.\<close>

lemma stays_rank:
  assumes "stays pretty P s n s'" "run_reach pretty s"
    and runner: "\<And>s1 s2. P s1 \<Longrightarrow> P s2 \<Longrightarrow> run_inv s1 \<Longrightarrow> paused_inv s1 \<Longrightarrow>
      task_step pretty s1 Runner s2 \<Longrightarrow> w + f s2 \<le> (f s1 :: nat)"
    and other: "\<And>s1 s2 a. P s1 \<Longrightarrow> P s2 \<Longrightarrow> run_inv s1 \<Longrightarrow> paused_inv s1 \<Longrightarrow>
      task_step pretty s1 a s2 \<Longrightarrow> a \<noteq> Runner \<Longrightarrow> f s2 \<le> f s1"
  shows "n * w + f s' \<le> f s"
  using assms(1)
proof (induction rule: stays.induct)
  case stays_refl
  then show ?case by simp
next
  case (stays_runner n s1 s2)
  have "P s1" "run_inv s1 \<and> paused_inv s1"
    using stays_ends [OF stays_runner.hyps(1)] assms(2) run_reach_inv by blast+
  with stays_runner runner [of s1 s2] show ?case by auto
next
  case (stays_other n s1 a s2)
  have "P s1" "run_inv s1 \<and> paused_inv s1"
    using stays_ends [OF stays_other.hyps(1)] assms(2) run_reach_inv by blast+
  with stays_other other [of s1 s2 a] show ?case by fastforce
qed

lemma runner_stepE:
  assumes "task_step pretty s Runner s'"
  shows "runner_move s (rpc s') (status_of s') (trail s')"
    "cpc s' = cpc s" "request_of s' = request_of s" "action_list (the_task s') = action_list (the_task s)"
  using assms by (auto elim!: task_stepE dest: run_turn_move)

text \<open>Steps of the others while a control function is running or the runner is.\<close>

lemma other_step:
  assumes "task_step pretty s a s'" "a \<noteq> Runner" "bot_inv s" "rpc s \<noteq> R_idle \<or> cpc s \<noteq> C_idle"
  shows "rpc s' = rpc s" "trail s' = trail s" "status_of s' = status_of s"
    "action_list (the_task s') = action_list (the_task s)"
proof -
  have "rpc s' = rpc s \<and> trail s' = trail s \<and> status_of s' = status_of s \<and>
    action_list (the_task s') = action_list (the_task s)"
    using assms(1)
  proof (cases rule: task_step.cases)
    case controller
    then show ?thesis using control_turn_move [OF _ assms(3)] by blast
  qed (use assms in \<open>auto simp: control_start_def install_callbacks_def split: control_call.splits\<close>)
  then show "rpc s' = rpc s" "trail s' = trail s" "status_of s' = status_of s"
    "action_list (the_task s') = action_list (the_task s)" by blast+
qed

definition calls :: "run_state \<Rightarrow> nat" where
  "calls s = length (filter (\<lambda>x. snd x = Called) (trail s))"

text \<open>How many steps the runner is from noticing a cancel.\<close>

definition cancel_rank :: "runner_pc \<Rightarrow> nat" where
  "cancel_rank pc = (case pc of
      R_end \<Rightarrow> 1 | R_cancel_store i \<Rightarrow> 2 | R_cancel i \<Rightarrow> 3 | R_test i \<Rightarrow> 4 | R_action i \<Rightarrow> 5
    | R_exec i \<Rightarrow> 6 | R_paused i \<Rightarrow> 7 | R_pause_store i \<Rightarrow> 8 | R_pause i \<Rightarrow> 9 | R_resume_store i \<Rightarrow> 10
    | R_resume i \<Rightarrow> 11 | _ \<Rightarrow> 0)"

definition cancelling :: "run_state \<Rightarrow> bool" where
  "cancelling s \<longleftrightarrow> waits_cancel s \<and> rpc s \<noteq> R_dead \<and>
     (status_of s = EXECING \<or> status_of s = PAUSE \<or> status_of s = CANCEL)"

lemma cancel_runner:
  assumes "cancelling s" "cancelling s'" "run_inv s" "task_step pretty s Runner s'"
  shows "Suc (cancel_rank (rpc s')) \<le> cancel_rank (rpc s)"
    "calls s' + (if cancel_rank (rpc s') \<ge> 6 then 1 else 0) \<le> calls s + (if cancel_rank (rpc s) \<ge> 6 then 1 else 0)"
proof -
  have st: "status_at (rpc s) (status_of s)" using assms(3) by (simp add: run_inv_def)
  note r = runner_stepE [OF assms(4)]
  have "Suc (cancel_rank (rpc s')) \<le> cancel_rank (rpc s) \<and>
    calls s' + (if cancel_rank (rpc s') \<ge> 6 then 1 else 0) \<le> calls s + (if cancel_rank (rpc s) \<ge> 6 then 1 else 0)"
    using st r(1) assms(1,2)
    by (cases "rpc s")
      (auto simp: runner_move_def status_at_def cancel_rank_def cancelling_def waits_cancel_def calls_def
        split: if_splits)
  then show "Suc (cancel_rank (rpc s')) \<le> cancel_rank (rpc s)"
    "calls s' + (if cancel_rank (rpc s') \<ge> 6 then 1 else 0) \<le> calls s + (if cancel_rank (rpc s) \<ge> 6 then 1 else 0)"
    by blast+
qed


definition pause_rank :: "runner_pc \<Rightarrow> nat" where
  "pause_rank pc = (case pc of
      R_end \<Rightarrow> 1 | R_cancel_store i \<Rightarrow> 1 | R_pause_store i \<Rightarrow> 1 | R_pause i \<Rightarrow> 2 | R_resume i \<Rightarrow> 3
    | R_resume_store i \<Rightarrow> 3 | R_cancel i \<Rightarrow> 4 | R_test i \<Rightarrow> 5 | R_action i \<Rightarrow> 6 | R_exec i \<Rightarrow> 7 | _ \<Rightarrow> 0)"

definition pausing :: "run_state \<Rightarrow> bool" where
  "pausing s \<longleftrightarrow> request_of s = REQ_PAUSE \<and> (cpc s = C_pause_stop \<or> cpc s = C_pause_wait) \<and>
     rpc s \<noteq> R_dead \<and> status_of s = EXECING"

lemma pause_runner:
  assumes "pausing s" "pausing s'" "run_inv s" "task_step pretty s Runner s'"
  shows "Suc (pause_rank (rpc s')) \<le> pause_rank (rpc s)"
    "calls s' + (if pause_rank (rpc s') \<ge> 7 then 1 else 0) \<le> calls s + (if pause_rank (rpc s) \<ge> 7 then 1 else 0)"
proof -
  have st: "status_at (rpc s) (status_of s)" using assms(3) by (simp add: run_inv_def)
  note r = runner_stepE [OF assms(4)]
  have "Suc (pause_rank (rpc s')) \<le> pause_rank (rpc s) \<and>
    calls s' + (if pause_rank (rpc s') \<ge> 7 then 1 else 0) \<le> calls s + (if pause_rank (rpc s) \<ge> 7 then 1 else 0)"
    using st r(1) assms(1,2)
    by (cases "rpc s")
      (auto simp: runner_move_def status_at_def pause_rank_def pausing_def calls_def split: if_splits)
  then show "Suc (pause_rank (rpc s')) \<le> pause_rank (rpc s)"
    "calls s' + (if pause_rank (rpc s') \<ge> 7 then 1 else 0) \<le> calls s + (if pause_rank (rpc s) \<ge> 7 then 1 else 0)"
    by blast+
qed

definition resume_rank :: "runner_pc \<Rightarrow> nat" where
  "resume_rank pc = (case pc of
      R_cancel_store i \<Rightarrow> 1 | R_resume_store i \<Rightarrow> 1 | R_resume i \<Rightarrow> 2 | R_cancel i \<Rightarrow> 3 | R_test i \<Rightarrow> 4
    | R_exec i \<Rightarrow> 5 | R_paused i \<Rightarrow> 6 | R_pause i \<Rightarrow> 6 | _ \<Rightarrow> 0)"

definition resuming :: "run_state \<Rightarrow> bool" where
  "resuming s \<longleftrightarrow> waits_resume s \<and> rpc s \<noteq> R_dead \<and> status_of s = PAUSE"

lemma resume_runner:
  assumes "resuming s" "resuming s'" "run_inv s" "task_step pretty s Runner s'"
  shows "Suc (resume_rank (rpc s')) \<le> resume_rank (rpc s) \<and> trail s' = trail s"
proof -
  have st: "status_at (rpc s) (status_of s)"
    "\<forall>i. rpc s = R_test i \<and> status_of s = PAUSE \<longrightarrow> i < length (action_list (the_task s))"
    using assms(3) by (simp_all add: run_inv_def)
  note r = runner_stepE [OF assms(4)]
  show ?thesis
    using st r(1) assms(1,2)
    by (cases "rpc s")
      (auto simp: runner_move_def status_at_def resume_rank_def resuming_def waits_resume_def split: if_splits)
qed

lemma control_other:
  assumes "run_inv s" "task_step pretty s a s'" "a \<noteq> Runner" "cpc s \<noteq> C_idle"
  shows "rpc s' = rpc s" "calls s' = calls s" "trail s' = trail s"
  using other_step [OF assms(2,3)] assms(1,4) by (auto simp: run_inv_def calls_def)

section \<open>A task under control\<close>

definition feedback_ok :: "json \<Rightarrow> bool" where
  "feedback_ok f \<longleftrightarrow> f = J_null \<or> (\<exists>now t no st rslt rem tg. f = feedback now t no st rslt rem tg)"

lemma feedback_ok_feedback [simp]: "feedback_ok (feedback now t no st rslt rem tg)" "feedback_ok J_null"
  unfolding feedback_ok_def by blast+

lemma call_back_ok:
  assumes "feedback_ok (static_feedback s)"
  shows "call_back now slot no st rslt rem tg s =
    Inr (s\<lparr> static_feedback := feedback now (the_task s) no st rslt rem tg,
           events := events s @ [Callback (slot (the_task s)) (feedback now (the_task s) no st rslt rem tg)] \<rparr>)"
  using assms
  by (auto simp: feedback_ok_def call_back_def generate_feedback_first generate_feedback_again)

definition demo_action :: task_action where
  "demo_action = \<lparr> act_no = 1, device_code = ''7'', active_code = ''Wait'',
     active_args = J_object [(''arg'', J_integer 5)], act_remark = None, act_tag = None \<rparr>"

definition demo_task :: task where
  "demo_task = empty_task\<lparr> max_count := 1, action_list := [demo_action] \<rparr>"

definition demo_start :: run_state where
  "demo_start = (run_init [])\<lparr> the_task := demo_task, waiting := 1 \<rparr>"

definition demo_run :: run_state where
  "demo_run = (let t = demo_task\<lparr> executed_count := 1 \<rparr>;
       f = feedback 0 t 0 START '''' (Some ''The task will start.'') None in
     demo_start\<lparr> the_task := t\<lparr> task_bot := True, task_status := EXECING \<rparr>, waiting := 0,
       static_feedback := f, events := [Callback Empty_callback f], rpc := R_test 0 \<rparr>)"

lemma demo_task_good: "task_good demo_task"
  by (simp add: task_good_def demo_task_def demo_action_def empty_task_def action_good_def json_good_def
      is_object_def is_int32_def utf8_valid_ascii_string del: utf8_valid.simps)

lemma reach_turn: "run_reach pretty s \<Longrightarrow> run_turn pretty now turns s = Some s' \<Longrightarrow> run_reach pretty s'"
  by (blast intro: run_reach.step task_step.runner)

lemma demo_start_reach: "run_reach pretty demo_start"
proof -
  have "task_step pretty (run_init []) (Assign demo_task) ((run_init [])\<lparr> the_task := task_assign (the_task (run_init [])) demo_task \<rparr>)"
    by (rule task_step.assign) (simp_all add: run_init_def demo_task_good, simp_all add: demo_task_def empty_task_def)
  moreover have "task_assign (the_task (run_init [])) demo_task = demo_task"
    by (simp add: task_assign_def demo_task_def empty_task_def run_init_def)
  ultimately have r: "run_reach pretty ((run_init [])\<lparr> the_task := demo_task \<rparr>)"
    using run_reach.step [OF run_reach.init] by metis
  have "task_step pretty ((run_init [])\<lparr> the_task := demo_task \<rparr>) Spawn demo_start"
    using task_step.spawn [of "(run_init [])\<lparr> the_task := demo_task \<rparr>"] by (simp add: demo_start_def run_init_def)
  with r show ?thesis by (rule run_reach.step)
qed

lemma demo_run_reach: "run_reach pretty demo_run"
proof -
  let ?t = "demo_task\<lparr> executed_count := 1 \<rparr>"
  let ?f = "feedback 0 ?t 0 START '''' (Some ''The task will start.'') None"
  let ?s1 = "demo_start\<lparr> waiting := 0, rpc := R_begin \<rparr>"
  let ?s2 = "?s1\<lparr> the_task := ?t, static_feedback := ?f, events := [Callback Empty_callback ?f], rpc := R_enter \<rparr>"
  have "run_turn pretty 0 [] demo_start = Some ?s1"
    by (simp add: run_turn_def demo_start_def run_init_def)
  with demo_start_reach have r: "run_reach pretty ?s1" by (rule reach_turn)
  have "run_turn pretty 0 [] ?s1 = Some ?s2"
    by (simp add: run_turn_def demo_start_def run_init_def Let_def demo_task_def empty_task_def
        call_back_ok feedback_ok_def go_or_die_def go_def)
  with r have r: "run_reach pretty ?s2" by (rule reach_turn)
  have "run_turn pretty 0 [] ?s2 = Some demo_run"
    by (simp add: run_turn_def demo_start_def run_init_def Let_def demo_task_def empty_task_def
        demo_run_def set_status_def)
  with r show ?thesis by (rule reach_turn)
qed

text \<open>A control function called on the running task, up to the store of its request.\<close>

lemma demo_request:
  "run_reach pretty (demo_run\<lparr> cpc := C_cancel_stop, the_task := (the_task demo_run)\<lparr> req_status := REQ_CANCEL \<rparr> \<rparr>)"
  "run_reach pretty (demo_run\<lparr> cpc := C_pause_stop, the_task := (the_task demo_run)\<lparr> req_status := REQ_PAUSE \<rparr> \<rparr>)"
proof -
  have d: "rpc demo_run = R_test 0" "cpc demo_run = C_idle" "status_of demo_run = EXECING"
    by (simp_all add: demo_run_def demo_start_def run_init_def Let_def)
  have call: "run_reach pretty (control_start c demo_run)" for c
    by (rule run_reach.step [OF demo_run_reach task_step.call]) (simp_all add: d)
  have req: "run_reach pretty s'" if "control_turn (control_start c demo_run) = Some s'" for c s'
    by (rule run_reach.step [OF call task_step.controller [OF _ that]])
      (simp add: d control_start_def split: control_call.split)
  show "run_reach pretty (demo_run\<lparr> cpc := C_cancel_stop, the_task := (the_task demo_run)\<lparr> req_status := REQ_CANCEL \<rparr> \<rparr>)"
    "run_reach pretty (demo_run\<lparr> cpc := C_pause_stop, the_task := (the_task demo_run)\<lparr> req_status := REQ_PAUSE \<rparr> \<rparr>)"
    by (rule req [of Call_cancel] req [of Call_pause]; simp add: control_start_def d control_turn_def set_request_def)+
qed


lemma reach_control: "run_reach pretty s \<Longrightarrow> rpc s \<noteq> R_dead \<Longrightarrow> control_turn s = Some s' \<Longrightarrow> run_reach pretty s'"
  by (blast intro: run_reach.step task_step.controller)

text \<open>The pause carried out, and a resume after it.\<close>

lemma demo_paused:
  "\<exists>s. run_reach pretty s \<and> rpc s = R_paused 0 \<and> status_of s = PAUSE \<and> request_of s = REQ_PAUSE \<and>
     cpc s = C_idle"
  "\<exists>s. run_reach pretty s \<and> resuming s \<and> rpc s = R_paused 0"
proof -
  let ?s0 = "demo_run\<lparr> cpc := C_pause_stop, the_task := (the_task demo_run)\<lparr> req_status := REQ_PAUSE \<rparr> \<rparr>"
  have d: "rpc demo_run = R_test 0" "cpc demo_run = C_idle" "status_of demo_run = EXECING"
    "action_list (the_task demo_run) = [demo_action]" "feedback_ok (static_feedback demo_run)"
    "task_bot (the_task demo_run)" "the_robot demo_run = []"
    by (simp_all add: demo_run_def demo_start_def run_init_def Let_def demo_task_def)
  have r: "run_reach pretty (?s0\<lparr> rpc := R_cancel 0 \<rparr>)"
    by (rule reach_turn [OF demo_request(2)]) (simp add: run_turn_def d)
  have r: "run_reach pretty (?s0\<lparr> rpc := R_resume 0 \<rparr>)"
    by (rule reach_turn [OF r]) (simp add: run_turn_def d)
  have r: "run_reach pretty (?s0\<lparr> rpc := R_pause 0 \<rparr>)"
    by (rule reach_turn [OF r]) (simp add: run_turn_def d)
  have r: "run_reach pretty (?s0\<lparr> rpc := R_pause_store 0 \<rparr>)"
    by (rule reach_turn [OF r]) (simp add: run_turn_def d)
  have "\<exists>s. run_turn pretty 0 [] (?s0\<lparr> rpc := R_pause_store 0 \<rparr>) = Some s \<and> rpc s = R_paused 0 \<and>
      status_of s = PAUSE \<and> request_of s = REQ_PAUSE \<and> cpc s = C_pause_stop \<and>
      task_bot (the_task s) \<and> the_robot s = []"
    by (simp add: run_turn_def d call_back_ok go_or_die_def go_def Let_def)
  then obtain s1 where s1: "run_reach pretty s1" "rpc s1 = R_paused 0" "status_of s1 = PAUSE"
    "request_of s1 = REQ_PAUSE" "cpc s1 = C_pause_stop" "task_bot (the_task s1)" "the_robot s1 = []"
    using reach_turn [OF r] by blast
  have r: "run_reach pretty (s1\<lparr> cpc := C_pause_wait \<rparr>)"
    by (rule reach_control [OF s1(1)]) (simp_all add: control_turn_def s1)
  have r: "run_reach pretty (s1\<lparr> cpc := C_idle \<rparr>)"
    by (rule reach_control [OF r]) (simp_all add: control_turn_def s1)
  then show "\<exists>s. run_reach pretty s \<and> rpc s = R_paused 0 \<and> status_of s = PAUSE \<and> request_of s = REQ_PAUSE \<and>
     cpc s = C_idle"
    using s1 by (intro exI [of _ "s1\<lparr> cpc := C_idle \<rparr>"]) simp
  have r: "run_reach pretty (control_start Call_resume (s1\<lparr> cpc := C_idle \<rparr>))"
    by (rule run_reach.step [OF r task_step.call]) (simp_all add: s1)
  have "run_reach pretty (set_request REQ_RESUME (s1\<lparr> cpc := C_resume_wait \<rparr>))"
    by (rule reach_control [OF r]) (simp_all add: control_turn_def control_start_def s1)
  then show "\<exists>s. run_reach pretty s \<and> resuming s \<and> rpc s = R_paused 0"
    by (intro exI [of _ "set_request REQ_RESUME (s1\<lparr> cpc := C_resume_wait \<rparr>)"])
      (simp add: resuming_def waits_resume_def s1)
qed

section \<open>Properties\<close>

text \<open>
  C5. A cancel is answered: from the moment its request is stored, and as long as the task is neither over
  nor dead, the runner makes at most eleven steps, whatever it was doing, and calls at most one action,
  in every interleaving with the waiting \<open>cancel\<close>; with the next step the task is over.
\<close>

theorem cancel_answered:
  assumes "run_reach pretty s" "stays pretty cancelling s n s'"
  shows "n \<le> 10 \<and> calls s' \<le> calls s + 1"
proof -
  have other: "rpc s2 = rpc s1 \<and> calls s2 = calls s1"
    if "cancelling s1" "run_inv s1" "task_step pretty s1 a s2" "a \<noteq> Runner" for s1 s2 a
    using control_other [OF that(2-4)] that(1) by (auto simp: cancelling_def waits_cancel_def)
  have "n * 1 + cancel_rank (rpc s') \<le> cancel_rank (rpc s)"
    by (rule stays_rank [OF assms(2,1), where f = "\<lambda>s. cancel_rank (rpc s)"])
      (use cancel_runner(1) other in auto)
  moreover have "n * 0 + (calls s' + (if cancel_rank (rpc s') \<ge> 6 then 1 else 0)) \<le>
      calls s + (if cancel_rank (rpc s) \<ge> 6 then 1 else 0)"
    by (rule stays_rank [OF assms(2,1), where f = "\<lambda>s. calls s + (if cancel_rank (rpc s) \<ge> 6 then 1 else 0)"])
      (use cancel_runner(2) other in auto)
  moreover have "cancel_rank (rpc s) \<le> 11" by (simp add: cancel_rank_def split: runner_pc.split)
  moreover have "0 < cancel_rank (rpc s')"
    using stays_ends [OF assms(2)] assms(1) run_reach_inv [of pretty s']
    by (auto simp: run_inv_def status_at_def cancelling_def cancel_rank_def split: runner_pc.splits)
  ultimately show ?thesis by (simp split: if_splits)
qed

lemma cancel_answered_witness:
  "\<exists>s s'. run_reach (\<lambda>_. []) s \<and> stays (\<lambda>_. []) cancelling s 1 s' \<and> (1 :: nat) \<le> 10 \<and> calls s' \<le> calls s + 1"
proof -
  let ?s = "demo_run\<lparr> cpc := C_cancel_stop, the_task := (the_task demo_run)\<lparr> req_status := REQ_CANCEL \<rparr> \<rparr>"
  let ?s' = "?s\<lparr> rpc := R_cancel 0 \<rparr>"
  have c: "cancelling ?s" "cancelling ?s'"
    by (simp_all add: cancelling_def waits_cancel_def demo_run_def demo_start_def run_init_def Let_def)
  have "run_turn (\<lambda>_. []) 0 [] ?s = Some ?s'"
    by (simp add: run_turn_def demo_run_def demo_start_def run_init_def Let_def demo_task_def)
  then have "stays (\<lambda>_. []) cancelling ?s 1 ?s'"
    using stays_runner [OF stays_refl [where P = cancelling, OF c(1)] task_step.runner c(2)] by simp
  with cancel_answered [OF demo_request(1) this] demo_request(1) show ?thesis by blast
qed





text \<open>
  C10. A paused task stays paused: while the pause request stands, no step of any thread changes the status,
  moves the runner out of the wait or starts an action.
\<close>

theorem pause_holds:
  assumes "run_reach pretty s" "task_step pretty s a s'" "status_of s = PAUSE" "request_of s = REQ_PAUSE"
    "rpc s \<noteq> R_dead"
  shows "status_of s' = PAUSE \<and> rpc s' = rpc s \<and> trail s' = trail s"
proof -
  have inv: "run_inv s" "paused_inv s" using run_reach_inv [OF assms(1)] by auto
  then obtain i where i: "rpc s = R_paused i"
    using assms(3-5) by (auto simp: paused_inv_def run_inv_def status_at_def waits_resume_def waits_cancel_def
        split: runner_pc.splits)
  show ?thesis
  proof (cases "a = Runner")
    case True
    with assms(2) runner_stepE(1) [of pretty s s'] i show ?thesis
      using assms(3,4) by (simp add: runner_move_def)
  next
    case False
    have "bot_inv s" using inv by (simp add: run_inv_def)
    with other_step [OF assms(2) False] i assms(3) show ?thesis by simp
  qed
qed

lemma pause_holds_witness:
  "\<exists>s s'. run_reach (\<lambda>_. []) s \<and> task_step (\<lambda>_. []) s Runner s' \<and> status_of s' = PAUSE \<and> trail s' = trail s"
proof -
  obtain s where s: "run_reach (\<lambda>_. []) s" "rpc s = R_paused 0" "status_of s = PAUSE" "request_of s = REQ_PAUSE"
    using demo_paused(1) by blast
  have step: "task_step (\<lambda>_. []) s Runner s"
    by (rule task_step.runner [of _ 0 "[]"]) (simp add: run_turn_def s)
  from pause_holds [OF s(1) step s(3,4)] s step show ?thesis by auto
qed

definition status_edge :: "int \<Rightarrow> int \<Rightarrow> bool" where
  "status_edge x y \<longleftrightarrow> (x, y) \<in>
     {(INIT, EXECING), (INIT, END), (END, EXECING), (EXECING, PAUSE), (EXECING, CANCEL), (EXECING, END),
      (PAUSE, EXECING), (PAUSE, CANCEL), (CANCEL, END)}"



end
