(* ===== verification/TaskProgress.thy ===== *)
theory TaskProgress imports TaskControl begin

text \<open>
  More of \<open>task::run\<close>: its actions are called in order and completed once each, no exception leaves it, it
  ends, and the gap in which a cancel is lost.  \<open>dones\<close> reads the completed actions off the ghost trail of
  the state.
\<close>

section \<open>The order of the actions\<close>

definition dones :: "run_state \<Rightarrow> nat list" where
  "dones s = map fst (filter (\<lambda>x. snd x = Done) (trail s))"

definition order_inv :: "run_state \<Rightarrow> bool" where
  "order_inv s \<longleftrightarrow> (case rpc s of
      R_begin \<Rightarrow> trail s = []
    | R_refuse \<Rightarrow> True | R_refused \<Rightarrow> True | R_idle \<Rightarrow> True | R_over \<Rightarrow> True | R_dead \<Rightarrow> True
    | R_enter \<Rightarrow> trail s = []
    | R_test i \<Rightarrow> dones s = [0..<i] \<and> i \<le> length (action_list (the_task s))
    | R_end \<Rightarrow> status_of s = CANCEL \<or> (\<exists>i. trail s \<noteq> [] \<and> last (trail s) = (i, Failed)) \<or>
        dones s = [0..<length (action_list (the_task s))]
    | pc \<Rightarrow> (\<forall>i. loop_index pc = Some i \<longrightarrow> dones s = [0..<i]))"

lemma order_runner:
  assumes "task_step pretty s Runner s'" "run_inv s" "order_inv s"
  shows "order_inv s'"
proof -
  have i: "\<forall>i. loop_index (rpc s) = Some i \<longrightarrow> i < length (action_list (the_task s))"
    using assms(2) by (simp add: run_inv_def)
  note r = runner_stepE [OF assms(1)]
  show ?thesis
    using r(1) i assms(3)
    by (cases "rpc s")
      (auto simp: runner_move_def order_inv_def loop_index_def dones_def r(4) split: if_splits)
qed

lemma order_other:
  assumes "task_step pretty s a s'" "a \<noteq> Runner" "run_inv s" "order_inv s"
  shows "order_inv s'"
proof (cases "rpc s = R_idle \<and> cpc s = C_idle")
  case True
  with assms(1,2) have "rpc s' = R_idle"
    by (auto elim!: task_stepE simp: control_start_def control_turn_def split: control_call.splits)
  then show ?thesis by (simp add: order_inv_def)
next
  case False
  then have "rpc s' = rpc s" "trail s' = trail s" "status_of s' = status_of s"
    "action_list (the_task s') = action_list (the_task s)"
    using other_step [OF assms(1,2)] assms(3) by (auto simp: run_inv_def)
  with assms(4) show ?thesis by (cases "rpc s") (simp_all add: order_inv_def dones_def)
qed

lemma order_reach: "run_reach pretty s \<Longrightarrow> order_inv s"
proof (induction rule: run_reach.induct)
  case (init rb)
  then show ?case by (simp add: order_inv_def run_init_def)
next
  case (step s a s')
  then show ?case
    using run_reach_inv [OF step.hyps(1)] order_runner order_other by (cases "a = Runner") blast+
qed

text \<open>
  C8. Actions run in order, each to its end: whenever a run is inside the call of action i, in any
  interleaving with pauses, resumes and repeated interrupted actions, exactly the actions 0 to i-1 have
  been completed, each once; and a run that leaves its loop without having been cancelled has completed
  all of them or stopped at one that failed.
\<close>

theorem actions_in_order:
  assumes "run_reach pretty s"
  shows "(\<forall>i. rpc s = R_action i \<longrightarrow> i < length (action_list (the_task s)) \<and> dones s = [0..<i]) \<and>
    (rpc s = R_end \<and> status_of s = EXECING \<longrightarrow>
       dones s = [0..<length (action_list (the_task s))] \<or> (\<exists>i. last (trail s) = (i, Failed)))"
proof -
  have "run_inv s" "order_inv s" using run_reach_inv [OF assms] order_reach [OF assms] by auto
  then show ?thesis by (auto simp: order_inv_def run_inv_def loop_index_def)
qed

section \<open>No exception escapes\<close>

definition survival_inv :: "run_state \<Rightarrow> bool" where
  "survival_inv s \<longleftrightarrow> feedback_ok (static_feedback s) \<and>
     (\<forall>a\<in>set (action_list (the_task s)). json_good (active_args a)) \<and>
     (rpc s = R_dead \<longrightarrow> executed_count (the_task s) = 2147483647)"

lemma utf8_ascii_simps: "utf8_valid ''remark''" "utf8_valid ''Executed successfully''"
  "failure_remark e = Some m \<Longrightarrow> utf8_valid m"
  by (simp_all add: utf8_valid_ascii_string del: utf8_valid.simps)
    (cases e; auto simp: utf8_valid_ascii_string simp del: utf8_valid.simps)

lemma handle_failure_survives:
  assumes "feedback_ok (static_feedback s)" "json_good r" "r = J_null \<or> is_object r"
    "e = Std_out_of_range \<or> action_exn e"
  shows "rpc (handle_failure now act i r e s) = R_end \<and>
    feedback_ok (static_feedback (handle_failure now act i r e s))"
proof -
  obtain m where m: "failure_remark e = Some m" using assms(4) by (auto simp: action_exn_def)
  have "\<exists>r'. json_set r ''remark'' (J_string m) = Inr r'"
    using assms(2,3) by (cases r) (auto simp: json_set_def json_ref_def is_object_def split: option.splits)
  then obtain r' where r': "json_set r ''remark'' (J_string m) = Inr r'" by blast
  have "json_good r'" using json_good_set [OF r' assms(2)] utf8_ascii_simps(1,3) m by auto
  then obtain t where t: "json_dump 0 r' = Inr t" using json_good_dump by blast
  show ?thesis
    using assms(1) by (simp add: handle_failure_def m r' t call_back_ok go_or_die_def go_def)
qed

lemma finish_action_survives:
  assumes "feedback_ok (static_feedback s)" "r = Inl Std_out_of_range \<or> result_good r"
  shows "rpc (finish_action now act i r s) \<noteq> R_dead \<and>
    feedback_ok (static_feedback (finish_action now act i r s))"
proof (cases r)
  case (Inl e)
  with assms handle_failure_survives [OF assms(1), of J_null e] show ?thesis
    by (auto simp: finish_action_def)
next
  case (Inr x)
  then have x: "json_good x" "x = J_null \<or> is_object x" using assms(2) by auto
  have "\<exists>r'. json_set x ''remark'' (J_string ''Executed successfully'') = Inr r'"
    using x by (cases x) (auto simp: json_set_def json_ref_def is_object_def split: option.splits)
  then obtain r' where r': "json_set x ''remark'' (J_string ''Executed successfully'') = Inr r'" by blast
  have "json_good r'" using json_good_set [OF r' x(1)] utf8_ascii_simps(1,2) by auto
  then obtain t where t: "json_dump 0 r' = Inr t" using json_good_dump by blast
  show ?thesis
    using assms(1) by (simp add: finish_action_def Inr r' t call_back_ok)
qed


lemma survival_runner:
  assumes "run_turn pretty now turns s = Some s'" "run_inv s" "survival_inv s" "\<And>a. utf8_valid (pretty a)"
  shows "survival_inv s'"
proof (cases "\<exists>i. rpc s = R_action i")
  case True
  then obtain i where i: "rpc s = R_action i" by blast
  let ?act = "action_list (the_task s) ! i"
  from i assms(1) obtain r rb' es where d: "dispatch pretty turns (the_robot s) (device_code ?act)
      (active_code ?act) (active_args ?act) = Some (r, rb', es)"
    and s': "s' = finish_action now ?act i r (s\<lparr> the_robot := rb', events := events s @ [Effects es] \<rparr>)"
    by (auto simp: run_turn_def Let_def)
  have "?act \<in> set (action_list (the_task s))" using assms(2) i by (simp add: run_inv_def loop_index_def)
  then have g: "json_good (active_args ?act)" using assms(3) by (simp add: survival_inv_def)
  have "r = Inl Std_out_of_range \<or> result_good r" using dispatch_good [OF d assms(4) g] by blast
  with assms(3) finish_action_survives [of "s\<lparr> the_robot := rb', events := events s @ [Effects es] \<rparr>" r now ?act i]
  show ?thesis unfolding s' by (simp add: survival_inv_def finish_action_effect)
next
  case False
  have i: "\<forall>i. loop_index (rpc s) = Some i \<longrightarrow> i < length (action_list (the_task s))"
    using assms(2) by (simp add: run_inv_def)
  from False assms(1,3) i show ?thesis
    by (cases "rpc s")
      (auto simp: run_turn_def survival_inv_def Let_def call_back_ok go_or_die_def go_def loop_index_def
        set_status_def split: if_splits)
qed

lemma survival_step:
  assumes "task_step pretty s a s'" "run_inv s" "survival_inv s" "\<And>a. utf8_valid (pretty a)"
  shows "survival_inv s'"
  using assms(1)
proof (cases rule: task_step.cases)
  case (runner now turns)
  then show ?thesis using survival_runner assms(2-4) by blast
next
  case controller
  have "bot_inv s" using assms(2) by (simp add: run_inv_def)
  with controller assms(3) show ?thesis
    by (cases "cpc s") (auto simp: control_turn_def survival_inv_def set_request_def bot_inv_def split: if_splits)
next
  case (call c)
  then show ?thesis using assms(3) by (cases c) (auto simp: control_start_def survival_inv_def)
next
  case (assign t)
  then show ?thesis
    using assms(3) by (auto simp: survival_inv_def task_assign_def task_good_def action_good_def)
qed (use assms(3) in \<open>auto simp: survival_inv_def install_callbacks_def\<close>)

lemma survival_reach: "run_reach pretty s \<Longrightarrow> (\<And>a. utf8_valid (pretty a)) \<Longrightarrow> survival_inv s"
proof (induction rule: run_reach.induct)
  case (init rb)
  then show ?case by (simp add: survival_inv_def run_init_def empty_task_def)
next
  case (step s a s')
  then show ?case using run_reach_inv [OF step.hyps(1)] survival_step by blast
qed



section \<open>A run ends\<close>

text \<open>The number of steps to the end of a run in which no action is interrupted or repeated.\<close>

definition run_rank :: "nat \<Rightarrow> runner_pc \<Rightarrow> nat" where
  "run_rank len pc = (case pc of
      R_begin \<Rightarrow> 7 * len + 5 | R_refuse \<Rightarrow> 2 | R_refused \<Rightarrow> 1 | R_enter \<Rightarrow> 7 * len + 4
    | R_test i \<Rightarrow> 7 * (len - i) + 3 | R_cancel i \<Rightarrow> 7 * (len - i) + 2 | R_resume i \<Rightarrow> 7 * (len - i) + 1
    | R_pause i \<Rightarrow> 7 * (len - i) | R_exec i \<Rightarrow> 7 * (len - i) - 1 | R_action i \<Rightarrow> 7 * (len - i) - 2
    | R_cancel_store i \<Rightarrow> 3 | R_end \<Rightarrow> 2 | R_over \<Rightarrow> 1 | _ \<Rightarrow> 0)"

definition running_free :: "run_state \<Rightarrow> bool" where
  "running_free s \<longleftrightarrow> rpc s \<noteq> R_idle \<and> rpc s \<noteq> R_dead \<and> request_of s = INIT \<and> status_of s \<noteq> PAUSE \<and>
     (\<forall>i. (i, Again) \<notin> set (trail s))"

definition state_rank :: "run_state \<Rightarrow> nat" where
  "state_rank s = run_rank (length (action_list (the_task s))) (rpc s)"

lemma running_runner:
  assumes "running_free s" "running_free s'" "run_inv s" "task_step pretty s Runner s'"
  shows "1 + state_rank s' \<le> state_rank s"
proof -
  have i: "\<forall>i. loop_index (rpc s) = Some i \<longrightarrow> i < length (action_list (the_task s))"
    and st: "status_at (rpc s) (status_of s)"
    using assms(3) by (simp_all add: run_inv_def)
  note r = runner_stepE [OF assms(4)]
  show ?thesis
    using r(1) i st assms(1,2) unfolding state_rank_def r(4)
    by (cases "rpc s")
      (auto simp: runner_move_def loop_index_def status_at_def run_rank_def running_free_def split: if_splits)
qed

text \<open>
  C12. A run ends: while no control request arrives and no action returns interrupted, a run makes at most
  seven steps per action and five more before it has called its last callback and given the lock back,
  with the two threads interleaved in any way.
\<close>

theorem run_terminates:
  assumes "run_reach pretty s" "stays pretty running_free s n s'"
  shows "n \<le> 7 * length (action_list (the_task s)) + 5"
proof -
  have "n * 1 + state_rank s' \<le> state_rank s"
  proof (rule stays_rank [OF assms(2,1)])
    show "1 + state_rank s2 \<le> state_rank s1" if "running_free s1" "running_free s2" "run_inv s1" "paused_inv s1"
      "task_step pretty s1 Runner s2" for s1 s2
      using running_runner that by blast
  next
    show "state_rank s2 \<le> state_rank s1" if "running_free s1" "running_free s2" "run_inv s1" "paused_inv s1"
      "task_step pretty s1 a s2" "a \<noteq> Runner" for s1 s2 a
      using other_step [OF that(5,6)] that(1,3) by (auto simp: state_rank_def running_free_def run_inv_def)
  qed
  moreover have "state_rank s \<le> 7 * length (action_list (the_task s)) + 5"
    by (auto simp: state_rank_def run_rank_def split: runner_pc.split)
  ultimately show ?thesis by simp
qed


lemma run_terminates_witness:
  "\<exists>s s'. run_reach (\<lambda>_. []) s \<and> stays (\<lambda>_. []) running_free s 1 s' \<and> (1 :: nat) \<le> 12"
proof -
  let ?s' = "demo_run\<lparr> rpc := R_cancel 0 \<rparr>"
  have len: "length (action_list (the_task demo_run)) = 1"
    by (simp add: demo_run_def Let_def demo_task_def)
  have c: "running_free demo_run" "running_free ?s'"
    by (simp_all add: running_free_def demo_run_def demo_start_def run_init_def Let_def demo_task_def empty_task_def)
  have "run_turn (\<lambda>_. []) 0 [] demo_run = Some ?s'"
    by (simp add: run_turn_def demo_run_def demo_start_def run_init_def Let_def demo_task_def)
  then have p: "stays (\<lambda>_. []) running_free demo_run 1 ?s'"
    using stays_runner [OF stays_refl [where P = running_free, OF c(1)] task_step.runner c(2)] by simp
  from run_terminates [OF demo_run_reach this] have "(1 :: nat) \<le> 12" by (simp add: len)
  with p demo_run_reach show ?thesis by blast
qed

section \<open>A cancel that comes too early\<close>

lemma demo_first_action:
  "\<exists>s'. stays pretty (\<lambda>s. cpc s = C_idle) demo_start 8 s' \<and> rpc s' = R_action 0"
proof -
  have more: "stays pretty (\<lambda>s. cpc s = C_idle) demo_start (Suc n) s2"
    if "stays pretty (\<lambda>s. cpc s = C_idle) demo_start n s1" "run_turn pretty 0 [] s1 = Some s2" "cpc s2 = C_idle" for n s1 s2
    using that by (blast intro: stays_runner task_step.runner)
  note defs = run_turn_def demo_start_def run_init_def Let_def demo_task_def empty_task_def demo_run_def
    set_status_def call_back_ok go_or_die_def go_def
  let ?t = "demo_task\<lparr> executed_count := 1 \<rparr>"
  let ?f = "feedback 0 ?t 0 START '''' (Some ''The task will start.'') None"
  let ?s1 = "demo_start\<lparr> waiting := 0, rpc := R_begin \<rparr>"
  let ?s2 = "?s1\<lparr> the_task := ?t, static_feedback := ?f, events := [Callback Empty_callback ?f], rpc := R_enter \<rparr>"
  have r: "stays pretty (\<lambda>s. cpc s = C_idle) demo_start 0 demo_start"
    by (rule stays_refl) (simp add: demo_start_def run_init_def)
  have r: "stays pretty (\<lambda>s. cpc s = C_idle) demo_start (Suc 0) ?s1" by (rule more [OF r]) (simp_all add: defs)
  have r: "stays pretty (\<lambda>s. cpc s = C_idle) demo_start (Suc (Suc 0)) ?s2" by (rule more [OF r]) (simp_all add: defs)
  have r: "stays pretty (\<lambda>s. cpc s = C_idle) demo_start (Suc (Suc (Suc 0))) demo_run"
    by (rule more [OF r]) (simp_all add: defs)
  have r: "stays pretty (\<lambda>s. cpc s = C_idle) demo_start (Suc (Suc (Suc (Suc 0)))) (demo_run\<lparr> rpc := R_cancel 0 \<rparr>)"
    by (rule more [OF r]) (simp_all add: defs)
  have r: "stays pretty (\<lambda>s. cpc s = C_idle) demo_start (Suc (Suc (Suc (Suc (Suc 0))))) (demo_run\<lparr> rpc := R_resume 0 \<rparr>)"
    by (rule more [OF r]) (simp_all add: defs)
  have r: "stays pretty (\<lambda>s. cpc s = C_idle) demo_start (Suc (Suc (Suc (Suc (Suc (Suc 0)))))) (demo_run\<lparr> rpc := R_pause 0 \<rparr>)"
    by (rule more [OF r]) (simp_all add: defs)
  have r: "stays pretty (\<lambda>s. cpc s = C_idle) demo_start (Suc (Suc (Suc (Suc (Suc (Suc (Suc 0))))))) (demo_run\<lparr> rpc := R_exec 0 \<rparr>)"
    by (rule more [OF r]) (simp_all add: defs)
  have "\<exists>s'. run_turn pretty 0 [] (demo_run\<lparr> rpc := R_exec 0 \<rparr>) = Some s' \<and> rpc s' = R_action 0 \<and> cpc s' = C_idle"
    by (simp add: defs)
  then show ?thesis using more [OF r] by (auto simp: eval_nat_numeral)
qed

text \<open>
  A cancel between the start of the thread and the thread's first store is lost: there is a reachable
  state with a run started in which \<open>cancel\<close> returns at once, changing nothing, and from which the
  runner on its own then calls the first action of the task.
\<close>

theorem early_cancel_lost:
  "\<exists>s s'. run_reach pretty s \<and> waiting s = 1 \<and> task_step pretty s (Call Call_cancel) s \<and> cpc s = C_idle \<and>
     stays pretty (\<lambda>s. cpc s = C_idle) s 8 s' \<and> rpc s' = R_action 0"
proof -
  have "task_step pretty demo_start (Call Call_cancel) demo_start"
    using task_step.call [of demo_start pretty Call_cancel]
    by (simp add: control_start_def demo_start_def run_init_def demo_task_def empty_task_def)
  moreover have "waiting demo_start = 1" "cpc demo_start = C_idle" by (simp_all add: demo_start_def run_init_def)
  ultimately show ?thesis using demo_start_reach demo_first_action by blast
qed

lemma actions_in_order_witness:
  "\<exists>s. run_reach (\<lambda>_. []) s \<and> rpc s = R_action 0 \<and> dones s = [] \<and> 0 < length (action_list (the_task s))"
proof -
  obtain s where s: "stays (\<lambda>_. []) (\<lambda>s. cpc s = C_idle) demo_start 8 s" "rpc s = R_action 0"
    using demo_first_action by blast
  then have r: "run_reach (\<lambda>_. []) s" using stays_ends demo_start_reach by blast
  from actions_in_order [OF r] s r show ?thesis by auto
qed

end
