(* ===== verification/SmartService.thy ===== *)
theory SmartService imports TimedTaskFiles TaskProgress begin

text \<open>
  The service (\<open>smart_service.cpp\<close>): its topics, the construction of the robot, the handler of task
  requests, the routing of messages and the callback of the tasks.  A handler returns its outcome, what it
  does in order, and the timed tasks and files it leaves; what it does to the current task are calls of
  the operations of theory \<open>TaskRun\<close>.  The atomics it loads are arguments, as the run thread may change
  them between two loads.
\<close>

section \<open>Topics\<close>

definition robot_battery_recv_topic :: "config_item \<Rightarrow> string" where
  "robot_battery_recv_topic cfg = ''/Robot/Battery/'' @ conf_robot_id cfg"

definition service_task_topic :: "config_item \<Rightarrow> string" where
  "service_task_topic cfg = ''/SmartSer/Robot/Task/'' @ conf_robot_id cfg"

definition task_feedback_topic :: "config_item \<Rightarrow> string" where
  "task_feedback_topic cfg = ''/SmartSer/Robot/TaskStatus/'' @ conf_robot_id cfg"

definition task_debug_topic :: string where
  "task_debug_topic = ''/SmartSer/Debug''"

definition heart_forward_topic :: "config_item \<Rightarrow> string" where
  "heart_forward_topic cfg = ''/SmartSer/Robot/Heart/'' @ conf_robot_id cfg"

definition direct_forward_topic :: "config_item \<Rightarrow> string" where
  "direct_forward_topic cfg = ''/SmartSer/Robot/CtrlOther/'' @ conf_robot_id cfg"

text \<open>The constructor's list: the motion topic, the pad's, and one for every pan-tilt module.\<close>

definition real_ctrl_forward_topics :: "config_item \<Rightarrow> string list" where
  "real_ctrl_forward_topics cfg =
     [''/SmartSer/Robot/CtrlMove/'' @ conf_robot_id cfg] @
     (if robot_type cfg = ''Pad'' then [''/SmartSer/Pad/Ctrl/'' @ conf_robot_id cfg] else []) @
     map (\<lambda>m. ''/SmartSer/PanTilt/Ctrl/'' @ mod_id m)
       (filter (\<lambda>m. mod_type m = ''PanTilt'') (modules cfg))"

text \<open>What the connect callback subscribes to, in order, with the quality of service.\<close>

definition subscriptions :: "config_item \<Rightarrow> (string \<times> nat) list" where
  "subscriptions cfg = map (\<lambda>t. (c_str t, 2)) (real_ctrl_forward_topics cfg @
       [heart_forward_topic cfg, direct_forward_topic cfg, service_task_topic cfg, task_debug_topic]) @
     [(c_str (robot_battery_recv_topic cfg), 0)]"

text \<open>
  The connect callback: \<open>rcs\<close> are the results of the calls of \<open>mosquitto_subscribe\<close>; it throws on a refused
  connection and on the first failed subscription.
\<close>

fun subscribe_all :: "(string \<times> nat) list \<Rightarrow> int list \<Rightarrow> unit res \<times> (string \<times> nat) list" where
  "subscribe_all (t # ts) (rc # rcs) =
     (if rc \<noteq> 0 then (Inl (Std_runtime_error ''Subscription failure''), [t])
      else (case subscribe_all ts rcs of (r, done) \<Rightarrow> (r, t # done)))"
| "subscribe_all _ _ = (Inr (), [])"

definition connect_callback :: "config_item \<Rightarrow> int \<Rightarrow> int list \<Rightarrow> unit res \<times> (string \<times> nat) list" where
  "connect_callback cfg reason rcs =
     (if reason \<noteq> 0 then (Inl (Std_runtime_error ''Failed to connect mosquitto because the reason code is not 0.''), [])
      else subscribe_all (subscriptions cfg) rcs)"

text \<open>The subscribe callback throws unless every quality of service granted is 0, 1 or 2.\<close>

fun subscribe_callback :: "int list \<Rightarrow> unit res" where
  "subscribe_callback [] = Inr ()"
| "subscribe_callback (q # qs) =
     (if 0 \<le> q \<and> q \<le> 2 then subscribe_callback qs
      else if q = 128 then Inl (Std_runtime_error ''Subscribe failed.'')
      else Inl (Std_runtime_error ''Error: Subscription return code exception''))"

text \<open>The connection loop: a reconnection after five seconds until a call succeeds; None while none has.\<close>

fun connect_loop :: "int list \<Rightarrow> effect list option" where
  "connect_loop [] = None"
| "connect_loop (rc # rcs) = (if rc = 0 then Some [] else map_option ((#) (Sleep 5000)) (connect_loop rcs))"

section \<open>The robot\<close>

text \<open>\<open>main\<close>: None is the exit for an unknown robot type.\<close>

definition add_modules :: "conf_module list \<Rightarrow> robot \<Rightarrow> robot" where
  "add_modules ms rb = fold (\<lambda>m rb. if mod_type m = ''PanTilt''
      then add_device (mod_name m) (Dev_ptz (new_ptz (mod_id m))) rb else rb) ms rb"

definition build_robot :: "config_item \<Rightarrow> robot option" where
  "build_robot cfg =
     (if robot_type cfg = ''TrackRobot''
      then Some (add_modules (modules cfg)
             (add_device (conf_robot_id cfg) (Dev_body (new_action_body (conf_robot_id cfg))) new_robot))
      else if robot_type cfg = ''Pad''
      then Some (add_modules (modules cfg)
             (add_device (conf_robot_id cfg) (Dev_pad (new_pad (conf_robot_id cfg))) new_robot))
      else None)"

section \<open>The current task\<close>

datatype service_action =
    Pub effect
  | Control control_call
  | Assign_task task
  | Install_callbacks
  | Spawn_run
  | Charge
  | Clear_queue

text \<open>
  \<open>set_current_task\<close>: \<open>st1\<close>, \<open>st2\<close> and \<open>st3\<close> are the statuses its calls of \<open>is_over\<close>, \<open>is_empty\<close> and
  \<open>is_over\<close> load.
\<close>

definition set_current_task :: "int \<Rightarrow> int \<Rightarrow> int \<Rightarrow> task \<Rightarrow> task \<Rightarrow> bool \<times> service_action list" where
  "set_current_task st1 st2 st3 current new =
     (if st1 \<noteq> END \<and> priority new < priority current then (False, [])
      else (True, (if st2 \<noteq> INIT then (if st3 \<noteq> END then [Control Call_cancel] else []) else []) @
              [Assign_task new, Install_callbacks]))"

text \<open>
  The lambda that \<open>set_current_task\<close> installs: publish the feedback; after the end of a task that came
  from the timed tasks, delete the timed task or store its new count.  \<open>over\<close> is what \<open>is_over\<close> loads.
\<close>

fun find_timed :: "json list \<Rightarrow> string \<Rightarrow> json option res" where
  "find_timed [] ident = Inr None"
| "find_timed (t # ts) ident = rbind (json_at t ''id'') (\<lambda>i.
     if json_eq i (J_string ident) then Inr (Some t) else find_timed ts ident)"

definition count_timed ::
  "environment \<Rightarrow> config_item \<Rightarrow> task \<Rightarrow> timed_set \<Rightarrow> file_system \<Rightarrow> unit res \<times> timed_set \<times> file_system" where
  "count_timed env cfg cur s fs = (case find_timed (get_timed_task_list s) (task_id cur) of
      Inl e \<Rightarrow> (Inl e, s, fs)
    | Inr None \<Rightarrow> (Inr (), s, fs)
    | Inr (Some t) \<Rightarrow>
        if executed_count cur \<ge> max_count cur then del_timed_task env cfg (task_id cur) s fs
        else (case json_at_set t ''executed_count'' (J_integer (executed_count cur)) of
            Inl e \<Rightarrow> (Inl e, s, fs)
          | Inr t' \<Rightarrow> add_timed_task env cfg t' s fs))"

definition service_callback ::
  "environment \<Rightarrow> config_item \<Rightarrow> bool \<Rightarrow> task \<Rightarrow> json \<Rightarrow> timed_set \<Rightarrow> file_system \<Rightarrow>
   unit res \<times> effect list \<times> timed_set \<times> file_system" where
  "service_callback env cfg over cur fb s fs =
     (case rbind (json_set fb ''type'' (J_integer 8)) (json_dump 4) of
        Inl e \<Rightarrow> (Inl e, [], s, fs)
      | Inr txt \<Rightarrow> (let eff = [mqtt_pub (task_feedback_topic cfg) txt] in
          if over then (case count_timed env cfg cur s fs of (r, s', fs') \<Rightarrow> (r, eff, s', fs'))
          else (Inr (), eff, s, fs)))"

section \<open>Task requests\<close>

text \<open>The replies of the handler.\<close>

definition task_reply :: "config_item \<Rightarrow> json \<Rightarrow> int \<Rightarrow> string \<Rightarrow> json \<Rightarrow> service_action list res" where
  "task_reply cfg ident st rem tg =
     rbind (json_set J_null ''task_id'' ident) (\<lambda>r.
     rbind (json_set r ''type'' (J_integer 9)) (\<lambda>r.
     rbind (json_set r ''status'' (J_integer st)) (\<lambda>r.
     rbind (json_set r ''remark'' (J_string rem)) (\<lambda>r.
     rbind (json_set r ''tag'' tg) (\<lambda>r.
     rbind (json_dump 4 r) (\<lambda>txt. Inr [Pub (mqtt_pub (task_feedback_topic cfg) txt)]))))))"

definition reply_for :: "config_item \<Rightarrow> json \<Rightarrow> string \<Rightarrow> int \<Rightarrow> string \<Rightarrow> service_action list res" where
  "reply_for cfg j key st rem =
     rbind (json_at j key) (\<lambda>ident. rbind (json_at j ''tag'') (\<lambda>tg. task_reply cfg ident st rem tg))"

type_synonym handled = "unit res \<times> service_action list \<times> timed_set \<times> file_system"

definition done_with :: "service_action list res \<Rightarrow> timed_set \<Rightarrow> file_system \<Rightarrow> handled" where
  "done_with r s fs = (case r of Inl e \<Rightarrow> (Inl e, [], s, fs) | Inr acts \<Rightarrow> (Inr (), acts, s, fs))"

text \<open>Case 3: \<open>sts\<close> are the loaded statuses, \<open>cur\<close> the current task.\<close>

definition start_task ::
  "(task_action list \<Rightarrow> task_action list) \<Rightarrow> config_item \<Rightarrow> int \<times> int \<times> int \<Rightarrow> task \<Rightarrow> json \<Rightarrow> service_action list res" where
  "start_task srt cfg sts cur j =
     (let attempt = rbind (new_task srt j) (\<lambda>t.
            case set_current_task (fst sts) (fst (snd sts)) (snd (snd sts)) cur t of
              (ok, acts) \<Rightarrow>
                if ok then Inr acts
                else Inl (Std_runtime_error ''fail of set current task, because the priority of new task is lower than current task''))
      in rbind (case attempt of
             Inr acts \<Rightarrow> Inr acts
           | Inl (Std_runtime_error what) \<Rightarrow> reply_for cfg j ''id'' 2 what
           | Inl e \<Rightarrow> Inl e)
         (\<lambda>acts. Inr (acts @ [Spawn_run])))"

definition task_handler ::
  "(task_action list \<Rightarrow> task_action list) \<Rightarrow> environment \<Rightarrow> config_item \<Rightarrow> int \<times> int \<times> int \<Rightarrow> task \<Rightarrow> json \<Rightarrow>
   timed_set \<Rightarrow> file_system \<Rightarrow> handled" where
  "task_handler srt env cfg sts cur j s fs =
     (case rbind (json_dump 4 j) (\<lambda>_. rbind (json_at j ''type'') get_int) of
        Inl e \<Rightarrow> (Inl e, [], s, fs)
      | Inr ty \<Rightarrow>
          if ty = 1 then
            (case add_timed_task env cfg j s fs of
               (Inl e, s', fs') \<Rightarrow> (Inl e, [], s', fs')
             | (Inr _, s', fs') \<Rightarrow> done_with (reply_for cfg j ''id'' 1 ''success of add timed_task'') s' fs')
          else if ty = 2 then
            (case rbind (json_at j ''dest_task_id'') get_string of
               Inl e \<Rightarrow> (Inl e, [], s, fs)
             | Inr ident \<Rightarrow> (case del_timed_task env cfg ident s fs of
                 (Inl e, s', fs') \<Rightarrow> (Inl e, [], s', fs')
               | (Inr _, s', fs') \<Rightarrow> done_with (reply_for cfg j ''dest_task_id'' 1 ''success of delete timed_task'') s' fs'))
          else if ty = 3 then done_with (start_task srt cfg sts cur j) s fs
          else if ty = 4 then (Inr (), [Control Call_pause], s, fs)
          else if ty = 5 then (Inr (), [Control Call_resume], s, fs)
          else if ty = 6 then (Inr (), [Control Call_cancel], s, fs)
          else done_with
            (rbind (json_set J_null ''type'' (J_integer 10)) (\<lambda>r.
             rbind (json_set r ''remark'' (J_string ''error message type'')) (\<lambda>r.
             rbind (json_dump 4 r) (\<lambda>txt. Inr [Pub (mqtt_pub (task_feedback_topic cfg) txt)])))) s fs)"

section \<open>Messages\<close>

record mqtt_message =
  msg_topic :: string
  msg_payload :: string

text \<open>The message callback: None is a payload of length zero, which the library gives as a null pointer.\<close>

definition message_callback :: "string \<Rightarrow> string option \<Rightarrow> mqtt_message list \<Rightarrow> mqtt_message list res" where
  "message_callback topic payload q = (case payload of
      None \<Rightarrow> Inl (Std_runtime_error ''There is a problem with the mosquitto message.'')
    | Some p \<Rightarrow> Inr (queue_push \<lparr> msg_topic = topic, msg_payload = p \<rparr> q))"

text \<open>\<open>strchr(topic + 1, '/')\<close>: None is the null pointer.\<close>

definition forward_topic :: "string \<Rightarrow> string option" where
  "forward_topic t = (case dropWhile (\<lambda>c. c \<noteq> CHR ''/'') (drop 1 t) of [] \<Rightarrow> None | s \<Rightarrow> Some s)"

text \<open>A forwarded message; the library refuses a null topic and nothing is sent.\<close>

definition forward :: "string \<Rightarrow> string \<Rightarrow> nat \<Rightarrow> service_action list" where
  "forward t payload qos = (case forward_topic t of None \<Rightarrow> [] | Some t' \<Rightarrow> [Pub (Publish t' payload qos False)])"

definition real_time_ctrl_handler :: "int \<Rightarrow> mqtt_message \<Rightarrow> service_action list" where
  "real_time_ctrl_handler st msg =
     (if st \<noteq> END then [Control Call_cancel] else []) @ forward (msg_topic msg) (msg_payload msg) 2"

definition heart_handler :: "int \<Rightarrow> mqtt_message \<Rightarrow> service_action list res" where
  "heart_handler now_ms msg =
     rbind (json_parse_cstr (msg_payload msg)) (\<lambda>j.
     rbind (json_set j ''ts'' (J_integer now_ms)) (\<lambda>j'.
     rbind (json_dump 4 j') (\<lambda>txt. Inr (forward (msg_topic msg) txt 0))))"

text \<open>The sums of the capacities over the battery list.\<close>

fun sum_capacities :: "json list \<Rightarrow> double \<Rightarrow> double \<Rightarrow> (double \<times> double) res" where
  "sum_capacities [] nom rem = Inr (nom, rem)"
| "sum_capacities (x # xs) nom rem =
     rbind (rbind (json_at x ''Amp'') get_double) (\<lambda>_.
     rbind (rbind (json_at x ''NomCap'') get_double) (\<lambda>n.
     rbind (rbind (json_at x ''RemCap'') get_double) (\<lambda>c.
       sum_capacities xs (d_add nom n) (d_add rem c))))"

definition battery_percentage :: "json \<Rightarrow> int res" where
  "battery_percentage j =
     rbind (json_at j ''BatteryPack'') (\<lambda>a.
     rbind (sum_capacities (json_items a) (D_zero False) (D_zero False)) (\<lambda>(nom, rem).
       Inr (d_cast_int32 (d_mul (d_div rem nom) (d_of_int 100)))))"

text \<open>The charge in the middle is \<open>get_device(robot_id)->get_action("TrackRobotCharge")({"arg": null})\<close>.\<close>

definition battery_handler :: "config_item \<Rightarrow> mqtt_message \<Rightarrow> service_action list res" where
  "battery_handler cfg msg =
     rbind (json_parse_cstr (msg_payload msg)) (\<lambda>j.
     rbind (battery_percentage j) (\<lambda>p.
       Inr (if p < battery_threshold cfg
            then [Control Call_pause, Charge, Control Call_resume, Clear_queue] else [])))"

definition charge_action ::
  "(camera_action \<Rightarrow> string) \<Rightarrow> turn list \<Rightarrow> config_item \<Rightarrow> robot \<Rightarrow> robot action_result option" where
  "charge_action pretty turns cfg rb =
     dispatch pretty turns rb (conf_robot_id cfg) ''TrackRobotCharge'' (J_object [(''arg'', J_null)])"

text \<open>
  One turn of \<open>mqtt_msg_handler\<close>: \<open>Stop_serving\<close> is the debug exit.  An exception that is not caught leaves
  the handler and ends the program.
\<close>

datatype serve_outcome = Next_message | Stop_serving | Escaped cxx_exn

definition caught_json :: "cxx_exn \<Rightarrow> bool" where
  "caught_json e = (case e of
      Json_parse_error _ \<Rightarrow> True | Json_out_of_range _ \<Rightarrow> True | Json_type_error _ \<Rightarrow> True | _ \<Rightarrow> False)"

definition ending :: "service_action list res \<Rightarrow> timed_set \<Rightarrow> file_system \<Rightarrow>
   serve_outcome \<times> service_action list \<times> timed_set \<times> file_system" where
  "ending r s fs = (case r of Inl e \<Rightarrow> (Escaped e, [], s, fs) | Inr acts \<Rightarrow> (Next_message, acts, s, fs))"

definition mqtt_msg_handler ::
  "(task_action list \<Rightarrow> task_action list) \<Rightarrow> environment \<Rightarrow> config_item \<Rightarrow> int \<Rightarrow> int \<times> int \<times> int \<Rightarrow> task \<Rightarrow>
   mqtt_message \<Rightarrow> timed_set \<Rightarrow> file_system \<Rightarrow> serve_outcome \<times> service_action list \<times> timed_set \<times> file_system" where
  "mqtt_msg_handler srt env cfg now_ms sts cur msg s fs =
     (if msg_topic msg = c_str (heart_forward_topic cfg) then ending (heart_handler now_ms msg) s fs
      else if msg_topic msg = c_str (direct_forward_topic cfg)
      then (Next_message, forward (msg_topic msg) (msg_payload msg) 2, s, fs)
      else if msg_topic msg \<in> set (map c_str (real_ctrl_forward_topics cfg))
      then (Next_message, real_time_ctrl_handler (fst sts) msg, s, fs)
      else if msg_topic msg = c_str (service_task_topic cfg)
      then (case json_parse_cstr (msg_payload msg) of
          Inl e \<Rightarrow> (if caught_json e then Next_message else Escaped e, [], s, fs)
        | Inr j \<Rightarrow> (case task_handler srt env cfg sts cur j s fs of
            (Inr _, acts, s', fs') \<Rightarrow> (Next_message, acts, s', fs')
          | (Inl e, acts, s', fs') \<Rightarrow> (if caught_json e then Next_message else Escaped e, acts, s', fs')))
      else if msg_topic msg = task_debug_topic
      then (if c_str (msg_payload msg) = ''debug_exit'' then Stop_serving else Next_message, [], s, fs)
      else if msg_topic msg = c_str (robot_battery_recv_topic cfg) then ending (battery_handler cfg msg) s fs
      else (Next_message, [], s, fs))"

end
