(* ===== verification/ServiceBehaviour.thy ===== *)
theory ServiceBehaviour imports SmartService begin

text \<open>
  What the service does with requests and messages: starts of tasks, routing, counting the executions of
  timed tasks, battery protection, and the exceptions that end it.
\<close>

section \<open>Task requests\<close>

lemma json_set_new:
  "json_set J_null k v = Inr (J_object [(k, v)])"
  by (simp add: json_set_def json_ref_def sm_emplace_def)

lemma task_reply_Inr:
  "task_reply cfg ident st rem tg = Inr acts \<Longrightarrow> \<exists>e. acts = [Pub e]"
  by (auto simp: task_reply_def)

lemma reply_for_Inr: "reply_for cfg j key st rem = Inr acts \<Longrightarrow> \<exists>e. acts = [Pub e]"
  by (auto simp: reply_for_def dest: task_reply_Inr)

lemma json_dump_exn: "json_dump n j = Inl e \<Longrightarrow> action_exn e"
  using json_dump_error by force

lemma reply_for_exn: "reply_for cfg j key st rem = Inl e \<Longrightarrow> action_exn e"
  by (auto simp: reply_for_def task_reply_def rbind_eq_Inl dest: json_at_exn json_set_exn json_dump_exn)

text \<open>
  The requests for a start that are refused: the task cannot be read, for a reason the handler reports, or
  its priority is below that of a task that is not over.
\<close>

definition start_refused ::
  "(task_action list \<Rightarrow> task_action list) \<Rightarrow> int \<Rightarrow> task \<Rightarrow> json \<Rightarrow> bool" where
  "start_refused srt st cur j \<longleftrightarrow> (case new_task srt j of
      Inl e \<Rightarrow> (\<exists>w. e = Std_runtime_error w)
    | Inr t \<Rightarrow> st \<noteq> END \<and> priority t < priority cur)"

lemma start_task_cases:
  assumes "start_task srt cfg (st1, st2, st3) cur j = Inr acts"
  shows "(start_refused srt st1 cur j \<and> (\<exists>e. acts = [Pub e, Spawn_run])) \<or>
    (\<not> start_refused srt st1 cur j \<and> (\<exists>t. new_task srt j = Inr t \<and>
       acts = (if st2 \<noteq> INIT \<and> st3 \<noteq> END then [Control Call_cancel] else []) @
         [Assign_task t, Install_callbacks, Spawn_run]))"
proof (cases "new_task srt j")
  case (Inl e)
  with assms obtain w a where "e = Std_runtime_error w" "reply_for cfg j ''id'' 2 w = Inr a" "acts = a @ [Spawn_run]"
    by (auto simp: start_task_def Let_def split: cxx_exn.splits)
  with Inl show ?thesis using reply_for_Inr by (fastforce simp: start_refused_def)
next
  case (Inr t)
  show ?thesis
  proof (cases "st1 \<noteq> END \<and> priority t < priority cur")
    case True
    with assms Inr obtain w a where "reply_for cfg j ''id'' 2 w = Inr a" "acts = a @ [Spawn_run]"
      by (auto simp: start_task_def set_current_task_def Let_def)
    with Inr True show ?thesis using reply_for_Inr by (fastforce simp: start_refused_def)
  next
    case False
    with assms Inr show ?thesis
      by (auto simp: start_task_def set_current_task_def Let_def start_refused_def split: if_splits)
  qed
qed

lemma start_task_exn: "start_task srt cfg sts cur j = Inl e \<Longrightarrow> action_exn e"
  using new_task_exn reply_for_exn
  by (fastforce simp: start_task_def set_current_task_def Let_def rbind_eq_Inl split: cxx_exn.splits sum.splits if_splits)

section \<open>Errors of the timed tasks when all files can be written\<close>

lemma write_tasks_exn:
  assumes "\<forall>p. can_write env p"
  shows "write_tasks env cfg topic ts acc fs = (Inl e, acc', fs') \<Longrightarrow> action_exn e"
proof (induction ts arbitrary: acc fs)
  case (Cons t ts)
  show ?case
  proof (cases "rbind (rbind (json_at t ''id'') get_string) (\<lambda>ident.
            rbind (rbind (json_at t ''cron'') get_string) (\<lambda>expr. Inr (ident, expr)))")
    case (Inl e')
    with Cons.prems have "e' = e" by simp
    with Inl show ?thesis by (auto simp: rbind_eq_Inl dest: json_exns)
  next
    case (Inr p)
    then show ?thesis
      using Cons assms by (cases p) (auto simp: Let_def split: sum.splits dest: json_dump_exn)
  qed
qed simp

lemma update_file_exn:
  assumes "env_ok env" "update_file env cfg s fs = (Inl e, fs')"
  shows "action_exn e"
  using assms write_tasks_exn [of env]
  by (auto simp: update_file_def make_task_dir_def env_ok_def split: prod.splits if_splits)

lemma erase_same_id_exn: "erase_same_id t ts = Inl e \<Longrightarrow> action_exn e"
  by (induction ts) (auto simp: rbind_eq_Inl dest: json_at_exn split: if_splits)

lemma find_task_id_exn: "find_task_id i ts = Inl e \<Longrightarrow> action_exn e"
  by (induction ts) (auto simp: rbind_eq_Inl dest: json_exns split: if_splits)

lemma add_timed_task_exn:
  "env_ok env \<Longrightarrow> add_timed_task env cfg t s fs = (Inl e, s', fs') \<Longrightarrow> action_exn e"
  by (auto simp: add_timed_task_def rbind_eq_Inl Let_def split: sum.splits prod.splits
      dest: json_set_exn erase_same_id_exn update_file_exn)

lemma del_timed_task_exn:
  "env_ok env \<Longrightarrow> del_timed_task env cfg i s fs = (Inl e, s', fs') \<Longrightarrow> action_exn e"
  by (auto simp: del_timed_task_def Let_def split: sum.splits option.splits prod.splits
      dest: find_task_id_exn update_file_exn)

lemma action_exn_caught: "action_exn e \<Longrightarrow> caught_json e"
  by (auto simp: action_exn_def caught_json_def)

lemma task_handler_exn:
  assumes "env_ok env" "task_handler srt env cfg sts cur j s fs = (Inl e, acts, s', fs')"
  shows "action_exn e"
proof (cases "rbind (json_dump 4 j) (\<lambda>_. rbind (json_at j ''type'') get_int)")
  case (Inl e')
  with assms(2) have "e' = e" by (simp add: task_handler_def)
  with Inl show ?thesis by (auto simp: rbind_eq_Inl dest: json_dump_exn json_exns)
next
  case (Inr ty)
  have d: "action_exn e" if "done_with r s1 fs1 = (Inl e, acts, s', fs')" "\<And>e. r = Inl e \<Longrightarrow> action_exn e" for r s1 fs1
    using that by (auto simp: done_with_def split: sum.splits)
  have def: "action_exn e" if "rbind (json_set J_null ''type'' (J_integer 10)) (\<lambda>r.
             rbind (json_set r ''remark'' (J_string ''error message type'')) (\<lambda>r.
             rbind (json_dump 4 r) (\<lambda>txt. Inr [Pub (mqtt_pub (task_feedback_topic cfg) txt)]))) = Inl e" for e
    using that by (auto simp: rbind_eq_Inl dest: json_set_exn json_dump_exn)
  consider "ty = 1" | "ty = 2" | "ty = 3" | "ty = 4 \<or> ty = 5 \<or> ty = 6" | "ty \<notin> {1,2,3,4,5,6}" by auto
  then show ?thesis
  proof cases
    case 1
    with assms Inr show ?thesis
      by (auto simp: task_handler_def split: sum.splits prod.splits dest: add_timed_task_exn
          elim!: d intro: reply_for_exn)
  next
    case 2
    with assms Inr show ?thesis
      by (auto simp: task_handler_def rbind_eq_Inl split: sum.splits prod.splits dest: del_timed_task_exn json_exns
          elim!: d intro: reply_for_exn)
  next
    case 3
    with assms Inr show ?thesis
      by (auto simp: task_handler_def elim!: d intro: start_task_exn)
  next
    case 4
    with assms Inr show ?thesis by (auto simp: task_handler_def)
  next
    case 5
    with assms Inr show ?thesis by (auto simp: task_handler_def elim!: d intro: def)
  qed
qed


section \<open>Topics\<close>

lemma c_str_append: "CHR 0x00 \<notin> set a \<Longrightarrow> c_str (a @ x) = a @ c_str x"
  unfolding c_str_def by (induction a) auto

lemma topics_c_str:
  "c_str (heart_forward_topic cfg) = ''/SmartSer/Robot/Heart/'' @ c_str (conf_robot_id cfg)"
  "c_str (direct_forward_topic cfg) = ''/SmartSer/Robot/CtrlOther/'' @ c_str (conf_robot_id cfg)"
  "c_str (service_task_topic cfg) = ''/SmartSer/Robot/Task/'' @ c_str (conf_robot_id cfg)"
  "c_str (robot_battery_recv_topic cfg) = ''/Robot/Battery/'' @ c_str (conf_robot_id cfg)"
  unfolding heart_forward_topic_def direct_forward_topic_def service_task_topic_def robot_battery_recv_topic_def
  by (rule c_str_append; simp)+

lemma real_topics_c_str:
  assumes "t \<in> set (real_ctrl_forward_topics cfg)"
  shows "(\<exists>x. c_str t = ''/SmartSer/Robot/CtrlMove/'' @ x) \<or> (\<exists>x. c_str t = ''/SmartSer/Pad/Ctrl/'' @ x) \<or>
    (\<exists>x. c_str t = ''/SmartSer/PanTilt/Ctrl/'' @ x)"
proof -
  have c: "\<exists>y. c_str t = p @ y" if "t = p @ x" "CHR 0x00 \<notin> set p" for p x
    using that c_str_append by blast
  from assms have "t = ''/SmartSer/Robot/CtrlMove/'' @ conf_robot_id cfg \<or> t = ''/SmartSer/Pad/Ctrl/'' @ conf_robot_id cfg \<or>
      (\<exists>x. t = ''/SmartSer/PanTilt/Ctrl/'' @ x)"
  proof -
    let ?A = "[''/SmartSer/Robot/CtrlMove/'' @ conf_robot_id cfg]"
    let ?B = "if robot_type cfg = ''Pad'' then [''/SmartSer/Pad/Ctrl/'' @ conf_robot_id cfg] else []"
    let ?C = "map (\<lambda>m. ''/SmartSer/PanTilt/Ctrl/'' @ mod_id m) (filter (\<lambda>m. mod_type m = ''PanTilt'') (modules cfg))"
    from assms consider "t \<in> set ?A" | "t \<in> set ?B" | "t \<in> set ?C"
      unfolding real_ctrl_forward_topics_def set_append by blast
    then show ?thesis
    proof cases
      case 1
      then show ?thesis by simp
    next
      case 2
      then show ?thesis by (simp split: if_splits)
    next
      case 3
      then show ?thesis unfolding set_map by (elim imageE) (intro disjI2 exI, assumption)
    qed
  qed
  then show ?thesis
  proof (elim disjE exE)
    assume "t = ''/SmartSer/Robot/CtrlMove/'' @ conf_robot_id cfg"
    then show ?thesis by (intro disjI1 c) simp_all
  next
    assume "t = ''/SmartSer/Pad/Ctrl/'' @ conf_robot_id cfg"
    then show ?thesis by (intro disjI2 [OF disjI1] c) simp_all
  next
    fix x assume "t = ''/SmartSer/PanTilt/Ctrl/'' @ x"
    then show ?thesis by (intro disjI2 [OF disjI2] c) simp_all
  qed
qed

definition class_topics :: "config_item \<Rightarrow> string list" where
  "class_topics cfg = map c_str [heart_forward_topic cfg, direct_forward_topic cfg, service_task_topic cfg,
     task_debug_topic, robot_battery_recv_topic cfg]"

lemma debug_c_str: "c_str task_debug_topic = ''/SmartSer/Debug''"
  by (simp add: task_debug_topic_def c_str_def)

lemma class_topics_distinct: "distinct (class_topics cfg)"
  by (simp add: class_topics_def topics_c_str debug_c_str)

lemma class_topics_real: "x \<in> set (class_topics cfg) \<Longrightarrow> x \<notin> set (map c_str (real_ctrl_forward_topics cfg))"
proof
  assume x: "x \<in> set (class_topics cfg)" and "x \<in> set (map c_str (real_ctrl_forward_topics cfg))"
  then obtain t where "t \<in> set (real_ctrl_forward_topics cfg)" "x = c_str t" by auto
  with real_topics_c_str [of t cfg] x show False
    by (auto simp: class_topics_def topics_c_str debug_c_str)
qed

lemma forward_topic_strips: "forward_topic (''/SmartSer'' @ CHR ''/'' # r) = Some (CHR ''/'' # r)"
  by (simp add: forward_topic_def)


section \<open>Counting executions\<close>

lemma find_timed_ok:
  "\<forall>t\<in>set ts. has_id t \<Longrightarrow> find_timed ts i = Inr (find (\<lambda>t. id_of t = i) ts)"
  by (induction ts) (auto simp: has_idD)

lemma json_at_set_ok:
  assumes "is_object t" "json_ok t" "json_at t k = Inr v" "json_ok w"
  obtains t' where "json_at_set t k w = Inr t'" "is_object t'" "json_ok t'" "json_at t' k = Inr w"
    "\<And>l. l \<noteq> k \<Longrightarrow> json_at t' l = json_at t l"
proof -
  from assms(1) obtain m where m: "t = J_object m" by (auto simp: is_object_def split: json.splits)
  with assms(2) have inv: "sm_inv m" by simp
  have "json_ok (J_object (sm_assign k w m))"
    using assms(2,4) m set_sm_assign [of k w m] by fastforce
  with that [of "J_object (sm_assign k w m)"] assms(3) m inv show ?thesis
    by (auto simp: json_at_set_def is_object_def sm.lookup_assign)
qed

definition all_valid :: "timed_set \<Rightarrow> bool" where
  "all_valid s \<longleftrightarrow> timed_inv s \<and> (\<forall>t\<in>set (timed_task_list s). is_object t \<and> json_ok t)"

lemma is_int32_json_ok: "is_int32 i \<Longrightarrow> json_ok (J_integer i)"
  by (simp add: is_int32_def)

section \<open>Small requests\<close>

definition demo_start_json :: "json \<Rightarrow> json" where
  "demo_start_json prio = J_object
     [(''action_list'', J_array []), (''id'', J_string ''a''), (''priority'', prio), (''remark'', J_null),
      (''tag'', J_null), (''type'', J_unsigned 3)]"

lemma demo_start_json_facts:
  "json_good (demo_start_json (J_unsigned 7))" "json_good (demo_start_json (J_integer (-1)))"
  "rbind (json_at (demo_start_json x) ''type'') get_int = Inr 3"
  by (simp_all add: demo_start_json_def json_good_def get_int_def is_int32_def utf8_valid_ascii_string
      del: utf8_valid.simps rbind_eq_Inr)

lemma demo_start_json_task:
  "\<exists>t. new_task (sort_key act_no) (demo_start_json (J_unsigned 7)) = Inr t"
  "new_task (sort_key act_no) (demo_start_json (J_integer (-1))) = Inl (Std_runtime_error ''priority must be in [0,999]'')"
  by (simp_all add: new_task_def task_from_json_def demo_start_json_def get_string_def json_value_int_def
      get_optional_string_def is_null_def is_array_def json_items_def empty_task_def get_int_def is_int32_def)

lemma reply_for_ok:
  assumes "json_good j" "json_at j key = Inr ident" "json_at j ''tag'' = Inr tg" "utf8_valid rem"
  shows "\<exists>e. reply_for cfg j key st rem = Inr [Pub e]"
proof -
  have g: "json_good ident" "json_good tg" using assms(1-3) json_good_at by blast+
  have u: "utf8_valid ''task_id''" "utf8_valid ''type''" "utf8_valid ''status''" "utf8_valid ''remark''" "utf8_valid ''tag''"
    by (simp_all add: utf8_valid_ascii_string del: utf8_valid.simps)
  let ?r = "J_object [(''remark'', J_string rem), (''status'', J_integer st), (''tag'', tg), (''task_id'', ident),
      (''type'', J_integer 9)]"
  have "json_utf8 ?r" using g assms(4) u by (simp add: json_good_def del: utf8_valid.simps)
  then obtain t where "json_dump 4 ?r = Inr t" using json_dump_total by blast
  then show ?thesis
    using assms(2,3) by (simp add: reply_for_def task_reply_def json_set_new)
qed

lemma demo_accepted:
  "\<exists>t. task_handler (sort_key act_no) demo_env demo_config (INIT, INIT, INIT) empty_task
      (demo_start_json (J_unsigned 7)) demo_set demo_files =
      (Inr (), [Assign_task t, Install_callbacks, Spawn_run], demo_set, demo_files) \<and>
     \<not> start_refused (sort_key act_no) INIT empty_task (demo_start_json (J_unsigned 7))"
proof -
  obtain t where t: "new_task (sort_key act_no) (demo_start_json (J_unsigned 7)) = Inr t" "0 \<le> priority t"
    using demo_start_json_task(1) new_task_ok [OF sorts_sort_key demo_start_json_facts(1)] by (auto simp: task_good_def)
  obtain d where d: "json_dump 4 (demo_start_json (J_unsigned 7)) = Inr d"
    using json_good_dump demo_start_json_facts(1) by blast
  have "start_task (sort_key act_no) demo_config (INIT, INIT, INIT) empty_task (demo_start_json (J_unsigned 7)) =
      Inr [Assign_task t, Install_callbacks, Spawn_run]"
    using t by (simp add: start_task_def set_current_task_def empty_task_def)
  then show ?thesis
    using d t demo_start_json_facts(3) [of "J_unsigned 7"]
    by (simp add: task_handler_def done_with_def start_refused_def empty_task_def del: rbind_eq_Inr)
qed

lemma demo_refused:
  "start_refused (sort_key act_no) st cur (demo_start_json (J_integer (-1)))"
  "\<exists>acts. task_handler (sort_key act_no) demo_env demo_config sts cur (demo_start_json (J_integer (-1)))
      demo_set demo_files = (Inr (), acts, demo_set, demo_files)"
proof -
  let ?j = "demo_start_json (J_integer (-1))"
  show "start_refused (sort_key act_no) st cur ?j" by (simp add: start_refused_def demo_start_json_task(2))
  obtain d where d: "json_dump 4 ?j = Inr d" using json_good_dump demo_start_json_facts(2) by blast
  have "\<exists>e. reply_for demo_config ?j ''id'' 2 ''priority must be in [0,999]'' = Inr [Pub e]"
    by (rule reply_for_ok [OF demo_start_json_facts(2)])
      (simp_all add: demo_start_json_def utf8_valid_ascii_string del: utf8_valid.simps)
  then obtain e where "reply_for demo_config ?j ''id'' 2 ''priority must be in [0,999]'' = Inr [Pub e]" ..
  then have "start_task (sort_key act_no) demo_config sts cur ?j = Inr [Pub e, Spawn_run]"
    by (simp add: start_task_def demo_start_json_task(2))
  then show "\<exists>acts. task_handler (sort_key act_no) demo_env demo_config sts cur ?j demo_set demo_files =
      (Inr (), acts, demo_set, demo_files)"
    using d demo_start_json_facts(3) [of "J_integer (-1)"]
    by (simp add: task_handler_def done_with_def del: rbind_eq_Inr)
qed

text \<open>A run of an empty task that may be executed twice, to its end.\<close>

lemma demo_over:
  "\<exists>s. run_reach pretty s \<and> rpc s = R_idle \<and> cpc s = C_idle \<and> executed_count (the_task s) = 1 \<and> max_count (the_task s) = 2"
proof -
  let ?t = "empty_task\<lparr> max_count := 2 \<rparr>"
  let ?s0 = "(run_init [])\<lparr> the_task := ?t \<rparr>"
  note defs = run_turn_def run_init_def Let_def empty_task_def set_status_def call_back_ok go_or_die_def go_def
  have "task_good ?t"
    by (simp add: task_good_def empty_task_def is_int32_def)
  then have "task_step pretty (run_init []) (Assign ?t) ((run_init [])\<lparr> the_task := task_assign (the_task (run_init [])) ?t \<rparr>)"
    by (intro task_step.assign) (simp_all add: run_init_def empty_task_def)
  moreover have "task_assign (the_task (run_init [])) ?t = ?t"
    by (simp add: task_assign_def empty_task_def run_init_def)
  ultimately have r: "run_reach pretty ?s0" using run_reach.step [OF run_reach.init] by metis
  have "task_step pretty ?s0 Spawn (?s0\<lparr> waiting := 1 \<rparr>)"
    using task_step.spawn [of ?s0 pretty] by (simp add: run_init_def)
  with r have r: "run_reach pretty (?s0\<lparr> waiting := 1 \<rparr>)" by (rule run_reach.step)
  have r: "run_reach pretty (?s0\<lparr> rpc := R_begin \<rparr>)"
    by (rule reach_turn [OF r, of 0 "[]"]) (simp add: defs)
  obtain s1 where s1: "run_reach pretty s1" "rpc s1 = R_enter" "the_task s1 = ?t\<lparr> executed_count := 1 \<rparr>"
    "cpc s1 = C_idle" "feedback_ok (static_feedback s1)"
    using reach_turn [OF r, of 0 "[]"] by (simp add: defs)
  have r: "run_reach pretty (set_status EXECING (s1\<lparr> the_task := (the_task s1)\<lparr> task_bot := True, active_no := 0 \<rparr>, rpc := R_test 0 \<rparr>))"
    (is "run_reach _ ?s2")
    by (rule reach_turn [OF s1(1), of 0 "[]"]) (simp add: run_turn_def s1(2) Let_def)
  have r: "run_reach pretty (?s2\<lparr> rpc := R_end \<rparr>)"
    by (rule reach_turn [OF r, of 0 "[]"]) (simp add: run_turn_def s1(3) Let_def empty_task_def)
  have r: "run_reach pretty (set_status END (?s2\<lparr> rpc := R_over \<rparr>))" (is "run_reach _ ?s3")
    by (rule reach_turn [OF r, of 0 "[]"]) (simp add: run_turn_def Let_def)
  obtain s4 where "run_turn pretty 0 [] ?s3 = Some s4" "rpc s4 = R_idle" "the_task s4 = the_task ?s3" "cpc s4 = C_idle"
    using s1(4,5) by (simp add: run_turn_def Let_def call_back_ok go_or_die_def go_def)
  with reach_turn [OF r] show ?thesis
    using s1(3) by (intro exI [of _ s4]) (simp add: empty_task_def)
qed

section \<open>Properties\<close>





text \<open>
  C18. Messages go where they should: the topics the handler compares are pairwise different for every
  robot id, name and module, so the order of its tests does not matter, and each topic it forwards loses
  exactly the prefix \<open>/SmartSer\<close>.
\<close>

theorem topics_disjoint_and_forwarded:
  "distinct (class_topics cfg) \<and> set (class_topics cfg) \<inter> set (map c_str (real_ctrl_forward_topics cfg)) = {} \<and>
   (\<forall>t\<in>{heart_forward_topic cfg, direct_forward_topic cfg} \<union> set (real_ctrl_forward_topics cfg).
     \<exists>r. c_str t = ''/SmartSer'' @ r \<and> forward_topic (c_str t) = Some r)"
proof (intro conjI ballI)
  show "distinct (class_topics cfg)" by (rule class_topics_distinct)
  show "set (class_topics cfg) \<inter> set (map c_str (real_ctrl_forward_topics cfg)) = {}"
    using class_topics_real by blast
  fix t
  assume "t \<in> {heart_forward_topic cfg, direct_forward_topic cfg} \<union> set (real_ctrl_forward_topics cfg)"
  then have "\<exists>r. c_str t = ''/SmartSer'' @ CHR ''/'' # r"
    using real_topics_c_str [of t cfg] topics_c_str(1,2) [of cfg] by auto
  then obtain r where "c_str t = ''/SmartSer'' @ CHR ''/'' # r" ..
  with forward_topic_strips [of r] show "\<exists>r. c_str t = ''/SmartSer'' @ r \<and> forward_topic (c_str t) = Some r"
    by metis
qed

lemma topics_disjoint_and_forwarded_witness:
  "\<exists>r. c_str (heart_forward_topic demo_config) = ''/SmartSer'' @ r \<and>
     forward_topic (c_str (heart_forward_topic demo_config)) = Some r"
proof -
  have "heart_forward_topic demo_config \<in> {heart_forward_topic demo_config, direct_forward_topic demo_config} \<union>
      set (real_ctrl_forward_topics demo_config)"
    by (intro UnI1 insertI1)
  from bspec [OF topics_disjoint_and_forwarded [of demo_config, THEN conjunct2, THEN conjunct2] this]
  show ?thesis .
qed


definition demo_counted :: json where
  "demo_counted = J_object [(''cron'', J_string ''0 1 * * *''), (''executed_count'', J_unsigned 0), (''id'', J_string ''a'')]"


section \<open>A refused start runs the old task\<close>

lemma path_append: "run_path pretty s as s' \<Longrightarrow> run_path pretty s' bs s'' \<Longrightarrow> run_path pretty s (as @ bs) s''"
  by (induction rule: run_path.induct) (auto intro: path_Cons)

lemma path_turn:
  "run_turn pretty now turns s = Some s' \<Longrightarrow> run_path pretty s' as s'' \<Longrightarrow> run_path pretty s (Runner # as) s''"
  by (blast intro: path_Cons task_step.runner)

lemma respawn_runs:
  assumes "rpc s = R_idle" "cpc s = C_idle" "feedback_ok (static_feedback s)"
    "executed_count (the_task s) < max_count (the_task s)" "executed_count (the_task s) < 2147483647"
  shows "\<exists>s'. run_path pretty s [Spawn, Runner, Runner, Runner] s' \<and> status_of s' = EXECING \<and>
    action_list (the_task s') = action_list (the_task s) \<and>
    executed_count (the_task s') = executed_count (the_task s) + 1"
proof -
  let ?s1 = "s\<lparr> waiting := Suc (waiting s) \<rparr>"
  let ?s2 = "?s1\<lparr> waiting := waiting s, rpc := R_begin, trail := [] \<rparr>"
  have a: "task_step pretty s Spawn ?s1" by (rule task_step.spawn) (simp_all add: assms)
  have b: "run_turn pretty 0 [] ?s1 = Some ?s2" by (simp add: run_turn_def assms)
  obtain s3 where c: "run_turn pretty 0 [] ?s2 = Some s3" "rpc s3 = R_enter"
    "the_task s3 = (the_task s)\<lparr> executed_count := executed_count (the_task s) + 1 \<rparr>"
    using assms by (simp add: run_turn_def Let_def call_back_ok go_or_die_def go_def)
  obtain s4 where d: "run_turn pretty 0 [] s3 = Some s4" "status_of s4 = EXECING"
    "action_list (the_task s4) = action_list (the_task s)"
    "executed_count (the_task s4) = executed_count (the_task s) + 1"
    by (simp add: run_turn_def c(2,3) Let_def)
  have "run_path pretty s [Spawn, Runner, Runner, Runner] s4"
    using a b c(1) d(1) by (blast intro: path_Cons path_Nil path_turn)
  with d show ?thesis by blast
qed

text \<open>
  C36. A refused start runs the current task once more: the handler's only action besides the reply is to
  start the thread, so when the current task is over but has an execution left, the thread executes its
  actions again, although the backend was told that the start failed.
\<close>

theorem refused_start_reruns:
  assumes "sorts_actions srt" "json_good j" "rbind (json_at j ''type'') get_int = Inr 3"
    "start_refused srt st1 (the_task s) j"
    "task_handler srt env cfg (st1, st2, st3) (the_task s) j ts fs = (Inr (), acts, ts', fs')"
    "run_reach pretty s" "\<And>a. utf8_valid (pretty a)" "rpc s = R_idle" "cpc s = C_idle"
    "executed_count (the_task s) < max_count (the_task s)" "executed_count (the_task s) < 2147483647"
  shows "(\<exists>e. acts = [Pub e, Spawn_run]) \<and>
    (\<exists>s'. run_path pretty s [Spawn, Runner, Runner, Runner] s' \<and> status_of s' = EXECING \<and>
      action_list (the_task s') = action_list (the_task s) \<and>
      executed_count (the_task s') = executed_count (the_task s) + 1)"
proof
  obtain d where "json_dump 4 j = Inr d" using json_good_dump [OF assms(2)] by blast
  with assms(3,5) have "start_task srt cfg (st1, st2, st3) (the_task s) j = Inr acts"
    by (auto simp: task_handler_def done_with_def simp del: rbind_eq_Inr split: sum.splits)
  then show "\<exists>e. acts = [Pub e, Spawn_run]" using start_task_cases assms(4) by blast
  have "feedback_ok (static_feedback s)"
    using survival_reach [OF assms(6,7)] by (simp add: survival_inv_def)
  then show "\<exists>s'. run_path pretty s [Spawn, Runner, Runner, Runner] s' \<and> status_of s' = EXECING \<and>
      action_list (the_task s') = action_list (the_task s) \<and>
      executed_count (the_task s') = executed_count (the_task s) + 1"
    using respawn_runs assms(8-11) by blast
qed

lemma refused_start_reruns_witness:
  "\<exists>s s'. run_reach (\<lambda>_. []) s \<and> run_path (\<lambda>_. []) s [Spawn, Runner, Runner, Runner] s' \<and> status_of s' = EXECING \<and>
     start_refused (sort_key act_no) INIT (the_task s) (demo_start_json (J_integer (-1)))"
proof -
  obtain s where s: "run_reach (\<lambda>_. []) s" "rpc s = R_idle" "cpc s = C_idle"
    "executed_count (the_task s) = 1" "max_count (the_task s) = 2"
    using demo_over by blast
  obtain acts where h: "task_handler (sort_key act_no) demo_env demo_config (INIT, INIT, INIT) (the_task s)
      (demo_start_json (J_integer (-1))) demo_set demo_files = (Inr (), acts, demo_set, demo_files)"
    using demo_refused(2) by blast
  have "utf8_valid []" by simp
  from refused_start_reruns [where pretty = "\<lambda>_. []", OF sorts_sort_key demo_start_json_facts(2)
      demo_start_json_facts(3) demo_refused(1) h s(1) this s(2,3)] s(4,5) s(1) demo_refused(1)
  show ?thesis by auto
qed

section \<open>Battery protection\<close>

text \<open>A report without batteries divides zero by zero; the conversion of the NaN gives 0 percent.\<close>

lemma empty_battery_report: "battery_percentage (J_object [(''BatteryPack'', J_array [])]) = Inr 0"
  by (simp add: battery_percentage_def json_items_def d_cast_int32_def d_to_int32_def d_to_int_def d_mul_def)



section \<open>Exceptions that end the service\<close>

text \<open>
  C38. Telemetry is trusted: a heartbeat or battery message that is not json, or lacks a field, ends the
  service, as nothing catches the exception.
\<close>

theorem malformed_telemetry_escapes:
  "json_parse_cstr p = Inl e \<Longrightarrow>
   mqtt_msg_handler srt env cfg now_ms sts cur \<lparr> msg_topic = c_str (heart_forward_topic cfg), msg_payload = p \<rparr> s fs =
     (Escaped e, [], s, fs) \<and>
   mqtt_msg_handler srt env cfg now_ms sts cur \<lparr> msg_topic = c_str (robot_battery_recv_topic cfg), msg_payload = p \<rparr> s fs =
     (Escaped e, [], s, fs)"
proof -
  assume e: "json_parse_cstr p = Inl e"
  have "c_str (robot_battery_recv_topic cfg) \<notin> set (map c_str (real_ctrl_forward_topics cfg))"
    by (rule class_topics_real) (simp add: class_topics_def)
  moreover have "c_str (robot_battery_recv_topic cfg) \<noteq> c_str (heart_forward_topic cfg)"
    "c_str (robot_battery_recv_topic cfg) \<noteq> c_str (direct_forward_topic cfg)"
    "c_str (robot_battery_recv_topic cfg) \<noteq> c_str (service_task_topic cfg)"
    "c_str (robot_battery_recv_topic cfg) \<noteq> task_debug_topic"
    by (simp_all add: topics_c_str task_debug_topic_def)
  ultimately show ?thesis
    using e by (simp add: mqtt_msg_handler_def ending_def heart_handler_def battery_handler_def)
qed

lemma malformed_telemetry_escapes_witness:
  "fst (mqtt_msg_handler (sort_key act_no) demo_env demo_config 0 (INIT, INIT, INIT) empty_task
     \<lparr> msg_topic = c_str (heart_forward_topic demo_config), msg_payload = [] \<rparr> demo_set demo_files) =
     Escaped (Json_parse_error 101)"
proof -
  have e: "json_parse_cstr [] = Inl (Json_parse_error 101)" by code_simp
  from malformed_telemetry_escapes [OF e, of "sort_key act_no" demo_env demo_config 0 "(INIT, INIT, INIT)" empty_task
      demo_set demo_files]
  show ?thesis by simp
qed

text \<open>
  A timed task stored without a count kills the service after its first run: if it has another
  execution to come, the callback at the end of the run throws on the missing field, in the run thread,
  where nothing catches it, and the count is not stored.
\<close>

theorem missing_count_throws:
  assumes "timed_inv s" "t \<in> set (timed_task_list s)" "id_of t = task_id cur"
    "json_at t ''executed_count'' = Inl e" "executed_count cur < max_count cur"
  shows "count_timed env cfg cur s fs = (Inl e, s, fs)"
proof -
  have "find_timed (timed_task_list s) (task_id cur) = Inr (find (\<lambda>t. id_of t = task_id cur) (timed_task_list s))"
    using assms(1) by (simp add: find_timed_ok timed_inv_def)
  moreover have "find (\<lambda>t. id_of t = task_id cur) (timed_task_list s) = Some t"
  proof -
    obtain u where u: "find (\<lambda>t. id_of t = task_id cur) (timed_task_list s) = Some u"
      using assms(2,3) by (cases "find (\<lambda>t. id_of t = task_id cur) (timed_task_list s)") (auto simp: find_None_iff)
    then have "u \<in> set (timed_task_list s)" "id_of u = id_of t" using assms(3) by (auto simp: find_Some_iff)
    with assms(1,2) have "u = t" by (auto simp: timed_inv_def distinct_map inj_on_def)
    with u show ?thesis by simp
  qed
  ultimately show ?thesis
    using assms(4,5) by (simp add: count_timed_def get_timed_task_list_def json_at_set_def)
qed

lemma missing_count_throws_witness:
  "count_timed demo_env demo_config (empty_task\<lparr> task_id := ''a'', executed_count := 1, max_count := 2 \<rparr>) demo_set demo_files =
     (Inl (Json_out_of_range 403), demo_set, demo_files)"
  by (rule missing_count_throws [where t = demo_timed])
    (simp_all add: demo_set_def timed_inv_def demo_timed_id, simp_all add: demo_timed_def)

section \<open>The robot the configuration describes\<close>

lemma find_snoc: "find P (xs @ [x]) = (case find P xs of Some y \<Rightarrow> Some y | None \<Rightarrow> if P x then Some x else None)"
  by (induction xs) auto

lemma add_modules_lookup:
  assumes "sm_inv rb"
  shows "sm_inv (add_modules ms rb) \<and> get_device (add_modules ms rb) c =
    (case find (\<lambda>m. mod_type m = ''PanTilt'' \<and> mod_name m = c) (rev ms) of
       Some m \<Rightarrow> Inr (Dev_ptz (new_ptz (mod_id m))) | None \<Rightarrow> get_device rb c)"
  using assms
proof (induction ms arbitrary: rb)
  case Nil
  then show ?case by (simp add: add_modules_def)
next
  case (Cons m ms)
  let ?rb = "if mod_type m = ''PanTilt'' then add_device (mod_name m) (Dev_ptz (new_ptz (mod_id m))) rb else rb"
  have "sm_inv ?rb" using Cons.prems by auto
  from Cons.IH [OF this] Cons.prems show ?case
    by (auto simp: add_modules_def get_device_ops find_snoc split: option.splits)
qed

text \<open>
  The robot has the devices of its configuration: the moving body or the pad under the robot's id and
  a pan-tilt head under the name of each such module, the last one of a name; a module named like the
  robot's id takes its place.  Nothing is built for an unknown robot type.
\<close>

theorem robot_devices:
  "case build_robot cfg of
     None \<Rightarrow> robot_type cfg \<noteq> ''TrackRobot'' \<and> robot_type cfg \<noteq> ''Pad''
   | Some rb \<Rightarrow> sm_inv rb \<and> (\<forall>c. get_device rb c =
       (case find (\<lambda>m. mod_type m = ''PanTilt'' \<and> mod_name m = c) (rev (modules cfg)) of
          Some m \<Rightarrow> Inr (Dev_ptz (new_ptz (mod_id m)))
        | None \<Rightarrow> if c = conf_robot_id cfg
            then Inr (if robot_type cfg = ''TrackRobot'' then Dev_body (new_action_body c) else Dev_pad (new_pad c))
            else Inl Std_out_of_range))"
  using add_modules_lookup
  by (auto simp: build_robot_def get_device_ops split: option.splits)

end
