(* ===== verification/ServiceSystem.thy ===== *)
theory ServiceSystem imports ServiceBehaviour SafeQueue begin

text \<open>
  The whole service (\<open>main\<close> and \<open>mqtt_msg_handler\<close> of \<open>smart_service.cpp\<close>): the network thread that fills the
  message queue, the handler that serves one message after the other, and the run threads, whose callbacks
  publish and update the timed tasks.  Their steps interleave; a step of the handler is one load of the
  status, the handling of a message up to its first blocking call, or one of the things a handler does.
\<close>

section \<open>State\<close>

text \<open>
  What the environment of a service consists of: the order that sorting leaves equal elements in, the
  printing of a camera action, the files and the configuration.
\<close>

record world =
  w_sort :: "task_action list \<Rightarrow> task_action list"
  w_pretty :: "camera_action \<Rightarrow> string"
  w_env :: environment
  w_cfg :: config_item

text \<open>
  The handler: it pops, it loads the status for the calls of \<open>is_over\<close> and \<open>is_empty\<close> a request makes, it does
  what the request asks for, and it waits inside a control function.  \<open>H_over\<close>: \<open>main\<close> has returned.
\<close>

datatype handler_pc =
    H_pop
  | H_load mqtt_message "int list"
  | H_do mqtt_message "service_action list"
  | H_wait mqtt_message "service_action list"
  | H_over

text \<open>\<open>arrived\<close> and \<open>taken\<close> are ghosts: the messages pushed and the messages popped so far.\<close>

record system =
  runs :: run_state
  timers :: timed_set
  disk :: file_system
  inbox :: "mqtt_message list"
  hpc :: handler_pc
  leaving :: bool
  crashed :: bool
  sent :: "effect list"
  arrived :: "mqtt_message list"
  taken :: "mqtt_message list"

abbreviation task_now :: "system \<Rightarrow> task" where
  "task_now y \<equiv> the_task (runs y)"

definition cron_path :: string where
  "cron_path = ''/etc/cron.d/timed_task_robot''"

definition start_system :: "robot \<Rightarrow> timed_set \<Rightarrow> file_system \<Rightarrow> system" where
  "start_system rb s fs = \<lparr> runs = run_init rb, timers = s, disk = fs, inbox = [], hpc = H_pop, leaving = False,
     crashed = False, sent = [], arrived = [], taken = [] \<rparr>"

section \<open>The run threads\<close>

text \<open>
  The callbacks and the effects of devices in one step of a run thread.  The lambda of \<open>set_current_task\<close> asks
  the current task whether it is over; only the run thread stores END, so the answer is that of the task
  the step leaves.
\<close>

fun deliver ::
  "environment \<Rightarrow> config_item \<Rightarrow> task \<Rightarrow> event list \<Rightarrow> timed_set \<Rightarrow> file_system \<Rightarrow>
   unit res \<times> effect list \<times> timed_set \<times> file_system" where
  "deliver env cfg cur [] s fs = (Inr (), [], s, fs)"
| "deliver env cfg cur (Effects es # evs) s fs =
     (case deliver env cfg cur evs s fs of (r, eff, s', fs') \<Rightarrow> (r, es @ eff, s', fs'))"
| "deliver env cfg cur (Callback Empty_callback fb # evs) s fs = deliver env cfg cur evs s fs"
| "deliver env cfg cur (Callback Service_callback fb # evs) s fs =
     (case service_callback env cfg (task_is_over cur) cur fb s fs of
        (Inl e, eff, s', fs') \<Rightarrow> (Inl e, eff, s', fs')
      | (Inr _, eff, s', fs') \<Rightarrow>
          (case deliver env cfg cur evs s' fs' of (r, eff', s'', fs'') \<Rightarrow> (r, eff @ eff', s'', fs'')))"

section \<open>Steps\<close>

definition alive :: "system \<Rightarrow> bool" where
  "alive y \<longleftrightarrow> \<not> crashed y \<and> hpc y \<noteq> H_over"

text \<open>The end of a turn of the handler; the debug exit runs the destructor, which cancels the task.\<close>

definition after_handling ::
  "system \<Rightarrow> mqtt_message \<Rightarrow> serve_outcome \<Rightarrow> service_action list \<Rightarrow> timed_set \<Rightarrow> file_system \<Rightarrow> system" where
  "after_handling y m out acts s fs = (let y' = y\<lparr> timers := s, disk := fs \<rparr> in case out of
      Next_message \<Rightarrow> y'\<lparr> hpc := H_do m acts \<rparr>
    | Stop_serving \<Rightarrow> y'\<lparr> hpc := H_do m [Control Call_cancel], leaving := True \<rparr>
    | Escaped e \<Rightarrow> y'\<lparr> crashed := True \<rparr>)"

datatype system_actor = By_network | By_empty_message | By_handler | By_run

text \<open>
  \<open>run\<close>: an exception of a callback leaves the run thread and ends the process.  (A callback inside the try
  block of \<open>run\<close> does not throw: lemma \<open>deliver_running\<close>.)  \<open>assign\<close> waits for the mutex \<open>run_sche\<close>.
\<close>

inductive system_step :: "world \<Rightarrow> system \<Rightarrow> system_actor \<Rightarrow> system \<Rightarrow> bool" for w :: world where
  run: "alive y \<Longrightarrow> run_turn (w_pretty w) now turns (runs y) = Some r \<Longrightarrow>
    deliver (w_env w) (w_cfg w) (the_task r) (drop (length (events (runs y))) (events r)) (timers y) (disk y) =
      (out, eff, s', fs') \<Longrightarrow>
    system_step w y By_run (y\<lparr> runs := r, timers := s', disk := fs', sent := sent y @ eff,
      crashed := (isl out \<or> rpc r = R_dead) \<rparr>)"
| arrive: "alive y \<Longrightarrow> message_callback topic (Some p) (inbox y) = Inr q \<Longrightarrow>
    system_step w y By_network (y\<lparr> inbox := q, arrived := arrived y @ [\<lparr> msg_topic = topic, msg_payload = p \<rparr>] \<rparr>)"
| arrive_empty: "alive y \<Longrightarrow> message_callback topic None (inbox y) = Inl e \<Longrightarrow>
    system_step w y By_empty_message (y\<lparr> crashed := True \<rparr>)"
| pop: "alive y \<Longrightarrow> hpc y = H_pop \<Longrightarrow> queue_tryPop (inbox y) = (Some m, q) \<Longrightarrow>
    system_step w y By_handler (y\<lparr> inbox := q, hpc := H_load m [], taken := taken y @ [m] \<rparr>)"
| load: "alive y \<Longrightarrow> hpc y = H_load m sts \<Longrightarrow> length sts < 3 \<Longrightarrow>
    system_step w y By_handler (y\<lparr> hpc := H_load m (sts @ [status_of (runs y)]) \<rparr>)"
| handle: "alive y \<Longrightarrow> hpc y = H_load m [st1, st2, st3] \<Longrightarrow>
    mqtt_msg_handler (w_sort w) (w_env w) (w_cfg w) now_ms (st1, st2, st3) (task_now y) m (timers y) (disk y) =
      (out, acts, s', fs') \<Longrightarrow>
    system_step w y By_handler (after_handling y m out acts s' fs')"
| publish: "alive y \<Longrightarrow> hpc y = H_do m (Pub e # acts) \<Longrightarrow>
    system_step w y By_handler (y\<lparr> sent := sent y @ [e], hpc := H_do m acts \<rparr>)"
| control: "alive y \<Longrightarrow> hpc y = H_do m (Control c # acts) \<Longrightarrow>
    system_step w y By_handler (y\<lparr> runs := control_start c (runs y), hpc := H_wait m acts \<rparr>)"
| wait: "alive y \<Longrightarrow> hpc y = H_wait m acts \<Longrightarrow> control_turn (runs y) = Some r \<Longrightarrow>
    system_step w y By_handler (y\<lparr> runs := r, crashed := (rpc r = R_dead) \<rparr>)"
| return: "alive y \<Longrightarrow> hpc y = H_wait m acts \<Longrightarrow> cpc (runs y) = C_idle \<Longrightarrow>
    system_step w y By_handler (y\<lparr> hpc := H_do m acts \<rparr>)"
| assign: "alive y \<Longrightarrow> hpc y = H_do m (Assign_task t # acts) \<Longrightarrow> rpc (runs y) = R_idle \<Longrightarrow>
    system_step w y By_handler (y\<lparr> runs := (runs y)\<lparr> the_task := task_assign (task_now y) t \<rparr>, hpc := H_do m acts \<rparr>)"
| install: "alive y \<Longrightarrow> hpc y = H_do m (Install_callbacks # acts) \<Longrightarrow>
    system_step w y By_handler
      (y\<lparr> runs := (runs y)\<lparr> the_task := install_callbacks (task_now y) \<rparr>, hpc := H_do m acts \<rparr>)"
| spawn: "alive y \<Longrightarrow> hpc y = H_do m (Spawn_run # acts) \<Longrightarrow>
    system_step w y By_handler
      (y\<lparr> runs := (runs y)\<lparr> waiting := Suc (waiting (runs y)) \<rparr>, hpc := H_do m acts \<rparr>)"
| charge: "alive y \<Longrightarrow> hpc y = H_do m (Charge # acts) \<Longrightarrow>
    charge_action (w_pretty w) turns (w_cfg w) (the_robot (runs y)) = Some (Inr j, rb', es) \<Longrightarrow>
    system_step w y By_handler
      (y\<lparr> runs := (runs y)\<lparr> the_robot := rb' \<rparr>, sent := sent y @ es, hpc := H_do m acts \<rparr>)"
| charge_fails: "alive y \<Longrightarrow> hpc y = H_do m (Charge # acts) \<Longrightarrow>
    charge_action (w_pretty w) turns (w_cfg w) (the_robot (runs y)) = Some (Inl e, rb', es) \<Longrightarrow>
    system_step w y By_handler
      (y\<lparr> runs := (runs y)\<lparr> the_robot := rb' \<rparr>, sent := sent y @ es, crashed := True \<rparr>)"
| clear: "alive y \<Longrightarrow> hpc y = H_do m (Clear_queue # acts) \<Longrightarrow>
    system_step w y By_handler (y\<lparr> inbox := queue_clear (inbox y), hpc := H_do m acts \<rparr>)"
| finish: "alive y \<Longrightarrow> hpc y = H_do m [] \<Longrightarrow>
    system_step w y By_handler (y\<lparr> hpc := (if leaving y then H_over else H_pop) \<rparr>)"

inductive_cases system_stepE: "system_step w y a y'"
inductive_cases run_stepE: "system_step w y By_run y'"

text \<open>\<open>main\<close>: the robot is built from the configuration, the timed tasks are read from the files.\<close>

inductive system_reach :: "world \<Rightarrow> system \<Rightarrow> bool" for w :: world where
  start: "build_robot (w_cfg w) = Some rb \<Longrightarrow>
    new_timed_set (w_env w) (w_cfg w) cron_path (service_task_topic (w_cfg w)) fs0 = (Inr s, fs) \<Longrightarrow>
    system_reach w (start_system rb s fs)"
| step: "system_reach w y \<Longrightarrow> system_step w y a y' \<Longrightarrow> system_reach w y'"

section \<open>What a handler asks for\<close>

text \<open>Every task a handler assigns is well formed and fresh.\<close>

definition acts_good :: "service_action list \<Rightarrow> bool" where
  "acts_good acts \<longleftrightarrow> (\<forall>t. Assign_task t \<in> set acts \<longrightarrow> task_good t \<and> task_status t = INIT \<and> req_status t = INIT)"

lemma acts_good_simps [simp]:
  "acts_good []" "acts_good (Pub e # acts) = acts_good acts" "acts_good (Control c # acts) = acts_good acts"
  "acts_good (Install_callbacks # acts) = acts_good acts" "acts_good (Spawn_run # acts) = acts_good acts"
  "acts_good (Charge # acts) = acts_good acts" "acts_good (Clear_queue # acts) = acts_good acts"
  "acts_good (Assign_task t # acts) \<longleftrightarrow>
     task_good t \<and> task_status t = INIT \<and> req_status t = INIT \<and> acts_good acts"
  by (auto simp: acts_good_def)

lemma acts_good_start:
  assumes "sorts_actions srt" "json_good j" "start_task srt cfg sts cur j = Inr acts"
  shows "acts_good acts"
proof -
  obtain st1 st2 st3 where [simp]: "sts = (st1, st2, st3)" by (cases sts) auto
  from start_task_cases [of srt cfg st1 st2 st3 cur j acts] assms new_task_ok [OF assms(1,2)]
  show ?thesis by auto
qed

lemma acts_good_reply: "reply_for cfg j key st rem = Inr acts \<Longrightarrow> acts_good acts"
  by (auto dest: reply_for_Inr)

lemma acts_good_done:
  "done_with r s fs = (out, acts, s', fs') \<Longrightarrow> (\<And>as. r = Inr as \<Longrightarrow> acts_good as) \<Longrightarrow> acts_good acts"
  by (auto simp: done_with_def split: sum.splits)

lemma acts_good_task:
  assumes "sorts_actions srt" "json_good j" "task_handler srt env cfg sts cur j s fs = (out, acts, s', fs')"
  shows "acts_good acts"
proof (cases "rbind (json_dump 4 j) (\<lambda>_. rbind (json_at j ''type'') get_int)")
  case (Inl e)
  with assms(3) show ?thesis by (auto simp: task_handler_def)
next
  case (Inr ty)
  have e: "acts_good as" if "rbind (json_set J_null ''type'' (J_integer 10)) (\<lambda>r.
             rbind (json_set r ''remark'' (J_string ''error message type'')) (\<lambda>r.
             rbind (json_dump 4 r) (\<lambda>txt. Inr [Pub (mqtt_pub (task_feedback_topic cfg) txt)]))) = Inr as" for as
    using that by auto
  from assms(3) Inr show ?thesis
    unfolding task_handler_def
    by (auto split: if_splits sum.splits prod.splits elim!: acts_good_done intro: acts_good_reply e
        acts_good_start [OF assms(1,2)] simp del: rbind_eq_Inr)
qed

lemma acts_good_forward [simp]: "acts_good (forward t p qos)"
  by (simp add: forward_def split: option.splits)

lemma acts_good_handler:
  assumes "sorts_actions srt" "mqtt_msg_handler srt env cfg now sts cur m s fs = (out, acts, s', fs')"
  shows "acts_good acts"
proof -
  have "json_good j" if "json_parse_cstr p = Inr j" for p j
    using that json_good_parse by (auto simp: json_parse_cstr_def)
  then have t: "acts_good acts" if "json_parse_cstr p = Inr j"
    "task_handler srt env cfg sts cur j s fs = (out, acts, s', fs')" for p j out acts s' fs'
    using that acts_good_task [OF assms(1)] by blast
  have "acts_good as" if "heart_handler now m = Inr as" for as
    using that by (auto simp: heart_handler_def)
  moreover have "acts_good as" if "battery_handler cfg m = Inr as" for as
    using that by (auto simp: battery_handler_def split: if_splits)
  ultimately show ?thesis
    using assms(2)
    by (auto simp: mqtt_msg_handler_def ending_def real_time_ctrl_handler_def split: if_splits sum.splits prod.splits
        intro: t)
qed

section \<open>The service implements the task\<close>

text \<open>No control function is running except while the handler waits for one.\<close>

definition handler_inv :: "system \<Rightarrow> bool" where
  "handler_inv y \<longleftrightarrow> (case hpc y of
      H_do m acts \<Rightarrow> cpc (runs y) = C_idle \<and> acts_good acts
    | H_wait m acts \<Rightarrow> acts_good acts
    | _ \<Rightarrow> cpc (runs y) = C_idle)"

lemma charge_action_dispatch:
  "charge_action pretty turns cfg rb = Some (r, rb', es) \<Longrightarrow>
   \<exists>code active args. dispatch pretty turns rb code active args = Some (r, rb', es)"
  unfolding charge_action_def by blast

text \<open>The simulation: a step of the service is no step of the task, or the step of one of its actors.\<close>

lemma system_step_simulates:
  assumes "sorts_actions (w_sort w)" "system_step w y a y'" "handler_inv y" "rpc (runs y) = R_dead \<longrightarrow> crashed y"
  shows "runs y' = runs y \<or> (\<exists>b. task_step (w_pretty w) (runs y) b (runs y') \<and> (a = By_run \<longleftrightarrow> b = Runner))"
proof -
  have al: "rpc (runs y) \<noteq> R_dead" using assms(2,4) by (auto elim!: system_stepE simp: alive_def)
  from assms(2) show ?thesis
  proof (cases rule: system_step.cases)
    case (run now turns r out eff s' fs')
    then have "task_step (w_pretty w) (runs y) Runner (runs y')" by (auto intro: task_step.runner)
    with run show ?thesis by blast
  next
    case (control m c acts)
    then have "task_step (w_pretty w) (runs y) (Call c) (runs y')"
      using al assms(3) task_step.call [of "runs y"] by (simp add: handler_inv_def)
    with control show ?thesis by blast
  next
    case (wait m acts r)
    then have "task_step (w_pretty w) (runs y) Controller (runs y')"
      using al task_step.controller [of "runs y"] by simp
    with wait show ?thesis by blast
  next
    case (assign m t acts)
    then have "task_step (w_pretty w) (runs y) (Assign t) (runs y')"
      using assms(3) task_step.assign [of "runs y" t] by (simp add: handler_inv_def)
    with assign show ?thesis by blast
  next
    case (install m acts)
    then have "task_step (w_pretty w) (runs y) Install (runs y')"
      using al assms(3) task_step.install [of "runs y"] by (simp add: handler_inv_def)
    with install show ?thesis by blast
  next
    case (spawn m acts)
    then have "task_step (w_pretty w) (runs y) Spawn (runs y')"
      using al assms(3) task_step.spawn [of "runs y"] by (simp add: handler_inv_def)
    with spawn show ?thesis by blast
  next
    case (charge m acts turns j rb' es)
    with al assms(3) have "task_step (w_pretty w) (runs y) Use (runs y')"
      using charge_action_dispatch [of "w_pretty w"] task_step.use [of "runs y"] by (fastforce simp: handler_inv_def)
    with charge show ?thesis by blast
  next
    case (charge_fails m acts turns e rb' es)
    with al assms(3) have "task_step (w_pretty w) (runs y) Use (runs y')"
      using charge_action_dispatch [of "w_pretty w"] task_step.use [of "runs y"] by (fastforce simp: handler_inv_def)
    with charge_fails show ?thesis by blast
  qed (simp_all add: after_handling_def Let_def split: serve_outcome.splits)
qed

text \<open>A run thread never touches the control functions, and the crash flag is exact for its end.\<close>

lemma run_step_cpc: "run_turn pretty now turns s = Some r \<Longrightarrow> cpc r = cpc s"
  by (rule run_turn_move(2))

lemma handler_inv_step:
  assumes "sorts_actions (w_sort w)" "system_step w y a y'" "handler_inv y"
  shows "handler_inv y'"
  using assms(2)
proof (cases rule: system_step.cases)
  case (run now turns r out eff s' fs')
  have "cpc r = cpc (runs y)" using run run_step_cpc by blast
  with run assms(3) show ?thesis by (cases "hpc y") (simp_all add: handler_inv_def)
next
  case (handle m st1 st2 st3 now_ms out acts s' fs')
  then show ?thesis using assms(3) acts_good_handler [OF assms(1)]
    by (auto simp: handler_inv_def after_handling_def Let_def split: serve_outcome.splits)
next
  case (control m c acts)
  then show ?thesis using assms(3) by (simp add: handler_inv_def)
qed (use assms(3) in \<open>auto simp: handler_inv_def alive_def split: handler_pc.splits\<close>)

lemma dead_step:
  assumes "system_step w y a y'" "rpc (runs y) = R_dead \<longrightarrow> crashed y"
  shows "rpc (runs y') = R_dead \<longrightarrow> crashed y'"
  using assms
  by (cases rule: system_step.cases)
    (auto simp: alive_def after_handling_def Let_def control_start_def split: serve_outcome.splits control_call.splits)

definition system_inv :: "world \<Rightarrow> system \<Rightarrow> bool" where
  "system_inv w y \<longleftrightarrow> run_reach (w_pretty w) (runs y) \<and> handler_inv y \<and> (rpc (runs y) = R_dead \<longrightarrow> crashed y)"

lemma system_inv_step:
  assumes "sorts_actions (w_sort w)" "system_step w y a y'" "system_inv w y"
  shows "system_inv w y'"
  using assms system_step_simulates [OF assms(1,2)] handler_inv_step [OF assms(1,2)] dead_step [OF assms(2)]
  by (auto simp: system_inv_def intro: run_reach.step)

lemma system_inv_reach:
  assumes "sorts_actions (w_sort w)" "system_reach w y"
  shows "system_inv w y"
  using assms(2)
proof (induction rule: system_reach.induct)
  case (start rb fs0 s fs)
  have "cpc (run_init rb) = C_idle" "rpc (run_init rb) = R_idle" by (simp_all add: run_init_def)
  then show ?case by (simp add: system_inv_def start_system_def handler_inv_def run_reach.init)
next
  case (step y a y')
  then show ?case using system_inv_step [OF assms(1)] by blast
qed

section \<open>A small service\<close>

definition demo_world :: world where
  "demo_world = \<lparr> w_sort = sort_key act_no, w_pretty = (\<lambda>_. []), w_env = demo_env, w_cfg = demo_config \<rparr>"

definition demo_robot :: robot where
  "demo_robot = add_device ''7'' (Dev_pad (new_pad ''7'')) new_robot"

definition no_timers :: timed_set where
  "no_timers = \<lparr> cron_file_path = cron_path, task_recv_topic = ''/SmartSer/Robot/Task/7'', timed_task_list = [] \<rparr>"

definition demo_disk :: file_system where
  "demo_disk = \<lparr> files = [(cron_path, cron_header ''/srv'')], task_dir_exists = True \<rparr>"

lemma demo_world_simps [simp]:
  "w_sort demo_world = sort_key act_no" "w_pretty demo_world = (\<lambda>_. [])" "w_env demo_world = demo_env"
  "w_cfg demo_world = demo_config"
  by (simp_all add: demo_world_def)

lemma demo_reach: "system_reach demo_world (start_system demo_robot no_timers demo_disk)"
proof (rule system_reach.start [of _ _ demo_files])
  show "build_robot (w_cfg demo_world) = Some demo_robot"
    by (simp add: build_robot_def demo_config_def add_modules_def demo_robot_def)
  have "new_timed_set demo_env demo_config cron_path ''/SmartSer/Robot/Task/7'' demo_files = (Inr no_timers, demo_disk)"
    by (simp add: new_timed_set_def demo_files_def demo_env_def put_file_def make_task_dir_def update_file_def
        no_timers_def demo_disk_def Let_def)
  then show "new_timed_set (w_env demo_world) (w_cfg demo_world) cron_path (service_task_topic (w_cfg demo_world)) demo_files =
      (Inr no_timers, demo_disk)"
    by (simp add: service_task_topic_def demo_config_def)
qed

text \<open>The service with one message it is about to serve.\<close>

lemma demo_loads:
  "\<exists>y. system_reach demo_world y \<and> hpc y = H_load m [] \<and> runs y = run_init demo_robot \<and> alive y \<and>
     timers y = no_timers \<and> disk y = demo_disk \<and> \<not> leaving y \<and> taken y = [m]"
proof -
  let ?y0 = "start_system demo_robot no_timers demo_disk"
  obtain t p where m: "m = \<lparr> msg_topic = t, msg_payload = p \<rparr>" by (cases m) auto
  let ?y1 = "?y0\<lparr> inbox := [m], arrived := [m] \<rparr>"
  have "alive ?y0" by (simp add: alive_def start_system_def)
  then have "system_step demo_world ?y0 By_network ?y1"
    using system_step.arrive [of ?y0 t p "[m]" demo_world]
    by (simp add: message_callback_def queue_push_def start_system_def m)
  then have r1: "system_reach demo_world ?y1" using demo_reach system_reach.step by blast
  let ?y2 = "?y1\<lparr> inbox := [], hpc := H_load m [], taken := [m] \<rparr>"
  have "system_step demo_world ?y1 By_handler ?y2"
    using system_step.pop [of ?y1 m "[]" demo_world]
    by (simp add: alive_def start_system_def queue_tryPop_def)
  then have "system_reach demo_world ?y2" using r1 system_reach.step by blast
  then show ?thesis by (rule exI [of _ ?y2, OF conjI]) (simp add: start_system_def alive_def)
qed

end
