(* ===== verification/ServiceStore.thy ===== *)
theory ServiceStore imports ServiceSystem begin

text \<open>
  The timed tasks while the service runs.  The locale \<open>timer_kind\<close> states what a class of timed tasks must
  satisfy so that adding, deleting and counting succeed and stay within the class; it is interpreted by the
  tasks the service can write and by those it can also read back, and gives the survival of the run
  threads' callbacks and of the timed tasks across a restart.
\<close>

section \<open>Stretches of an execution\<close>

inductive system_path :: "world \<Rightarrow> system \<Rightarrow> system_actor list \<Rightarrow> system \<Rightarrow> bool" for w :: world and y0 :: system where
  path_start: "system_path w y0 [] y0"
| path_next: "system_path w y0 as y \<Longrightarrow> system_step w y a y' \<Longrightarrow> system_path w y0 (as @ [a]) y'"

section \<open>Classes of timed tasks\<close>

definition has_count :: "json \<Rightarrow> bool" where
  "has_count t \<longleftrightarrow> (\<exists>v. json_at t ''executed_count'' = Inr v)"

definition with_list :: "timed_set \<Rightarrow> json list \<Rightarrow> timed_set" where
  "with_list s ts = s\<lparr> timed_task_list := ts \<rparr>"

lemma with_list_simps [simp]:
  "timed_task_list (with_list s ts) = ts" "cron_file_path (with_list s ts) = cron_file_path s"
  "task_recv_topic (with_list s ts) = task_recv_topic s" "with_list (with_list s ts) us = with_list s us"
  "with_list s (timed_task_list s) = s"
  by (simp_all add: with_list_def)

text \<open>The timed tasks are all of a class and have a count, their ids are distinct and the files are as \<open>side\<close> says.\<close>

definition held_by :: "(json \<Rightarrow> bool) \<Rightarrow> (timed_set \<Rightarrow> file_system \<Rightarrow> bool) \<Rightarrow> timed_set \<Rightarrow> file_system \<Rightarrow> bool" where
  "held_by kind side s fs \<longleftrightarrow> (\<forall>t\<in>set (timed_task_list s). kind t \<and> has_count t) \<and>
     distinct (map id_of (timed_task_list s)) \<and> side s fs"

text \<open>A message that, if it adds a timed task, adds one of the class with a count.\<close>

definition adds_kind :: "config_item \<Rightarrow> (json \<Rightarrow> bool) \<Rightarrow> mqtt_message \<Rightarrow> bool" where
  "adds_kind cfg kind m \<longleftrightarrow> (\<forall>j. msg_topic m = c_str (service_task_topic cfg) \<and> json_parse_cstr (msg_payload m) = Inr j \<and>
     rbind (json_at j ''type'') get_int = Inr 1 \<longrightarrow> kind j \<and> has_count j)"

text \<open>A report that the callback can complete and print.\<close>

definition report_ok :: "json \<Rightarrow> bool" where
  "report_ok fb \<longleftrightarrow> (\<exists>r. json_set fb ''type'' (J_integer 8) = Inr r \<and> json_utf8 r)"

locale timer_kind =
  fixes env :: environment
    and cfg :: config_item
    and kind :: "json \<Rightarrow> bool"
    and side :: "timed_set \<Rightarrow> file_system \<Rightarrow> bool"
  assumes kind_valid: "kind t \<Longrightarrow> valid_timed t"
    and kind_set: "kind t \<Longrightarrow> k = ''type'' \<or> k = ''executed_count'' \<Longrightarrow> is_int32 i \<Longrightarrow>
      json_set t k (J_integer i) = Inr t' \<Longrightarrow> kind t'"
    and update: "side s fs \<Longrightarrow> \<forall>t\<in>set ts. kind t \<Longrightarrow> distinct (map id_of ts) \<Longrightarrow>
      \<exists>fs'. update_file env cfg (with_list s ts) fs = (Inr (), fs') \<and> side (with_list s ts) fs'"
begin

abbreviation held :: "timed_set \<Rightarrow> file_system \<Rightarrow> bool" where
  "held \<equiv> held_by kind side"

lemma held_inv: "held s fs \<Longrightarrow> timed_inv s"
  using kind_valid by (auto simp: held_by_def timed_inv_def valid_timed_def)

lemma held_update:
  assumes "held s fs" "\<forall>t\<in>set ts. kind t \<and> has_count t" "distinct (map id_of ts)"
    "update_file env cfg (with_list s ts) fs = (r, fs')"
  shows "r = Inr () \<and> held (with_list s ts) fs'"
  using update [of s fs ts] assms by (auto simp: held_by_def)

lemma held_add:
  assumes "held s fs" "kind t" "has_count t" "add_timed_task env cfg t s fs = (r, s', fs')"
  shows "r = Inr () \<and> held s' fs'"
proof -
  have v: "valid_timed t" by (rule kind_valid [OF assms(2)])
  note a = as_instant_id [OF v]
  let ?ts = "filter (\<lambda>x. id_of x \<noteq> id_of t) (timed_task_list s) @ [as_instant t]"
  have inv: "timed_inv s" by (rule held_inv [OF assms(1)])
  have "erase_same_id (as_instant t) (timed_task_list s) = Inr (filter (\<lambda>x. id_of x \<noteq> id_of t) (timed_task_list s))"
    using inv erase_same_id_ok [of "timed_task_list s" "as_instant t"] a
      erase_first_eq_filter [of id_of "timed_task_list s" "id_of t"]
    by (simp add: timed_inv_def)
  then have u: "s' = with_list s ?ts" "update_file env cfg (with_list s ?ts) fs = (r, fs')"
    using assms(4) a(3) by (auto simp: add_timed_task_def Let_def with_list_def split: prod.splits)
  have "kind (as_instant t)" using kind_set [OF assms(2) _ _ a(3)] by (simp add: is_int32_def)
  moreover have "has_count (as_instant t)"
  proof -
    obtain t' where "json_set t ''type'' (J_integer 3) = Inr t'" "json_at t' ''executed_count'' = json_at t ''executed_count''"
      by (rule json_set_type [of t]) (use v in \<open>simp_all add: valid_timed_def\<close>)
    with a(3) assms(3) show ?thesis by (simp add: has_count_def)
  qed
  ultimately have "\<forall>x\<in>set ?ts. kind x \<and> has_count x" using assms(1) by (auto simp: held_by_def)
  moreover have "distinct (map id_of ?ts)"
    using inv a(2) by (auto simp: timed_inv_def distinct_map_filter)
  ultimately show ?thesis using held_update [OF assms(1) _ _ u(2)] u(1) by simp
qed

lemma held_del:
  assumes "held s fs" "del_timed_task env cfg i s fs = (r, s', fs')"
  shows "r = Inr () \<and> held s' fs'"
proof -
  let ?ts = "filter (\<lambda>x. id_of x \<noteq> i) (timed_task_list s)"
  have inv: "timed_inv s" by (rule held_inv [OF assms(1)])
  have find: "find_task_id i (timed_task_list s) =
      Inr (if \<exists>t\<in>set (timed_task_list s). id_of t = i then Some ?ts else None)"
    using find_task_id_ok [of "timed_task_list s" i] erase_first_eq_filter [of id_of "timed_task_list s" i] inv
    by (simp add: timed_inv_def)
  show ?thesis
  proof (cases "\<exists>t\<in>set (timed_task_list s). id_of t = i")
    case True
    then have u: "s' = with_list s ?ts" "update_file env cfg (with_list s ?ts) fs = (r, fs')"
      using assms(2) find by (auto simp: del_timed_task_def Let_def with_list_def split: prod.splits)
    have "\<forall>x\<in>set ?ts. kind x \<and> has_count x" "distinct (map id_of ?ts)"
      using assms(1) by (auto simp: held_by_def distinct_map_filter)
    then show ?thesis using held_update [OF assms(1) _ _ u(2)] u(1) by simp
  next
    case False
    then show ?thesis using assms find by (simp add: del_timed_task_def)
  qed
qed

lemma held_count:
  assumes "held s fs" "is_int32 (executed_count cur)" "count_timed env cfg cur s fs = (r, s', fs')"
  shows "r = Inr () \<and> held s' fs'"
proof -
  let ?ts = "timed_task_list s"
  have inv: "timed_inv s" by (rule held_inv [OF assms(1)])
  then have f: "find_timed ?ts (task_id cur) = Inr (find (\<lambda>t. id_of t = task_id cur) ?ts)"
    by (simp add: find_timed_ok timed_inv_def)
  show ?thesis
  proof (cases "find (\<lambda>t. id_of t = task_id cur) ?ts")
    case None
    with assms(1,3) f show ?thesis by (simp add: count_timed_def get_timed_task_list_def)
  next
    case (Some t)
    then have t: "t \<in> set ?ts" by (auto simp: find_Some_iff)
    then have k: "kind t" "has_count t" using assms(1) by (auto simp: held_by_def)
    then have v: "is_object t" "json_ok t" using kind_valid by (auto simp: valid_timed_def)
    obtain c where c: "json_at t ''executed_count'' = Inr c" using k(2) by (auto simp: has_count_def)
    obtain t1 where t1: "json_at_set t ''executed_count'' (J_integer (executed_count cur)) = Inr t1"
      "json_at t1 ''executed_count'' = Inr (J_integer (executed_count cur))"
      by (rule json_at_set_ok [OF v c is_int32_json_ok [OF assms(2)]]) blast
    have "json_set t ''executed_count'' (J_integer (executed_count cur)) = Inr t1"
      using t1(1) v c by (auto simp: json_at_set_def is_object_def split: json.splits option.splits)
    then have "kind t1" using kind_set [OF k(1)] assms(2) by blast
    moreover have "has_count t1" using t1(2) by (simp add: has_count_def)
    moreover have "if executed_count cur \<ge> max_count cur
      then del_timed_task env cfg (task_id cur) s fs = (r, s', fs')
      else add_timed_task env cfg t1 s fs = (r, s', fs')"
      using assms(3) f Some t1(1) by (cases "max_count cur \<le> executed_count cur") (simp_all add: count_timed_def get_timed_task_list_def)
    ultimately show ?thesis
      using held_add [OF assms(1)] held_del [OF assms(1)] by presburger
  qed
qed

text \<open>The callback of a task: whatever it reports, the timed tasks stay held; a report that prints does not throw.\<close>

lemma held_callback:
  assumes "held s fs" "is_int32 (executed_count cur)"
    "service_callback env cfg over cur fb s fs = (r, eff, s', fs')"
  shows "held s' fs' \<and> (report_ok fb \<longrightarrow> r = Inr ())"
proof (cases "rbind (json_set fb ''type'' (J_integer 8)) (json_dump 4)")
  case (Inl e)
  have "\<not> report_ok fb" using Inl json_dump_total [of _ 4] by (fastforce simp: report_ok_def)
  with assms(1,3) Inl show ?thesis by (auto simp: service_callback_def)
next
  case (Inr report)
  then show ?thesis using assms(1,3) held_count [OF assms(1,2)]
    by (auto simp: service_callback_def Let_def split: if_splits prod.splits)
qed

lemma held_deliver:
  "held s fs \<Longrightarrow> is_int32 (executed_count cur) \<Longrightarrow> deliver env cfg cur evs s fs = (r, eff, s', fs') \<Longrightarrow>
   held s' fs' \<and> ((\<forall>c fb. Callback c fb \<in> set evs \<longrightarrow> report_ok fb) \<longrightarrow> r = Inr ())"
proof (induction evs arbitrary: s fs r eff s' fs')
  case Nil
  then show ?case by simp
next
  case (Cons ev evs)
  obtain r1 eff1 s1 fs1 where rest: "deliver env cfg cur evs s fs = (r1, eff1, s1, fs1)" by (metis surj_pair)
  show ?case
  proof (cases ev)
    case (Callback c fb)
    show ?thesis
    proof (cases c)
      case Service_callback
      obtain r2 eff2 s2 fs2 where c2: "service_callback env cfg (task_is_over cur) cur fb s fs = (r2, eff2, s2, fs2)"
        by (metis surj_pair)
      note h = held_callback [OF Cons.prems(1,2) c2]
      then have h2: "held s2 fs2" ..
      show ?thesis
        using Cons.prems(3) Cons.IH [OF h2 Cons.prems(2)] h Callback Service_callback c2
        by (auto split: sum.splits prod.splits)
    qed (use Cons Callback rest in auto)
  qed (use Cons rest in auto)
qed

lemma held_task:
  assumes "held s fs" "task_handler srt env cfg sts cur j s fs = (out, acts, s', fs')"
    "rbind (json_at j ''type'') get_int = Inr 1 \<Longrightarrow> kind j \<and> has_count j"
  shows "held s' fs'"
proof (cases "rbind (json_dump 4 j) (\<lambda>_. rbind (json_at j ''type'') get_int)")
  case (Inl e)
  with assms(1,2) show ?thesis by (simp add: task_handler_def)
next
  case (Inr ty)
  then have ty: "rbind (json_at j ''type'') get_int = Inr ty" by auto
  have d: "done_with x s1 fs1 = (out, acts, s', fs') \<Longrightarrow> s' = s1 \<and> fs' = fs1" for x s1 fs1
    by (auto simp: done_with_def split: sum.splits)
  show ?thesis
  proof (cases "ty = 1 \<or> ty = 2")
    case True
    then show ?thesis
    proof
      assume 1: "ty = 1"
      obtain r1 s1 fs1 where a: "add_timed_task env cfg j s fs = (r1, s1, fs1)" by (metis surj_pair)
      then have "held s1 fs1" using held_add [OF assms(1)] assms(3) ty 1 by blast
      with assms(2) Inr 1 a d show ?thesis
        by (auto simp: task_handler_def simp del: rbind_eq_Inr split: sum.splits dest!: d)
    next
      assume 2: "ty = 2"
      show ?thesis
      proof (cases "rbind (json_at j ''dest_task_id'') get_string")
        case (Inl e)
        with assms(1,2) Inr 2 show ?thesis by (simp add: task_handler_def del: rbind_eq_Inr)
      next
        case I: (Inr i)
        obtain r1 s1 fs1 where a: "del_timed_task env cfg i s fs = (r1, s1, fs1)" by (metis surj_pair)
        then have "held s1 fs1" using held_del [OF assms(1)] by blast
        with assms(2) Inr 2 I a show ?thesis
          by (auto simp: task_handler_def simp del: rbind_eq_Inr split: sum.splits dest!: d)
      qed
    qed
  next
    case False
    then have "s' = s \<and> fs' = fs"
      using assms(2) Inr by (auto simp: task_handler_def simp del: rbind_eq_Inr split: if_splits dest!: d)
    with assms(1) show ?thesis by simp
  qed
qed

lemma held_handler:
  assumes "held s fs" "adds_kind cfg kind m"
    "mqtt_msg_handler srt env cfg now sts cur m s fs = (out, acts, s', fs')"
  shows "held s' fs'"
proof -
  have e: "ending x s fs = (out, acts, s', fs') \<Longrightarrow> s' = s \<and> fs' = fs" for x
    by (auto simp: ending_def split: sum.splits)
  have t: "held s2 fs2" if "task_handler srt env cfg sts cur j s fs = (o2, a2, s2, fs2)"
    "json_parse_cstr (msg_payload m) = Inr j" "msg_topic m = c_str (service_task_topic cfg)" for j o2 a2 s2 fs2
    using held_task [OF assms(1) that(1)] assms(2) that(2,3) by (auto simp: adds_kind_def)
  show ?thesis
    using assms(1,3) by (auto simp: mqtt_msg_handler_def split: if_splits sum.splits prod.splits dest!: e intro: t)
qed

end

section \<open>The classes of the service\<close>

text \<open>
  Tasks the service can write: objects with an id and a cron expression that are strings and with text that
  prints.  Nothing is asked of the files, but that they can be written.
\<close>

definition writable :: "json \<Rightarrow> bool" where
  "writable t \<longleftrightarrow> is_object t \<and> json_good t \<and>
     (\<exists>i c. json_at t ''id'' = Inr (J_string i) \<and> json_at t ''cron'' = Inr (J_string c))"

definition can_store :: "environment \<Rightarrow> timed_set \<Rightarrow> file_system \<Rightarrow> bool" where
  "can_store env s fs \<longleftrightarrow> env_ok env"

lemma write_tasks_total:
  "env_ok env \<Longrightarrow> \<forall>t\<in>set ts. writable t \<Longrightarrow> \<exists>acc' fs'. write_tasks env cfg topic ts acc fs = (Inr (), acc', fs')"
proof (induction ts arbitrary: acc fs)
  case (Cons t ts)
  then obtain i c where ic: "json_at t ''id'' = Inr (J_string i)" "json_at t ''cron'' = Inr (J_string c)"
    by (auto simp: writable_def)
  have "json_good t" using Cons.prems(2) by (simp add: writable_def)
  then obtain d where "json_dump 4 t = Inr d" using json_good_dump by blast
  with ic Cons show ?case by (simp add: get_string_def Let_def env_ok_def)
qed simp

lemma update_file_total:
  assumes "env_ok env" "\<forall>t\<in>set (timed_task_list s). writable t"
  shows "\<exists>fs'. update_file env cfg s fs = (Inr (), fs')"
proof -
  obtain fs1 where fs1: "make_task_dir env fs = Inr fs1" using assms(1)
    by (cases "task_dir_exists fs") (auto simp: make_task_dir_def env_ok_def)
  obtain acc fs2 where "write_tasks env cfg (task_recv_topic s) (timed_task_list s) (cron_header (working_dir env)) fs1 =
      (Inr (), acc, fs2)"
    using write_tasks_total [OF assms] by blast
  with fs1 assms(1) show ?thesis by (simp add: update_file_def env_ok_def)
qed

lemma json_set_on_object:
  assumes "is_object t" "json_ok t" "json_set t k v = Inr t'"
  obtains m where "t = J_object m" "sm_inv m" "t' = J_object (sm_assign k v m)"
proof -
  from assms(1,2) obtain m where m: "t = J_object m" "sm_inv m" by (auto simp: is_object_def split: json.splits)
  with assms(3) have "t' = J_object (sm_assign k v m)" by simp
  with m that show thesis by blast
qed

lemma storable_set:
  assumes "storable t" "k = ''type'' \<or> k = ''executed_count''" "is_int32 i" "json_set t k (J_integer i) = Inr t'"
  shows "storable t'"
proof -
  have t: "is_object t" "json_ok t" "json_utf8 t" using assms(1) by (auto simp: storable_def)
  from json_set_on_object [OF t(1,2) assms(4)] obtain m where
    m: "t = J_object m" "sm_inv m" "t' = J_object (sm_assign k (J_integer i) m)" by blast
  have u: "utf8_valid k" using assms(2) by (auto simp: utf8_valid_ascii_string simp del: utf8_valid.simps)
  have "json_ok t'"
    using t(2) m is_int32_json_ok [OF assms(3)] set_sm_assign [of k "J_integer i" m] by fastforce
  moreover have "json_utf8 t'"
    using t(3) m u set_sm_assign [of k "J_integer i" m] by (fastforce simp del: utf8_valid.simps)
  ultimately show ?thesis using assms(1,2) m by (auto simp: storable_def is_object_def sm.lookup_assign)
qed

lemma writable_set:
  assumes "writable t" "k = ''type'' \<or> k = ''executed_count''" "is_int32 i" "json_set t k (J_integer i) = Inr t'"
  shows "writable t'"
proof -
  have t: "is_object t" "json_ok t" "json_good t" using assms(1) by (auto simp: writable_def json_good_def)
  from json_set_on_object [OF t(1,2) assms(4)] obtain m where
    m: "t = J_object m" "sm_inv m" "t' = J_object (sm_assign k (J_integer i) m)" by blast
  have "utf8_valid k" using assms(2) by (auto simp: utf8_valid_ascii_string simp del: utf8_valid.simps)
  moreover have "json_good (J_integer i)" using is_int32_json_ok [OF assms(3)] by (simp add: json_good_def)
  ultimately have "json_good t'" using json_good_set [OF assms(4) t(3)] by blast
  then show ?thesis using assms(1,2) m by (auto simp: writable_def is_object_def sm.lookup_assign)
qed

interpretation writable: timer_kind env cfg writable "can_store env" for env cfg
proof unfold_locales
  show "writable t \<Longrightarrow> valid_timed t" for t
    by (auto simp: writable_def valid_timed_def has_id_def json_good_def)
  show "writable t \<Longrightarrow> k = ''type'' \<or> k = ''executed_count'' \<Longrightarrow> is_int32 i \<Longrightarrow>
      json_set t k (J_integer i) = Inr t' \<Longrightarrow> writable t'" for t k i t'
    by (rule writable_set)
  show "can_store env s fs \<Longrightarrow> \<forall>t\<in>set ts. writable t \<Longrightarrow> distinct (map id_of ts) \<Longrightarrow>
      \<exists>fs'. update_file env cfg (with_list s ts) fs = (Inr (), fs') \<and> can_store env (with_list s ts) fs'" for s fs ts
    using update_file_total [of env "with_list s ts"] by (simp add: can_store_def)
qed

text \<open>
  Tasks the service can write and find again when it starts (\<open>storable\<close>): here the files are those an update has
  just written.
\<close>

definition written :: "environment \<Rightarrow> config_item \<Rightarrow> timed_set \<Rightarrow> file_system \<Rightarrow> bool" where
  "written env cfg s fs \<longleftrightarrow> env_ok env \<and> cron_file_path s = cron_path \<and>
     task_recv_topic s = service_task_topic cfg \<and> sm_inv (files fs) \<and>
     (\<exists>fs0. sm_inv (files fs0) \<and> update_file env cfg s fs0 = (Inr (), fs))"

lemma cron_path_apart: "take 13 cron_path \<noteq> ''./timed_task/''"
  by (simp add: cron_path_def)

interpretation restartable: timer_kind env cfg storable "written env cfg" for env cfg
proof unfold_locales
  show "storable t \<Longrightarrow> valid_timed t" for t
    by (auto simp: storable_def valid_timed_def has_id_def)
  show "storable t \<Longrightarrow> k = ''type'' \<or> k = ''executed_count'' \<Longrightarrow> is_int32 i \<Longrightarrow>
      json_set t k (J_integer i) = Inr t' \<Longrightarrow> storable t'" for t k i t'
    by (rule storable_set)
  show "written env cfg s fs \<Longrightarrow> \<forall>t\<in>set ts. storable t \<Longrightarrow> distinct (map id_of ts) \<Longrightarrow>
      \<exists>fs'. update_file env cfg (with_list s ts) fs = (Inr (), fs') \<and> written env cfg (with_list s ts) fs'" for s fs ts
    using update_file_ok [of env fs "with_list s ts" cfg] cron_path_apart by (fastforce simp: written_def)
qed

end
