(* ===== verification/ServiceControl.thy ===== *)
theory ServiceControl imports ServiceSystem "HOL-Library.Sublist" begin

text \<open>
  What the composed service guarantees about tasks: it refines the model of a single task, serves messages
  one at a time in their order, and forwards a real-time command only when no action of a task can be
  running.
\<close>

section \<open>While a message is served\<close>

text \<open>The message the handler is serving.\<close>

definition serves :: "system \<Rightarrow> mqtt_message option" where
  "serves y = (case hpc y of H_load m sts \<Rightarrow> Some m | H_do m acts \<Rightarrow> Some m | H_wait m acts \<Rightarrow> Some m | _ \<Rightarrow> None)"

text \<open>A stretch of an execution in which the handler goes on serving the same message.\<close>

inductive serving :: "world \<Rightarrow> mqtt_message \<Rightarrow> system \<Rightarrow> system \<Rightarrow> bool"
  for w :: world and m :: mqtt_message and y :: system where
  serving_refl: "serves y = Some m \<Longrightarrow> serving w m y y"
| serving_step: "serving w m y y1 \<Longrightarrow> system_step w y1 a y2 \<Longrightarrow> serves y2 = Some m \<Longrightarrow> serving w m y y2"

lemma serving_reach: "serving w m y y' \<Longrightarrow> system_reach w y \<Longrightarrow> system_reach w y'"
  by (induction rule: serving.induct) (auto intro: system_reach.step)

lemma run_turn_waiting: "run_turn pretty now turns s = Some s' \<Longrightarrow> waiting s' \<le> waiting s"
  by (cases "rpc s")
    (auto simp: run_turn_def Let_def set_status_def finish_action_effect split: if_splits)

lemma status_values:
  "run_inv s \<Longrightarrow> rpc s \<noteq> R_dead \<Longrightarrow>
   status_of s = INIT \<or> status_of s = EXECING \<or> status_of s = PAUSE \<or> status_of s = CANCEL \<or> status_of s = END"
  by (cases "rpc s") (auto simp: run_inv_def status_at_def)

section \<open>Real-time commands\<close>

text \<open>
  No action runs or can start before a new run begins: the task is empty, over or about to end.
\<close>

definition at_rest :: "run_state \<Rightarrow> bool" where
  "at_rest s \<longleftrightarrow> status_of s = INIT \<or> status_of s = CANCEL \<or> status_of s = END"

definition no_start :: "run_state \<Rightarrow> bool" where
  "no_start s \<longleftrightarrow> waiting s = 0 \<and> rpc s \<noteq> R_begin \<and> rpc s \<noteq> R_enter"

lemma no_start_runner:
  assumes "run_turn pretty now turns s = Some s'" "run_inv s" "no_start s"
  shows "no_start s'" "at_rest s \<Longrightarrow> at_rest s'"
proof -
  have m: "runner_move s (rpc s') (status_of s') (trail s')" by (rule run_turn_move(1) [OF assms(1)])
  have st: "status_at (rpc s) (status_of s)" using assms(2) by (simp add: run_inv_def)
  have "waiting s' = 0" using run_turn_waiting [OF assms(1)] assms(3) by (simp add: no_start_def)
  moreover have "rpc s' \<noteq> R_begin \<and> rpc s' \<noteq> R_enter"
    using m assms(3) by (cases "rpc s") (auto simp: runner_move_def no_start_def split: if_splits)
  ultimately show "no_start s'" by (simp add: no_start_def)
  show "at_rest s'" if "at_rest s"
    using m st that assms(3)
    by (cases "rpc s") (auto simp: runner_move_def no_start_def at_rest_def status_at_def split: if_splits)
qed

text \<open>What the handler of real-time commands has established at each of its points.\<close>

definition real_time_inv :: "world \<Rightarrow> mqtt_message \<Rightarrow> system \<Rightarrow> bool" where
  "real_time_inv w m y \<longleftrightarrow> crashed y \<or> (no_start (runs y) \<and>
     (let fw = forward (msg_topic m) (msg_payload m) 2 in case hpc y of
        H_load m' sts \<Rightarrow> (sts \<noteq> [] \<and> hd sts = END \<longrightarrow> at_rest (runs y))
      | H_do m' acts \<Rightarrow> acts = Control Call_cancel # fw \<or> (at_rest (runs y) \<and> set acts \<subseteq> set fw)
      | H_wait m' acts \<Rightarrow> acts = fw \<and>
          (at_rest (runs y) \<or> cpc (runs y) \<in> {C_cancel_req, C_cancel_stop, C_cancel_wait})
      | _ \<Rightarrow> True))"

lemma real_time_handled:
  assumes "msg_topic m \<in> set (map c_str (real_ctrl_forward_topics cfg))"
  shows "mqtt_msg_handler srt env cfg now sts cur m s fs = (Next_message, real_time_ctrl_handler (fst sts) m, s, fs)"
proof -
  have "c_str (heart_forward_topic cfg) \<notin> set (map c_str (real_ctrl_forward_topics cfg))"
    "c_str (direct_forward_topic cfg) \<notin> set (map c_str (real_ctrl_forward_topics cfg))"
    by (rule class_topics_real, simp add: class_topics_def)+
  with assms have "msg_topic m \<noteq> c_str (heart_forward_topic cfg)" "msg_topic m \<noteq> c_str (direct_forward_topic cfg)"
    by metis+
  with assms show ?thesis by (simp add: mqtt_msg_handler_def)
qed

lemma control_turn_rest:
  assumes "control_turn s = Some s'"
  shows "waiting s' = waiting s" "status_of s' = status_of s" "rpc s' = rpc s \<or> rpc s' = R_dead"
    "cpc s \<in> {C_cancel_req, C_cancel_stop, C_cancel_wait} \<Longrightarrow> rpc s' \<noteq> R_dead \<Longrightarrow>
       at_rest s' \<or> cpc s' \<in> {C_cancel_req, C_cancel_stop, C_cancel_wait}"
  using assms by (cases "cpc s"; auto simp: control_turn_def at_rest_def task_is_over_def split: if_splits)+

lemma real_time_inv_step:
  assumes "system_step w y a y'" "real_time_inv w m y" "serves y = Some m" "serves y' = Some m"
    "run_inv (runs y)" "rpc (runs y) = R_dead \<longrightarrow> crashed y"
    "msg_topic m \<in> set (map c_str (real_ctrl_forward_topics (w_cfg w)))"
  shows "real_time_inv w m y'"
proof -
  let ?fw = "forward (msg_topic m) (msg_payload m) 2"
  have al: "alive y" using assms(1) by (auto elim: system_step.cases)
  with assms(2) have inv: "no_start (runs y)" "\<And>m' sts. hpc y = H_load m' sts \<Longrightarrow> sts \<noteq> [] \<Longrightarrow> hd sts = END \<Longrightarrow> at_rest (runs y)"
    "\<And>m' acts. hpc y = H_do m' acts \<Longrightarrow> acts = Control Call_cancel # ?fw \<or> (at_rest (runs y) \<and> set acts \<subseteq> set ?fw)"
    "\<And>m' acts. hpc y = H_wait m' acts \<Longrightarrow> acts = ?fw \<and>
       (at_rest (runs y) \<or> cpc (runs y) \<in> {C_cancel_req, C_cancel_stop, C_cancel_wait})"
    by (auto simp: real_time_inv_def alive_def Let_def)
  have fw: "set ?fw \<subseteq> range Pub" by (auto simp: forward_def split: option.splits)
  from assms(1) show ?thesis
  proof (cases rule: system_step.cases)
    case (run now turns r out eff s' fs')
    note r = no_start_runner [OF run(4) assms(5) inv(1)]
    have "cpc r = cpc (runs y)" by (rule run_turn_move(2) [OF run(4)])
    with run r inv show ?thesis
      by (cases "hpc y") (auto simp: real_time_inv_def Let_def)
  next
    case (load m' sts)
    then show ?thesis using inv(1,2)
      by (cases sts) (auto simp: real_time_inv_def Let_def at_rest_def)
  next
    case (handle m' st1 st2 st3 now_ms out acts s' fs')
    have "m' = m" using assms(3) handle by (simp add: serves_def)
    then have "out = Next_message" "acts = (if st1 \<noteq> END then [Control Call_cancel] else []) @ ?fw"
      using handle(5) real_time_handled [OF assms(7)] by (auto simp: real_time_ctrl_handler_def)
    then show ?thesis using handle(2) inv(1) inv(2) [OF handle(4)]
      by (auto simp: real_time_inv_def Let_def after_handling_def)
  next
    case (control m' c acts)
    then have "acts = ?fw \<and> c = Call_cancel" using inv(3) [OF control(4)] fw by auto
    moreover have "at_rest (runs y) \<or> status_of (runs y) = EXECING \<or> status_of (runs y) = PAUSE"
      using status_values [OF assms(5)] assms(6) al by (auto simp: alive_def at_rest_def)
    ultimately show ?thesis using control inv(1)
      by (auto simp: real_time_inv_def Let_def control_start_def no_start_def at_rest_def)
  next
    case (wait m' acts r)
    note c = control_turn_rest [OF wait(5)]
    have "no_start r \<or> rpc r = R_dead" "at_rest r = at_rest (runs y)"
      using c(1-3) inv(1) by (auto simp: no_start_def at_rest_def)
    with wait c(4) inv(4) [OF wait(4)] show ?thesis by (auto simp: real_time_inv_def Let_def)
  next
    case (return m' acts)
    then show ?thesis using inv(1) inv(4) [OF return(4)] by (auto simp: real_time_inv_def Let_def)
  next
    case (publish m' e acts)
    then show ?thesis using inv(1) inv(3) [OF publish(4)] by (auto simp: real_time_inv_def Let_def)
  next
    case (assign m' t acts)
    then show ?thesis using inv(3) [OF assign(4)] fw by auto
  next
    case (install m' acts)
    then show ?thesis using inv(3) [OF install(4)] fw by auto
  next
    case (spawn m' acts)
    then show ?thesis using inv(3) [OF spawn(4)] fw by auto
  next
    case (charge m' acts turns j rb' es)
    then show ?thesis using inv(3) [OF charge(4)] fw by auto
  next
    case (charge_fails m' acts turns e rb' es)
    then show ?thesis by (simp add: real_time_inv_def)
  next
    case (clear m' acts)
    then show ?thesis using inv(3) [OF clear(4)] fw by auto
  next
    case (pop m' q)
    then show ?thesis using assms(3) by (simp add: serves_def)
  next
    case (finish m')
    then show ?thesis using assms(4) by (simp add: serves_def split: if_splits)
  next
    case (arrive topic p q)
    with assms(2) show ?thesis by (cases "hpc y") (simp_all add: real_time_inv_def)
  next
    case (arrive_empty topic e)
    then show ?thesis by (simp add: real_time_inv_def)
  qed
qed

lemma real_time_serving:
  assumes "serving w m y y'" "sorts_actions (w_sort w)" "system_reach w y" "real_time_inv w m y"
    "msg_topic m \<in> set (map c_str (real_ctrl_forward_topics (w_cfg w)))"
  shows "real_time_inv w m y' \<and> serves y' = Some m"
  using assms(1)
proof (induction rule: serving.induct)
  case (serving_refl)
  then show ?case using assms(4) by simp
next
  case (serving_step y1 a y2)
  have "system_inv w y1"
    using system_inv_reach [OF assms(2)] serving_reach [OF serving_step.hyps(1) assms(3)] by blast
  then have "run_inv (runs y1)" "rpc (runs y1) = R_dead \<longrightarrow> crashed y1"
    using run_reach_inv unfolding system_inv_def by blast+
  with real_time_inv_step [OF serving_step.hyps(2)] serving_step.IH serving_step.hyps(3) assms(5) show ?case by blast
qed

section \<open>Order of the messages\<close>

lemma taken_in_order: "system_reach w y \<Longrightarrow> subseq (taken y @ inbox y) (arrived y)"
proof (induction rule: system_reach.induct)
  case (start rb fs0 s fs)
  then show ?case by (simp add: start_system_def)
next
  case (step y a y')
  from step.hyps(2) step.IH show ?case
  proof (cases rule: system_step.cases)
    case (pop m q)
    then have "inbox y = m # q" by (auto simp: queue_tryPop_def split: list.splits)
    with pop step.IH show ?thesis by simp
  next
    case (arrive topic p q)
    then have "q = inbox y @ [\<lparr> msg_topic = topic, msg_payload = p \<rparr>]"
      by (simp add: message_callback_def queue_push_def)
    with arrive step.IH show ?thesis by (simp flip: append_assoc)
  next
    case (clear m acts)
    with step.IH show ?thesis by (auto intro: subseq_order.trans)
  qed (auto simp: after_handling_def Let_def split: serve_outcome.splits)
qed

section \<open>Properties\<close>

text \<open>
  C3. The service implements the task: in every reachable state of the composed service the task is in a
  reachable state of the model of running and controlling it, and each step of the service is for the task
  either no step or a step of one of its actors, of the runner exactly when a run thread moved.  So what
  holds of the task on its own holds of it in the service, and every task that is assigned is well formed
  and fresh whatever messages arrive.
\<close>

theorem service_refines_task:
  assumes "sorts_actions (w_sort w)" "system_reach w y" "system_step w y a y'"
  shows "run_reach (w_pretty w) (runs y) \<and>
    (runs y' = runs y \<or> (\<exists>b. task_step (w_pretty w) (runs y) b (runs y') \<and> (a = By_run \<longleftrightarrow> b = Runner)))"
  using system_inv_reach [OF assms(1,2)] system_step_simulates [OF assms(1,3)] by (auto simp: system_inv_def)

lemma service_refines_task_witness:
  "\<exists>y y'. system_reach demo_world y \<and> system_step demo_world y By_handler y' \<and> run_reach (\<lambda>_. []) (runs y)"
proof -
  let ?m = "\<lparr> msg_topic = [], msg_payload = [] \<rparr>"
  obtain y where y: "system_reach demo_world y" "hpc y = H_load ?m []" "alive y" using demo_loads by blast
  then have st: "system_step demo_world y By_handler (y\<lparr> hpc := H_load ?m ([] @ [status_of (runs y)]) \<rparr>)"
    by (intro system_step.load) simp_all
  from service_refines_task [OF _ y(1) st] y(1) st show ?thesis
    by (auto simp: sorts_sort_key)
qed



text \<open>
  C13. Messages are served one after the other in the order of their arrival: the messages taken so far and
  those still in the queue are a subsequence of the messages that arrived (the battery protection drops
  some), and the next message is taken only after the control functions the last one called have returned.
\<close>

theorem messages_in_order:
  assumes "sorts_actions (w_sort w)" "system_reach w y"
  shows "subseq (taken y @ inbox y) (arrived y) \<and> (hpc y = H_pop \<longrightarrow> cpc (runs y) = C_idle)"
  using taken_in_order [OF assms(2)] system_inv_reach [OF assms] by (auto simp: system_inv_def handler_inv_def)

lemma messages_in_order_witness:
  "\<exists>y m. system_reach demo_world y \<and> taken y = [m] \<and> subseq [m] (arrived y)"
proof -
  obtain y where y: "system_reach demo_world y" "taken y = [\<lparr> msg_topic = [], msg_payload = [] \<rparr>]"
    using demo_loads by blast
  have "subseq (taken y @ inbox y) (arrived y)"
    using messages_in_order [of demo_world y] y(1) sorts_sort_key by simp
  then have "subseq (taken y) (arrived y)" using subseq_order.trans by blast
  with y show ?thesis by metis
qed

end
