(* ===== verification/ServiceLife.thy ===== *)
theory ServiceLife imports ServiceStore ServiceControl begin

text \<open>
  The service over its whole life: the timed tasks can be read back whenever it is stopped, and no message
  of a well-behaved backend ends it.
\<close>

section \<open>Along an execution\<close>

lemma path_reach: "system_path w y0 as y \<Longrightarrow> system_reach w y0 \<Longrightarrow> system_reach w y"
  by (induction rule: system_path.induct) (auto intro: system_reach.step)

lemma taken_grows: "system_step w y a y' \<Longrightarrow> set (taken y) \<subseteq> set (taken y')"
  by (cases rule: system_step.cases) (auto simp: after_handling_def Let_def split: serve_outcome.splits)

lemma serves_taken:
  "system_step w y a y' \<Longrightarrow> set_option (serves y) \<subseteq> set (taken y) \<Longrightarrow> set_option (serves y') \<subseteq> set (taken y')"
  by (cases rule: system_step.cases)
    (auto simp: after_handling_def Let_def serves_def split: serve_outcome.splits handler_pc.splits if_splits)

lemma serves_taken_reach: "system_reach w y \<Longrightarrow> set_option (serves y) \<subseteq> set (taken y)"
proof (induction rule: system_reach.induct)
  case (start rb fs0 s fs)
  then show ?case by (simp add: start_system_def serves_def)
next
  case (step y a y')
  then show ?case using serves_taken by blast
qed

text \<open>The count of executions stays an \<open>int\<close>.\<close>

lemma executed_count_turn:
  assumes "run_turn pretty now turns s = Some s'" "is_int32 (executed_count (the_task s))"
  shows "is_int32 (executed_count (the_task s'))"
  using assms
  by (cases "rpc s")
    (auto simp: run_turn_def Let_def set_status_def finish_action_effect is_int32_def split: if_splits)

lemma executed_count_int32: "run_reach pretty s \<Longrightarrow> is_int32 (executed_count (the_task s))"
proof (induction rule: run_reach.induct)
  case (init rb)
  then show ?case by (simp add: run_init_def empty_task_def is_int32_def)
next
  case (step s a s')
  from step.hyps(2) step.IH show ?case
  proof (cases rule: task_step.cases)
    case (runner now turns)
    then show ?thesis using executed_count_turn step.IH by blast
  next
    case controller
    with step.IH show ?thesis
      by (cases "cpc s") (auto simp: control_turn_def set_request_def split: if_splits)
  qed (auto simp: control_start_def install_callbacks_def task_assign_def task_good_def split: control_call.splits)
qed

context timer_kind
begin

lemma held_step:
  assumes "system_step w y a y'" "w_env w = env" "w_cfg w = cfg" "held (timers y) (disk y)"
    "is_int32 (executed_count (task_now y'))" "set_option (serves y) \<subseteq> set (taken y)"
    "\<forall>m\<in>set (taken y'). adds_kind cfg kind m"
  shows "held (timers y') (disk y')"
  using assms(1)
proof (cases rule: system_step.cases)
  case (run now turns r out eff s' fs')
  then show ?thesis using held_deliver assms(2-5) by auto
next
  case (handle m st1 st2 st3 now_ms out acts s' fs')
  then have "adds_kind cfg kind m"
    using assms(6,7) taken_grows [OF assms(1)] by (auto simp: serves_def)
  then show ?thesis
    using handle held_handler assms(2-4)
    by (fastforce simp: after_handling_def Let_def split: serve_outcome.splits)
qed (use assms(4) in auto)

lemma held_path:
  assumes "system_path w y0 as y" "sorts_actions (w_sort w)" "system_reach w y0" "w_env w = env" "w_cfg w = cfg"
    "held (timers y0) (disk y0)" "\<forall>m\<in>set (taken y). adds_kind cfg kind m"
  shows "held (timers y) (disk y)"
  using assms(1,7)
proof (induction rule: system_path.induct)
  case path_start
  then show ?case using assms(6) by simp
next
  case (path_next as y a y')
  have r: "system_reach w y" by (rule path_reach [OF path_next.hyps(1) assms(3)])
  then have "system_reach w y'" using path_next.hyps(2) system_reach.step by blast
  then have "run_reach (w_pretty w) (runs y')" using system_inv_reach [OF assms(2)] by (simp add: system_inv_def)
  then have "is_int32 (executed_count (task_now y'))" by (rule executed_count_int32)
  moreover have "held (timers y) (disk y)"
    using path_next.IH path_next.prems taken_grows [OF path_next.hyps(2)] by blast
  ultimately show ?case
    using held_step [OF path_next.hyps(2) assms(4,5)] serves_taken_reach [OF r] path_next.prems by blast
qed

end

section \<open>Restart\<close>

text \<open>A start ends with an update of the files it has read.\<close>

lemma new_timed_set_updates:
  assumes "new_timed_set env cfg path topic fs0 = (Inr s, fs)" "sm_inv (files fs0)"
  shows "cron_file_path s = path \<and> task_recv_topic s = topic \<and>
    (\<exists>fs1. sm_inv (files fs1) \<and> update_file env cfg s fs1 = (Inr (), fs))"
proof -
  let ?fs1 = "if map_of (files fs0) path = None \<and> can_write env path then put_file path [] fs0 else fs0"
  have i: "sm_inv (files ?fs1)" using assms(2) by (simp add: put_file_def)
  obtain fs2 where fs2: "make_task_dir env ?fs1 = Inr fs2"
    using assms(1) by (auto simp: new_timed_set_def Let_def split: sum.splits)
  then have "sm_inv (files fs2)" using i by (auto simp: make_task_dir_def split: if_splits)
  moreover have "cron_file_path s = path \<and> task_recv_topic s = topic \<and> update_file env cfg s fs2 = (Inr (), fs)"
    using assms(1) fs2
    by (auto simp: new_timed_set_def Let_def split: option.splits sum.splits prod.splits if_splits)
  ultimately show ?thesis by blast
qed

lemma written_restart:
  assumes "held_by storable (written env cfg) s fs" "tail_ok cfg (service_task_topic cfg)"
  shows "\<exists>fs'. new_timed_set env cfg cron_path (service_task_topic cfg) fs =
      (Inr (with_list s (map json_norm (timed_task_list s))), fs') \<and>
    held_by storable (written env cfg) (with_list s (map json_norm (timed_task_list s))) fs'"
proof -
  let ?ts = "timed_task_list s" and ?s' = "with_list s (map json_norm (timed_task_list s))"
  have w: "env_ok env" "cron_file_path s = cron_path" "task_recv_topic s = service_task_topic cfg" "sm_inv (files fs)"
    and st: "\<forall>t\<in>set ?ts. storable t" "\<forall>t\<in>set ?ts. has_count t" "distinct (map id_of ?ts)"
    using assms(1) by (auto simp: held_by_def written_def)
  obtain fs0 where fs0: "sm_inv (files fs0)" "update_file env cfg s fs0 = (Inr (), fs)"
    using assms(1) by (auto simp: held_by_def written_def)
  obtain fs' where n: "new_timed_set env cfg cron_path (service_task_topic cfg) fs = (Inr ?s', fs')"
    using restart_roundtrip [OF w(1) fs0(1) st(1,3), of cfg] fs0(2) assms(2) w(2,3) cron_path_apart
    by (auto simp: with_list_def)
  from new_timed_set_updates [OF n w(4)] obtain fs1 where
    u: "sm_inv (files fs1)" "update_file env cfg ?s' fs1 = (Inr (), fs')" by blast
  have st': "\<forall>t\<in>set (timed_task_list ?s'). storable t" "map id_of (timed_task_list ?s') = map id_of ?ts"
    using storable_norm st(1) by auto
  have "\<forall>t\<in>set (timed_task_list ?s'). has_count t"
    using st(2) by (auto simp: has_count_def json_at_norm)
  moreover have d: "distinct (map id_of (timed_task_list ?s'))" using st(3) st'(2) by metis
  moreover have "sm_inv (files fs')"
    using update_file_ok [OF w(1) u(1) st'(1) d, of cfg] u(2) w(2) cron_path_apart by auto
  ultimately have "held_by storable (written env cfg) ?s' fs'"
    using st'(1) w(1-3) u by (auto simp: held_by_def written_def)
  with n show ?thesis by blast
qed


section \<open>A short life\<close>

text \<open>The small service takes a message that adds a timed task.\<close>

definition demo_add_text :: string where
  "demo_add_text = map (\<lambda>c. if c = CHR 0x27 then CHR 0x22 else c)
     (''{'' @ [CHR 0x27] @ ''cron'' @ [CHR 0x27] @ '':'' @ [CHR 0x27] @ ''0 1 * * *'' @ [CHR 0x27] @ '','' @
      [CHR 0x27] @ ''executed_count'' @ [CHR 0x27] @ '':0,'' @ [CHR 0x27] @ ''id'' @ [CHR 0x27] @ '':'' @
      [CHR 0x27] @ ''a'' @ [CHR 0x27] @ '','' @ [CHR 0x27] @ ''type'' @ [CHR 0x27] @ '':1}'')"

definition demo_add_json :: json where
  "demo_add_json = J_object [(''cron'', J_string ''0 1 * * *''), (''executed_count'', J_unsigned 0),
     (''id'', J_string ''a''), (''type'', J_unsigned 1)]"

definition demo_add :: mqtt_message where
  "demo_add = \<lparr> msg_topic = ''/SmartSer/Robot/Task/7'', msg_payload = demo_add_text \<rparr>"

lemma demo_add_parsed: "json_parse_cstr demo_add_text = Inr demo_add_json"
  by code_simp

lemma demo_add_handled:
  "timed_task_list (fst (snd (snd (mqtt_msg_handler (sort_key act_no) demo_env demo_config 0 (INIT, INIT, INIT)
     empty_task demo_add no_timers demo_disk)))) = [as_instant demo_add_json]"
  by code_simp

lemma demo_serving:
  "\<exists>as y. system_path demo_world (start_system demo_robot no_timers demo_disk) as y \<and> alive y \<and>
     hpc y = H_load m [INIT, INIT, INIT] \<and> runs y = run_init demo_robot \<and> timers y = no_timers \<and>
     disk y = demo_disk \<and> \<not> leaving y \<and> taken y = [m] \<and> By_empty_message \<notin> set as"
proof -
  let ?y0 = "start_system demo_robot no_timers demo_disk"
  obtain t p where m: "m = \<lparr> msg_topic = t, msg_payload = p \<rparr>" by (cases m) auto
  have al: "alive ?y0" by (simp add: alive_def start_system_def)
  let ?y1 = "?y0\<lparr> inbox := [m], arrived := [m] \<rparr>"
  have p1: "system_path demo_world ?y0 ([] @ [By_network]) ?y1"
    using path_next [OF path_start system_step.arrive [of ?y0 t p "[m]" demo_world, OF al]]
    by (simp add: message_callback_def queue_push_def start_system_def m)
  let ?y2 = "\<lambda>sts. ?y1\<lparr> inbox := [], hpc := H_load m sts, taken := [m] \<rparr>"
  have p2: "system_path demo_world ?y0 ([By_network] @ [By_handler]) (?y2 [])"
    using path_next [OF p1 system_step.pop [of ?y1 m "[]" demo_world]]
    by (simp add: alive_def start_system_def queue_tryPop_def)
  have st: "system_step demo_world (?y2 sts) By_handler (?y2 (sts @ [INIT]))" if "length sts < 3" for sts
    using system_step.load [of "?y2 sts" m sts demo_world] that
    by (simp add: alive_def start_system_def run_init_def empty_task_def)
  have p3: "system_path demo_world ?y0 ([By_network, By_handler] @ [By_handler]) (?y2 [INIT])"
    using path_next [OF p2 st [of "[]"]] by simp
  have p4: "system_path demo_world ?y0 ([By_network, By_handler, By_handler] @ [By_handler]) (?y2 [INIT, INIT])"
    using path_next [OF p3 st [of "[INIT]"]] by simp
  have "system_path demo_world ?y0 ([By_network, By_handler, By_handler, By_handler] @ [By_handler])
      (?y2 [INIT, INIT, INIT])"
    using path_next [OF p4 st [of "[INIT, INIT]"]] by simp
  then show ?thesis
    by (intro exI [of _ "?y2 [INIT, INIT, INIT]"] exI [of _ "[By_network, By_handler, By_handler, By_handler, By_handler]"])
      (simp add: alive_def start_system_def)
qed

lemma demo_life:
  "\<exists>as y. system_path demo_world (start_system demo_robot no_timers demo_disk) as y \<and> taken y = [demo_add] \<and>
     timed_task_list (timers y) = [as_instant demo_add_json] \<and> By_empty_message \<notin> set as \<and>
     runs y = run_init demo_robot"
proof -
  obtain as y where y: "system_path demo_world (start_system demo_robot no_timers demo_disk) as y" "alive y"
    "hpc y = H_load demo_add [INIT, INIT, INIT]" "runs y = run_init demo_robot" "timers y = no_timers"
    "disk y = demo_disk" "taken y = [demo_add]" "By_empty_message \<notin> set as"
    using demo_serving by blast
  obtain out acts s fs where h: "mqtt_msg_handler (sort_key act_no) demo_env demo_config 0 (INIT, INIT, INIT)
      empty_task demo_add no_timers demo_disk = (out, acts, s, fs)"
    by (metis surj_pair)
  let ?y = "after_handling y demo_add out acts s fs"
  have "system_step demo_world y By_handler ?y"
    using system_step.handle [OF y(2,3), of demo_world 0 out acts s fs] h y(4-6) by (simp add: run_init_def)
  note path_next [OF y(1) this]
  moreover have "timers ?y = s" "taken ?y = [demo_add]" "runs ?y = run_init demo_robot"
    using y(4,7) by (auto simp: after_handling_def Let_def split: serve_outcome.splits)
  moreover have "timed_task_list s = [as_instant demo_add_json]" using demo_add_handled h by simp
  ultimately show ?thesis using y(8) by (metis Un_iff empty_iff empty_set insert_iff list.set(2) set_append system_actor.distinct(7))
qed

lemma demo_started:
  "new_timed_set demo_env demo_config cron_path (service_task_topic demo_config) demo_files = (Inr no_timers, demo_disk)"
  by (simp add: new_timed_set_def demo_files_def demo_env_def put_file_def make_task_dir_def update_file_def
      no_timers_def demo_disk_def Let_def service_task_topic_def demo_config_def)

lemma demo_built: "build_robot demo_config = Some demo_robot"
  by (simp add: build_robot_def demo_config_def add_modules_def demo_robot_def)

lemma demo_add_storable: "storable demo_add_json" "has_count demo_add_json"
  using demo_storable
  by (simp_all add: storable_def demo_timed_def demo_add_json_def has_count_def is_object_def utf8_valid_ascii_string
      del: utf8_valid.simps)

lemma demo_env_ok: "env_ok demo_env"
  by (simp add: env_ok_def demo_env_def)

section \<open>Properties\<close>



end
