(* ===== verification/ServiceSurvival.thy ===== *)
theory ServiceSurvival imports ServiceLife begin

text \<open>
  No message of a well-behaved backend ends the service: the reports of the tasks always print, the callbacks
  find every timed task complete and the files can be written.
\<close>

section \<open>The reports of a run\<close>

definition task_texts :: "task \<Rightarrow> bool" where
  "task_texts t \<longleftrightarrow> utf8_valid (task_id t) \<and> (\<forall>x. task_remark t = Some x \<longrightarrow> utf8_valid x) \<and>
     (\<forall>x. task_tag t = Some x \<longrightarrow> utf8_valid x) \<and> (\<forall>a\<in>set (action_list t). action_good a)"

lemma task_good_texts: "task_good t \<Longrightarrow> task_texts t"
  by (simp add: task_good_def task_texts_def)

definition reports_ok :: "event list \<Rightarrow> bool" where
  "reports_ok evs \<longleftrightarrow> (\<forall>c fb. Callback c fb \<in> set evs \<longrightarrow> report_ok fb)"

lemma reports_ok_simps [simp]:
  "reports_ok []" "reports_ok (Effects es # evs) = reports_ok evs"
  "reports_ok (Callback c fb # evs) \<longleftrightarrow> report_ok fb \<and> reports_ok evs"
  by (auto simp: reports_ok_def)

lemma key_texts: "list_all utf8_valid [''action_no'', ''count'', ''remark'', ''result'', ''status'', ''tag'', ''task_id'', ''time'', ''type'']"
  by code_simp

lemma option_texts: "(\<forall>x. r = Some x \<longrightarrow> utf8_valid x) \<longleftrightarrow> pred_option utf8_valid r"
  by (cases r) simp_all

lemma report_ok_feedback:
  assumes "utf8_valid (task_id t)" "utf8_valid rslt" "pred_option utf8_valid rem" "pred_option utf8_valid tg"
  shows "report_ok (feedback now t no st rslt rem tg)"
proof -
  have o: "json_utf8 (optional_to_json rem)" "json_utf8 (optional_to_json tg)"
    using assms(3,4) by (cases rem; cases tg; simp add: optional_to_json_def)+
  show ?thesis
    using o assms(1,2) key_texts
    by (simp add: report_ok_def feedback_def json_set_def json_ref_def sm_emplace_def del: utf8_valid.simps)
qed

text \<open>What the control thread and the service leave alone in a task, and the run thread too.\<close>

lemma run_turn_texts:
  assumes "run_turn pretty now turns s = Some s'"
  shows "task_texts (the_task s') = task_texts (the_task s)"
  using assms
  by (cases "rpc s")
    (auto simp: run_turn_def Let_def set_status_def finish_action_effect task_texts_def split: if_splits)

lemma texts_reach: "run_reach pretty s \<Longrightarrow> task_texts (the_task s)"
proof (induction rule: run_reach.induct)
  case (init rb)
  then show ?case by (simp add: run_init_def empty_task_def task_texts_def)
next
  case (step s a s')
  from step.hyps(2) step.IH show ?case
  proof (cases rule: task_step.cases)
    case (runner now turns)
    then show ?thesis using run_turn_texts step.IH by blast
  next
    case controller
    with step.IH show ?thesis
      by (cases "cpc s") (auto simp: control_turn_def set_request_def task_texts_def split: if_splits)
  qed (auto simp: control_start_def install_callbacks_def task_assign_def task_good_def task_texts_def
      split: control_call.splits)
qed

lemma plain_texts: "list_all utf8_valid ['''', ''The task will start.'', ''The task will cancel.'',
   ''The task will pause.'', ''The action will exec'', ''The task is over.'',
   ''The number of tasks that can be executed is insufficient.'']"
  by code_simp

lemma dumped_result:
  assumes "json_good r" "r = J_null \<or> is_object r" "utf8_valid m"
  obtains r' t where "json_set r ''remark'' (J_string m) = Inr r'" "json_good r'" "json_dump 0 r' = Inr t" "utf8_valid t"
proof -
  have "\<exists>r'. json_set r ''remark'' (J_string m) = Inr r'"
    using assms by (cases r) (auto simp: json_set_def json_ref_def is_object_def split: option.splits)
  then obtain r' where r': "json_set r ''remark'' (J_string m) = Inr r'" by blast
  then have g: "json_good r'" using json_good_set [OF r' assms(1)] utf8_ascii_simps(1) assms(3) by auto
  then obtain t where t: "json_dump 0 r' = Inr t" using json_good_dump by blast
  with g have "utf8_valid t" by (auto simp: json_good_def intro: json_dump_utf8)
  with r' g t that show thesis by blast
qed

lemma handle_failure_reports:
  assumes "feedback_ok (static_feedback s)" "json_good r" "r = J_null \<or> is_object r"
    "e = Std_out_of_range \<or> action_exn e" "utf8_valid (task_id (the_task s))" "action_good act"
  shows "\<exists>evs. events (handle_failure now act i r e s) = events s @ evs \<and> reports_ok evs"
proof -
  obtain m where m: "failure_remark e = Some m" using assms(4) by (auto simp: action_exn_def)
  then have "utf8_valid m" by (rule utf8_ascii_simps(3))
  from dumped_result [OF assms(2,3) this] obtain r' t where
    "json_set r ''remark'' (J_string m) = Inr r'" "json_dump 0 r' = Inr t" "utf8_valid t" by metis
  then show ?thesis using assms(1,5,6)
    by (simp add: handle_failure_def m call_back_ok go_or_die_def go_def report_ok_feedback option_texts action_good_def
        del: utf8_valid.simps)
qed

lemma finish_action_reports:
  assumes "feedback_ok (static_feedback s)" "r = Inl Std_out_of_range \<or> result_good r"
    "utf8_valid (task_id (the_task s))" "action_good act"
  shows "\<exists>evs. events (finish_action now act i r s) = events s @ evs \<and> reports_ok evs"
proof (cases r)
  case (Inl e)
  with assms handle_failure_reports [OF assms(1), of J_null e] show ?thesis by (auto simp: finish_action_def)
next
  case (Inr x)
  then have x: "json_good x" "x = J_null \<or> is_object x" using assms(2) by auto
  from dumped_result [OF x utf8_ascii_simps(2)] obtain r' t where
    "json_set x ''remark'' (J_string ''Executed successfully'') = Inr r'" "json_dump 0 r' = Inr t" "utf8_valid t" by metis
  then show ?thesis using assms(1,3,4)
    by (simp add: finish_action_def Inr call_back_ok report_ok_feedback option_texts action_good_def del: utf8_valid.simps)
qed

lemma run_turn_reports:
  assumes "run_turn pretty now turns s = Some s'" "run_reach pretty s" "\<And>a. utf8_valid (pretty a)"
  shows "\<exists>evs. events s' = events s @ evs \<and> reports_ok evs"
proof -
  have i: "\<forall>i. loop_index (rpc s) = Some i \<longrightarrow> i < length (action_list (the_task s))"
    using run_reach_inv [OF assms(2)] by (simp add: run_inv_def)
  have fb: "feedback_ok (static_feedback s)" using survival_reach [OF assms(2,3)] by (simp add: survival_inv_def)
  have tx: "task_texts (the_task s)" by (rule texts_reach [OF assms(2)])
  show ?thesis
  proof (cases "\<exists>i. rpc s = R_action i")
    case True
    then obtain i where i': "rpc s = R_action i" by blast
    let ?act = "action_list (the_task s) ! i"
    from i' assms(1) obtain r rb' es where d: "dispatch pretty turns (the_robot s) (device_code ?act)
        (active_code ?act) (active_args ?act) = Some (r, rb', es)"
      and s': "s' = finish_action now ?act i r (s\<lparr> the_robot := rb', events := events s @ [Effects es] \<rparr>)"
      by (auto simp: run_turn_def Let_def)
    have "?act \<in> set (action_list (the_task s))" using i i' by (simp add: loop_index_def)
    then have a: "action_good ?act" using tx by (simp add: task_texts_def)
    then have "json_good (active_args ?act)" by (simp add: action_good_def)
    then have "r = Inl Std_out_of_range \<or> result_good r" using dispatch_good [OF d assms(3)] by blast
    from finish_action_reports [OF _ this _ a, of "s\<lparr> the_robot := rb', events := events s @ [Effects es] \<rparr>" now i] fb tx
    show ?thesis unfolding s' by (auto simp: task_texts_def)
  next
    case False
    have g: "action_good (action_list (the_task s) ! i)" if "i < length (action_list (the_task s))" for i
      using tx that by (simp add: task_texts_def)
    note t = tx [unfolded task_texts_def]
    note defs = run_turn_def Let_def call_back_ok go_or_die_def go_def set_status_def
    show ?thesis
    proof (cases "rpc s")
      case (R_exec k)
      with assms(1) [symmetric] fb t i plain_texts g [of k, unfolded action_good_def] show ?thesis
        by (simp add: defs loop_index_def report_ok_feedback option_texts del: utf8_valid.simps split: if_splits)
    qed (use False assms(1) [symmetric] fb t plain_texts in
      \<open>simp add: defs report_ok_feedback option_texts del: utf8_valid.simps split: if_splits; fail\<close>)+
  qed
qed


text \<open>Before the end of a task the callback only publishes; so no callback in the try block of \<open>run\<close> throws.\<close>

lemma deliver_unfinished:
  "\<not> task_is_over cur \<Longrightarrow> reports_ok evs \<Longrightarrow> \<exists>eff. deliver env cfg cur evs s fs = (Inr (), eff, s, fs)"
proof (induction evs)
  case (Cons ev evs)
  then obtain eff where e: "deliver env cfg cur evs s fs = (Inr (), eff, s, fs)" by (cases ev) auto
  show ?case
  proof (cases ev)
    case (Callback c fb)
    with Cons.prems(2) obtain r where r: "json_set fb ''type'' (J_integer 8) = Inr r" "json_utf8 r"
      by (auto simp: report_ok_def)
    obtain out where "json_dump 4 r = Inr out" using json_dump_total [OF r(2)] by blast
    with Callback r(1) e Cons.prems(1) show ?thesis by (cases c) (simp_all add: service_callback_def Let_def)
  qed (use e in simp)
qed simp

lemma deliver_running:
  assumes "run_reach pretty s" "rpc s = R_action i" "run_turn pretty now turns s = Some r" "\<And>a. utf8_valid (pretty a)"
  shows "\<exists>eff. deliver env cfg (the_task r) (drop (length (events s)) (events r)) ts fs = (Inr (), eff, ts, fs)"
proof -
  have "status_of s = EXECING" using run_reach_inv [OF assms(1)] assms(2) by (simp add: run_inv_def status_at_def)
  moreover have "status_of r = status_of s"
    using run_turn_move(1) [OF assms(3)] assms(2) by (simp add: runner_move_def)
  ultimately have "\<not> task_is_over (the_task r)" by (simp add: task_is_over_def)
  moreover obtain evs where "events r = events s @ evs" "reports_ok evs"
    using run_turn_reports [OF assms(3,1,4)] by blast
  ultimately show ?thesis using deliver_unfinished by simp
qed

section \<open>Harmless messages\<close>

text \<open>
  What the backend must not send: a timed task that is not complete, a heartbeat that is no object, a battery
  report that does not parse or is below the threshold (the charge that follows may throw).
\<close>

definition harmless :: "config_item \<Rightarrow> mqtt_message \<Rightarrow> bool" where
  "harmless cfg m \<longleftrightarrow> adds_kind cfg writable m \<and>
     (msg_topic m = c_str (heart_forward_topic cfg) \<longrightarrow>
       (\<exists>j. json_parse_cstr (msg_payload m) = Inr j \<and> (j = J_null \<or> is_object j))) \<and>
     (msg_topic m = c_str (robot_battery_recv_topic cfg) \<longrightarrow> battery_handler cfg m = Inr [])"

lemma heart_harmless:
  assumes "json_parse_cstr (msg_payload m) = Inr j" "j = J_null \<or> is_object j"
  shows "heart_handler now m \<in> range Inr"
proof -
  have g: "json_good j" using assms(1) json_good_parse by (auto simp: json_parse_cstr_def)
  have "\<exists>r. json_set j ''ts'' (J_integer now) = Inr r \<and> json_utf8 r"
    using assms(2)
  proof
    assume "j = J_null"
    moreover have "utf8_valid ''ts''" by code_simp
    ultimately show ?thesis by (simp add: json_set_def json_ref_def sm_emplace_def del: utf8_valid.simps)
  next
    assume o: "is_object j"
    then obtain x where j: "j = J_object x" by (auto simp: is_object_def split: json.splits)
    have "utf8_valid ''ts''" by code_simp
    with g show ?thesis
      unfolding j using set_sm_assign [of "''ts''" "J_integer now" x]
      by (fastforce simp: json_good_def simp del: utf8_valid.simps)
  qed
  then obtain r where r: "json_set j ''ts'' (J_integer now) = Inr r" "json_utf8 r" by blast
  obtain out where "json_dump 4 r = Inr out" using json_dump_total [OF r(2)] by blast
  with assms(1) r(1) show ?thesis by (simp add: heart_handler_def)
qed

definition charge_free :: "service_action list \<Rightarrow> bool" where
  "charge_free acts \<longleftrightarrow> Charge \<notin> set acts"

lemma charge_free_forward: "charge_free (forward t p q)"
  by (simp add: charge_free_def forward_def split: option.splits)

lemma charge_free_start:
  assumes "start_task srt cfg sts cur j = Inr acts"
  shows "charge_free acts"
proof -
  obtain st1 st2 st3 where [simp]: "sts = (st1, st2, st3)" by (cases sts) auto
  from start_task_cases [of srt cfg st1 st2 st3 cur j acts] assms show ?thesis
    by (auto simp: charge_free_def)
qed

lemma charge_free_task:
  assumes "task_handler srt env cfg sts cur j s fs = (out, acts, s', fs')"
  shows "charge_free acts"
proof (cases "rbind (json_dump 4 j) (\<lambda>_. rbind (json_at j ''type'') get_int)")
  case (Inl e)
  with assms show ?thesis by (auto simp: task_handler_def charge_free_def)
next
  case (Inr ty)
  have d: "done_with r s1 fs1 = (out, acts, s', fs') \<Longrightarrow> (\<And>as. r = Inr as \<Longrightarrow> charge_free as) \<Longrightarrow> charge_free acts"
    for r s1 fs1
    by (auto simp: done_with_def charge_free_def split: sum.splits)
  have "charge_free as" if "reply_for cfg j key st rem = Inr as" for key st rem as
    using reply_for_Inr [OF that] by (auto simp: charge_free_def)
  moreover have "charge_free as" if "rbind (json_set J_null ''type'' (J_integer 10)) (\<lambda>r.
             rbind (json_set r ''remark'' (J_string ''error message type'')) (\<lambda>r.
             rbind (json_dump 4 r) (\<lambda>txt. Inr [Pub (mqtt_pub (task_feedback_topic cfg) txt)]))) = Inr as" for as
    using that by (auto simp: charge_free_def)
  ultimately show ?thesis
    using assms Inr unfolding task_handler_def
    by (auto split: if_splits sum.splits prod.splits elim!: d intro: charge_free_start simp: charge_free_def [of "[]"]
        charge_free_def [of "[_]"] simp del: rbind_eq_Inr)
qed


lemma handler_harmless:
  assumes "env_ok env" "harmless cfg m"
    "mqtt_msg_handler srt env cfg now sts cur m s fs = (out, acts, s', fs')"
  shows "(\<forall>e. out \<noteq> Escaped e) \<and> charge_free acts"
proof -
  have e: "charge_free []" by (simp add: charge_free_def)
  have t: "(\<forall>x. (if caught_json ex then Next_message else Escaped ex) \<noteq> Escaped x) \<and> charge_free a"
    if "task_handler srt env cfg sts cur j s fs = (Inl ex, a, s1, fs1)" for j ex a s1 fs1
    using task_handler_exn [OF assms(1) that] action_exn_caught charge_free_task [OF that] by simp
  have p: "caught_json ex" if "json_parse_cstr q = Inl ex" for q ex
    using json_parse_exn that by (auto simp: json_parse_cstr_def intro: action_exn_caught)
  have h: "heart_handler now m \<in> range Inr" if "msg_topic m = c_str (heart_forward_topic cfg)"
    using heart_harmless [of m] assms(2) that by (auto simp: harmless_def)
  have f: "charge_free as" if "heart_handler now m = Inr as" for as
    using that charge_free_forward by (auto simp: heart_handler_def)
  have b: "battery_handler cfg m = Inr []" if "msg_topic m = c_str (robot_battery_recv_topic cfg)"
    using assms(2) that by (simp add: harmless_def)
  have r: "charge_free (real_time_ctrl_handler st m)" for st
    using charge_free_forward by (simp add: real_time_ctrl_handler_def charge_free_def)
  consider (heart) "msg_topic m = c_str (heart_forward_topic cfg)"
    | (task) j where "json_parse_cstr (msg_payload m) = Inr j" "msg_topic m \<noteq> c_str (heart_forward_topic cfg)"
        "(case task_handler srt env cfg sts cur j s fs of
            (Inr _, acts, s', fs') \<Rightarrow> (Next_message, acts, s', fs')
          | (Inl e, acts, s', fs') \<Rightarrow> (if caught_json e then Next_message else Escaped e, acts, s', fs')) = (out, acts, s', fs')"
    | (battery) "msg_topic m = c_str (robot_battery_recv_topic cfg)" "ending (battery_handler cfg m) s fs = (out, acts, s', fs')"
    | (other) "\<forall>e. out \<noteq> Escaped e" "acts = [] \<or> acts = forward (msg_topic m) (msg_payload m) 2 \<or>
        acts = real_time_ctrl_handler (fst sts) m"
    using assms(3) p [of "msg_payload m"] unfolding mqtt_msg_handler_def
    by (simp split: if_splits sum.splits)
  then show ?thesis
  proof cases
    case heart
    then obtain as where "heart_handler now m = Inr as" using h by auto
    with heart assms(3) f show ?thesis by (auto simp: mqtt_msg_handler_def ending_def)
  next
    case task
    then show ?thesis using t by (auto split: sum.splits prod.splits dest: charge_free_task)
  next
    case battery
    then show ?thesis using b e by (simp add: ending_def)
  next
    case other
    then show ?thesis using e r charge_free_forward by auto
  qed
qed

section \<open>Nothing else ends the service\<close>

definition surviving :: "world \<Rightarrow> system \<Rightarrow> bool" where
  "surviving w y \<longleftrightarrow> held_by writable (can_store (w_env w)) (timers y) (disk y) \<and>
     (\<forall>m acts. hpc y = H_do m acts \<or> hpc y = H_wait m acts \<longrightarrow> charge_free acts) \<and>
     (crashed y \<longrightarrow> executed_count (task_now y) = 2147483647)"

lemma dead_count:
  assumes "run_reach pretty r" "\<And>a. utf8_valid (pretty a)" "rpc r = R_dead"
  shows "executed_count (the_task r) = 2147483647"
  using survival_reach [OF assms(1,2)] assms(3) by (simp add: survival_inv_def)

lemma surviving_step:
  assumes "system_step w y a y'" "surviving w y" "a \<noteq> By_empty_message" "system_inv w y" "system_inv w y'"
    "set_option (serves y) \<subseteq> set (taken y)" "\<forall>m\<in>set (taken y'). harmless (w_cfg w) m" "env_ok (w_env w)"
    "\<And>a. utf8_valid (w_pretty w a)"
  shows "surviving w y'"
proof -
  have rr: "run_reach (w_pretty w) (runs y)" "run_reach (w_pretty w) (runs y')" using assms(4,5) by (simp_all add: system_inv_def)
  have "\<forall>m\<in>set (taken y'). adds_kind (w_cfg w) writable m" using assms(7) by (simp add: harmless_def)
  then have held: "held_by writable (can_store (w_env w)) (timers y') (disk y')"
    using writable.held_step [OF assms(1) refl refl _ executed_count_int32 [OF rr(2)] assms(6)] assms(2)
    by (simp add: surviving_def)
  have acts: "charge_free acts" if "hpc y = H_do m acts \<or> hpc y = H_wait m acts" for m acts
    using assms(2) that unfolding surviving_def by blast
  have tl: "charge_free acts" if "charge_free (x # acts)" for x acts using that by (simp add: charge_free_def)
  from assms(1) show ?thesis
  proof (cases rule: system_step.cases)
    case (run now turns r out eff s' fs')
    obtain evs where evs: "events r = events (runs y) @ evs" "reports_ok evs"
      using run_turn_reports [OF run(4) rr(1) assms(9)] by blast
    have "is_int32 (executed_count (the_task r))" using executed_count_int32 [OF rr(2)] run(2) by simp
    then have "out = Inr ()"
      using writable.held_deliver [of "w_env w" "timers y" "disk y" "the_task r" "w_cfg w" evs out eff s' fs']
        run(5) evs assms(2)
      by (simp add: surviving_def reports_ok_def)
    then show ?thesis using run(2) held acts dead_count [OF rr(2) assms(9)] by (auto simp: surviving_def)
  next
    case (handle m st1 st2 st3 now_ms out acts s' fs')
    have "harmless (w_cfg w) m"
      using assms(6,7) taken_grows [OF assms(1)] handle(4) by (auto simp: serves_def)
    note h = handler_harmless [OF assms(8) this handle(5)]
    then have "\<not> crashed y'" "\<forall>m acts. hpc y' = H_do m acts \<or> hpc y' = H_wait m acts \<longrightarrow> charge_free acts"
      using handle(2,3) by (auto simp: after_handling_def Let_def alive_def charge_free_def split: serve_outcome.splits)
    then show ?thesis using held by (simp add: surviving_def)
  next
    case (wait m acts r)
    then show ?thesis using held acts dead_count [OF rr(2) assms(9)] by (auto simp: surviving_def)
  next
    case (charge m acts turns j rb' es)
    then show ?thesis using acts [of m "Charge # acts"] by (simp add: charge_free_def)
  next
    case (charge_fails m acts turns e rb' es)
    then show ?thesis using acts [of m "Charge # acts"] by (simp add: charge_free_def)
  qed (use assms(3) held acts tl in \<open>auto simp: surviving_def alive_def\<close>)
qed


lemma surviving_path:
  assumes "system_path w y0 as y" "sorts_actions (w_sort w)" "system_reach w y0" "surviving w y0"
    "By_empty_message \<notin> set as" "\<forall>m\<in>set (taken y). harmless (w_cfg w) m" "env_ok (w_env w)"
    "\<And>a. utf8_valid (w_pretty w a)"
  shows "surviving w y"
  using assms(1,5,6)
proof (induction rule: system_path.induct)
  case path_start
  then show ?case using assms(4) by simp
next
  case (path_next as y a y')
  have r: "system_reach w y" by (rule path_reach [OF path_next.hyps(1) assms(3)])
  then have "system_reach w y'" using path_next.hyps(2) system_reach.step by blast
  then have i: "system_inv w y" "system_inv w y'" using r system_inv_reach [OF assms(2)] by blast+
  have "surviving w y"
    using path_next.IH path_next.prems taken_grows [OF path_next.hyps(2)] by auto
  moreover have "a \<noteq> By_empty_message" using path_next.prems(1) by auto
  ultimately show ?case
    using surviving_step [OF path_next.hyps(2) _ _ i serves_taken_reach [OF r] path_next.prems(2) assms(7,8)] by blast
qed

section \<open>Properties\<close>



end
