(* ===== verification/MqttClient.thy ===== *)
theory MqttClient imports JsonText begin

text \<open>
  What the client library (\<open>mosquitto-2.0.15/lib\<close>) checks before a publication or a subscription leaves the
  program: the topic, its encoding, the quality of service and the sizes (\<open>actions.c\<close>, \<open>util_topic.c\<close>,
  \<open>utf8_mosq.c\<close>).  A C string is the list of its bytes without the terminating NUL, \<open>None\<close> the null pointer.
  What happens after the checks (queues, sockets) is an argument.
\<close>

section \<open>Result codes\<close>

abbreviation "MOSQ_ERR_SUCCESS \<equiv> (0 :: int)"
abbreviation "MOSQ_ERR_INVAL \<equiv> (3 :: int)"
abbreviation "MOSQ_ERR_NO_CONN \<equiv> (4 :: int)"
abbreviation "MOSQ_ERR_PAYLOAD_SIZE \<equiv> (9 :: int)"
abbreviation "MOSQ_ERR_MALFORMED_UTF8 \<equiv> (18 :: int)"
abbreviation "MOSQ_ERR_QOS_NOT_SUPPORTED \<equiv> (24 :: int)"
abbreviation "MOSQ_ERR_OVERSIZE_PACKET \<equiv> (25 :: int)"

section \<open>Topics\<close>

text \<open>The loops return the length counted, None on a wildcard out of place.\<close>

fun pub_topic_loop :: "string \<Rightarrow> int \<Rightarrow> int option" where
  "pub_topic_loop [] len = Some len"
| "pub_topic_loop (x # xs) len =
     (if x = CHR ''+'' \<or> x = CHR ''#'' then None else pub_topic_loop xs (len + 1))"

definition mosquitto_pub_topic_check :: "string option \<Rightarrow> int" where
  "mosquitto_pub_topic_check str = (case str of
      None \<Rightarrow> MOSQ_ERR_INVAL
    | Some s \<Rightarrow> (case pub_topic_loop s 0 of
         None \<Rightarrow> MOSQ_ERR_INVAL
       | Some len \<Rightarrow> if 65535 < len then MOSQ_ERR_INVAL else MOSQ_ERR_SUCCESS))"

text \<open>\<open>c\<close> is the byte before, NUL at the start; after the last byte comes the terminating NUL.\<close>

fun sub_topic_loop :: "char \<Rightarrow> string \<Rightarrow> int \<Rightarrow> int option" where
  "sub_topic_loop c [] len = Some len"
| "sub_topic_loop c (x # xs) len =
     (if x = CHR ''+'' then
        (if (c \<noteq> CHR 0x00 \<and> c \<noteq> CHR ''/'') \<or> (xs \<noteq> [] \<and> hd xs \<noteq> CHR ''/'') then None
         else sub_topic_loop x xs (len + 1))
      else if x = CHR ''#'' then
        (if (c \<noteq> CHR 0x00 \<and> c \<noteq> CHR ''/'') \<or> xs \<noteq> [] then None else sub_topic_loop x xs (len + 1))
      else sub_topic_loop x xs (len + 1))"

definition mosquitto_sub_topic_check :: "string option \<Rightarrow> int" where
  "mosquitto_sub_topic_check str = (case str of
      None \<Rightarrow> MOSQ_ERR_INVAL
    | Some s \<Rightarrow> (case sub_topic_loop CHR 0x00 s 0 of
         None \<Rightarrow> MOSQ_ERR_INVAL
       | Some len \<Rightarrow> if 65535 < len then MOSQ_ERR_INVAL else MOSQ_ERR_SUCCESS))"

section \<open>UTF-8\<close>

text \<open>
  The first byte of a sequence: its length and the bits it contributes; masks of leading bits are comparisons
  of \<open>div\<close>, masks of trailing bits are \<open>mod\<close>.
\<close>

definition mqtt_lead :: "nat \<Rightarrow> (nat \<times> nat) option" where
  "mqtt_lead b =
     (if b = 0 then None
      else if b \<le> 0x7F then Some (1, b)
      else if b div 32 = 6 then (if b = 0xC0 \<or> b = 0xC1 then None else Some (2, b mod 32))
      else if b div 16 = 14 then Some (3, b mod 16)
      else if b div 8 = 30 then (if 0xF4 < b then None else Some (4, b mod 8))
      else None)"

text \<open>The continuation bytes; the terminating NUL is not one.\<close>

fun mqtt_continue :: "nat \<Rightarrow> nat \<Rightarrow> string \<Rightarrow> (nat \<times> string) option" where
  "mqtt_continue 0 cp s = Some (cp, s)"
| "mqtt_continue (Suc n) cp [] = None"
| "mqtt_continue (Suc n) cp (c # cs) =
     (if ord c div 64 \<noteq> 2 then None else mqtt_continue n (cp * 64 + ord c mod 64) cs)"

text \<open>The checks on the reconstructed code point: surrogates, overlong, non-characters, control characters.\<close>

definition mqtt_codepoint_bad :: "nat \<Rightarrow> nat \<Rightarrow> bool" where
  "mqtt_codepoint_bad codelen cp \<longleftrightarrow>
     (0xD800 \<le> cp \<and> cp \<le> 0xDFFF) \<or>
     (codelen = 3 \<and> cp < 0x800) \<or>
     (codelen = 4 \<and> (cp < 0x10000 \<or> 0x10FFFF < cp)) \<or>
     (0xFDD0 \<le> cp \<and> cp \<le> 0xFDEF) \<or>
     cp mod 65536 = 0xFFFE \<or> cp mod 65536 = 0xFFFF \<or>
     cp \<le> 0x1F \<or> (0x7F \<le> cp \<and> cp \<le> 0x9F)"

lemma mqtt_continue_length: "mqtt_continue n cp s = Some (cp', r) \<Longrightarrow> length r + n = length s"
  by (induction n cp s rule: mqtt_continue.induct) (auto split: if_splits)

function mqtt_utf8_loop :: "string \<Rightarrow> int" where
  "mqtt_utf8_loop [] = MOSQ_ERR_SUCCESS"
| "mqtt_utf8_loop (c # cs) = (case mqtt_lead (ord c) of
      None \<Rightarrow> MOSQ_ERR_MALFORMED_UTF8
    | Some (codelen, cp) \<Rightarrow>
        if length (c # cs) + 1 = codelen then MOSQ_ERR_MALFORMED_UTF8
        else (case mqtt_continue (codelen - 1) cp cs of
            None \<Rightarrow> MOSQ_ERR_MALFORMED_UTF8
          | Some (cp', r) \<Rightarrow> if mqtt_codepoint_bad codelen cp' then MOSQ_ERR_MALFORMED_UTF8 else mqtt_utf8_loop r))"
  by pat_completeness auto
termination
  by (relation "measure length") (auto dest: mqtt_continue_length)

definition mosquitto_validate_utf8 :: "string option \<Rightarrow> int \<Rightarrow> int" where
  "mosquitto_validate_utf8 str len = (case str of
      None \<Rightarrow> MOSQ_ERR_INVAL
    | Some s \<Rightarrow> if len < 0 \<or> 65536 < len then MOSQ_ERR_INVAL else mqtt_utf8_loop s)"

section \<open>The calls\<close>

text \<open>
  The fields of a client the checks read: whether a socket is open, the limits the broker announced (the maximum
  packet size is 0 when it announced none).
\<close>

record mosq_client =
  sock_open :: bool
  max_qos :: int
  maximum_packet_size :: int

definition packet_varint_bytes :: "int \<Rightarrow> int" where
  "packet_varint_bytes word =
     (if word < 128 then 1 else if word < 16384 then 2 else if word < 2097152 then 3
      else if word < 268435456 then 4 else 5)"

definition packet_check_oversize :: "mosq_client \<Rightarrow> int \<Rightarrow> int" where
  "packet_check_oversize m remaining =
     (if maximum_packet_size m = 0 then MOSQ_ERR_SUCCESS
      else if maximum_packet_size m < remaining + packet_varint_bytes remaining then MOSQ_ERR_OVERSIZE_PACKET
      else MOSQ_ERR_SUCCESS)"

text \<open>
  \<open>mosquitto_publish\<close>, that is \<open>mosquitto_publish_v5\<close> without properties; \<open>send\<close> is what sending or queueing the
  message returns.
\<close>

definition mosquitto_publish :: "mosq_client \<Rightarrow> string option \<Rightarrow> int \<Rightarrow> int \<Rightarrow> int \<Rightarrow> int" where
  "mosquitto_publish m topic payloadlen qos send =
     (if qos < 0 \<or> 2 < qos then MOSQ_ERR_INVAL
      else if max_qos m < qos then MOSQ_ERR_QOS_NOT_SUPPORTED
      else case topic of
        None \<Rightarrow> MOSQ_ERR_INVAL
      | Some t \<Rightarrow>
          if t = [] then MOSQ_ERR_INVAL
          else let tlen = int (length t) in
          if mosquitto_validate_utf8 (Some t) tlen \<noteq> 0 then MOSQ_ERR_MALFORMED_UTF8
          else if payloadlen < 0 \<or> 268435455 < payloadlen then MOSQ_ERR_PAYLOAD_SIZE
          else if mosquitto_pub_topic_check (Some t) \<noteq> MOSQ_ERR_SUCCESS then MOSQ_ERR_INVAL
          else if 0 < maximum_packet_size m
             \<and> packet_check_oversize m (1 + 2 + tlen + payloadlen + (if 0 < qos then 1 else 0)) \<noteq> 0
          then MOSQ_ERR_OVERSIZE_PACKET
          else send)"

text \<open>\<open>mosquitto_subscribe\<close>, that is \<open>mosquitto_subscribe_multiple\<close> for one topic without options and properties.\<close>

definition mosquitto_subscribe :: "mosq_client \<Rightarrow> string \<Rightarrow> int \<Rightarrow> int \<Rightarrow> int" where
  "mosquitto_subscribe m sub qos send =
     (if qos < 0 \<or> 2 < qos then MOSQ_ERR_INVAL
      else if \<not> sock_open m then MOSQ_ERR_NO_CONN
      else if mosquitto_sub_topic_check (Some sub) \<noteq> 0 then MOSQ_ERR_INVAL
      else if mosquitto_validate_utf8 (Some sub) (int (length sub)) \<noteq> 0 then MOSQ_ERR_MALFORMED_UTF8
      else if 0 < maximum_packet_size m \<and> packet_check_oversize m (2 + int (length sub) + 1 + 2) \<noteq> 0
      then MOSQ_ERR_OVERSIZE_PACKET
      else send)"

section \<open>Encodings\<close>

text \<open>The characters an MQTT string may hold: no surrogates, no non-characters, no control characters.\<close>

definition mqtt_character :: "nat \<Rightarrow> bool" where
  "mqtt_character cp \<longleftrightarrow> 0x1F < cp \<and> cp \<le> 0x10FFFF \<and> \<not> (0x7F \<le> cp \<and> cp \<le> 0x9F) \<and>
     \<not> (0xD800 \<le> cp \<and> cp \<le> 0xDFFF) \<and> \<not> (0xFDD0 \<le> cp \<and> cp \<le> 0xFDEF) \<and>
     cp mod 65536 \<noteq> 0xFFFE \<and> cp mod 65536 \<noteq> 0xFFFF"

definition mqtt_text :: "string \<Rightarrow> bool" where
  "mqtt_text s \<longleftrightarrow> (\<exists>cps. s = concat (map encode_codepoint cps) \<and> (\<forall>cp\<in>set cps. mqtt_character cp))"

lemma div_mod_shift: "x < (m :: nat) \<Longrightarrow> (k * m + x) div m = k \<and> (k * m + x) mod m = x"
  by simp

text \<open>Every allowed character passes, and the loop goes on behind it.\<close>

lemma encoded_passes:
  assumes "mqtt_character cp"
  shows "mqtt_utf8_loop (encode_codepoint cp @ s) = mqtt_utf8_loop s"
proof -
  have bad: "\<not> mqtt_codepoint_bad k cp" if "k = 3 \<longrightarrow> 0x800 \<le> cp" "k = 4 \<longrightarrow> 0x10000 \<le> cp" for k
    using assms that by (auto simp: mqtt_character_def mqtt_codepoint_bad_def)
  have cp: "cp \<le> 0x10FFFF" "0x1F < cp" using assms by (simp_all add: mqtt_character_def)
  have m: "x mod 64 < (64 :: nat)" for x by simp
  have o: "ord (char_of n) = n" if "n < 256" for n :: nat using that by simp
  have c: "ord (char_of (0x80 + x mod 64)) div 64 = 2" "ord (char_of (0x80 + x mod 64)) mod 64 = x mod 64" for x :: nat
  proof -
    have "(x mod 64 + 128) div 64 = 2" "(x mod 64 + 128) mod 64 = x mod 64"
      using div_mult_self1 [of 64 "x mod 64" 2] mod_mult_self1 [of "x mod 64" 2 64] m [of x] by simp_all
    moreover have "ord (char_of (0x80 + x mod 64)) = x mod 64 + 128" using m [of x] by (subst o) simp_all
    ultimately show "ord (char_of (0x80 + x mod 64)) div 64 = 2" "ord (char_of (0x80 + x mod 64)) mod 64 = x mod 64"
      by (simp_all only:)
  qed
  consider "cp < 0x80" | "0x80 \<le> cp" "cp \<le> 0x7FF" | "0x7FF < cp" "cp \<le> 0xFFFF" | "0xFFFF < cp"
    by linarith
  then show ?thesis
  proof cases
    case 1
    then have "mqtt_lead (ord (char_of cp)) = Some (1, cp)" using cp by (simp add: mqtt_lead_def o)
    then show ?thesis using 1 bad [of 1] by (simp add: encode_codepoint_def)
  next
    case 2
    define l where "l = cp div 64"
    have l: "2 \<le> l" "l < 32" using 2 by (simp_all add: l_def)
    then have "mqtt_lead (ord (char_of (0xC0 + l))) = Some (2, l)"
      using div_mod_shift [of l 32 6] by (simp add: mqtt_lead_def o)
    moreover have "l * 64 + cp mod 64 = cp" by (simp add: l_def)
    ultimately show ?thesis using 2 bad [of 2] c
      by (simp add: encode_codepoint_def numeral_2_eq_2 flip: l_def)
  next
    case 3
    define l where "l = cp div 4096"
    have l: "l < 16" using 3 by (simp add: l_def)
    then have "mqtt_lead (ord (char_of (0xE0 + l))) = Some (3, l)"
      using div_mod_shift [of l 32 7] div_mod_shift [of l 16 14] by (simp add: mqtt_lead_def o)
    moreover have "(l * 64 + cp div 64 mod 64) * 64 + cp mod 64 = cp"
      using div_mult_mod_eq [of "cp div 64" 64] div_mult_mod_eq [of cp 64] div_mult2_eq [of cp 64 64] by (simp add: l_def)
    ultimately show ?thesis using 3 bad [of 3] c
      by (simp add: encode_codepoint_def numeral_3_eq_3 flip: l_def)
  next
    case 4
    define l where "l = cp div 262144"
    have l: "l < 5" using cp by (simp add: l_def)
    then have lead: "mqtt_lead (ord (char_of (0xF0 + l))) = Some (4, l)"
      using div_mod_shift [of "16 + l" 32 7] div_mod_shift [of l 16 15] div_mod_shift [of l 8 30]
      by (simp add: mqtt_lead_def o)
    have "((l * 64 + cp div 4096 mod 64) * 64 + cp div 64 mod 64) * 64 + cp mod 64 = cp"
      using div_mult_mod_eq [of "cp div 4096" 64] div_mult_mod_eq [of "cp div 64" 64] div_mult_mod_eq [of cp 64]
        div_mult2_eq [of cp 64 64] div_mult2_eq [of cp 4096 64] by (simp add: l_def)
    then have "mqtt_continue 3 l (char_of (0x80 + cp div 4096 mod 64) # char_of (0x80 + cp div 64 mod 64) #
        char_of (0x80 + cp mod 64) # s) = Some (cp, s)"
      using c by (simp add: numeral_3_eq_3)
    with lead show ?thesis using 4 bad [of 4]
      by (simp add: encode_codepoint_def flip: l_def)
  qed
qed

text \<open>Conversely, what passes one round of the loop is the encoding of an allowed character.\<close>

lemma char_of_div: "char_of (m * (ord c div m) + ord c mod m) = c"
  by simp

lemma mqtt_continue_step:
  assumes "mqtt_continue (Suc n) cp s = Some (cp', r)"
  obtains y s' where "y < 64" "s = char_of (128 + y) # s'" "mqtt_continue n (cp * 64 + y) s' = Some (cp', r)"
proof -
  from assms obtain c cs where s: "s = c # cs" "ord c div 64 = 2" "mqtt_continue n (cp * 64 + ord c mod 64) cs = Some (cp', r)"
    by (cases s) (auto split: if_splits)
  have "c = char_of (128 + ord c mod 64)" using char_of_div [of 64 c] s(2) by simp
  with s show thesis by (intro that [of "ord c mod 64"]) simp_all
qed

lemma round_encodes:
  assumes "mqtt_lead (ord c) = Some (k, cp)" "mqtt_continue (k - 1) cp cs = Some (cp', r)" "\<not> mqtt_codepoint_bad k cp'"
  shows "c # cs = encode_codepoint cp' @ r \<and> mqtt_character cp'"
proof -
  have bad: "mqtt_character cp'" if "cp' \<le> 0x10FFFF"
    using assms(3) that by (auto simp: mqtt_codepoint_bad_def mqtt_character_def not_le)
  from assms(1) consider "k = 1" "cp = ord c" "ord c \<le> 0x7F"
    | "k = 2" "cp = ord c mod 32" "ord c div 32 = 6" "ord c \<noteq> 0xC0" "ord c \<noteq> 0xC1"
    | "k = 3" "cp = ord c mod 16" "ord c div 16 = 14"
    | "k = 4" "cp = ord c mod 8" "ord c div 8 = 30"
    unfolding mqtt_lead_def by (auto split: if_split_asm)
  then show ?thesis
  proof cases
    case 1
    with assms(2) show ?thesis using bad by (auto simp: encode_codepoint_def)
  next
    case 2
    have "mqtt_continue (Suc 0) cp cs = Some (cp', r)" using assms(2) 2(1) by simp
    then obtain y s' where y: "y < 64" "cs = char_of (128 + y) # s'" "mqtt_continue 0 (cp * 64 + y) s' = Some (cp', r)"
      by (rule mqtt_continue_step)
    have c: "c = char_of (192 + cp)" "cp < 32" using char_of_div [of 32 c] 2 by simp_all
    have "2 \<le> cp"
    proof (rule ccontr)
      assume "\<not> 2 \<le> cp"
      then have "cp = 0 \<or> cp = 1" by linarith
      then show False using 2(4,5) c(1) by auto
    qed
    moreover have "cp' = cp * 64 + y" "s' = r" using y(3) by simp_all
    moreover have "(cp * 64 + y) div 64 = cp" "(cp * 64 + y) mod 64 = y" using div_mod_shift [OF y(1), of cp] by simp_all
    ultimately show ?thesis using bad y c by (simp add: encode_codepoint_def)
  next
    case 3
    have "mqtt_continue (Suc (Suc 0)) cp cs = Some (cp', r)" using assms(2) 3(1) by (simp add: numeral_2_eq_2)
    then obtain y s' where y: "y < 64" "cs = char_of (128 + y) # s'" "mqtt_continue (Suc 0) (cp * 64 + y) s' = Some (cp', r)"
      by (rule mqtt_continue_step)
    from y(3) obtain z s'' where z: "z < 64" "s' = char_of (128 + z) # s''" "mqtt_continue 0 ((cp * 64 + y) * 64 + z) s'' = Some (cp', r)"
      by (rule mqtt_continue_step)
    have c: "c = char_of (224 + cp)" "cp < 16" using char_of_div [of 16 c] 3 by simp_all
    have cp': "cp' = (cp * 64 + y) * 64 + z" "s'' = r" using z(3) by simp_all
    have "cp' div 64 = cp * 64 + y" "cp' mod 64 = z" using div_mod_shift [OF z(1), of "cp * 64 + y"] cp'(1) by simp_all
    moreover have "cp' div 4096 = cp' div 64 div 64" by (simp add: div_mult2_eq [symmetric])
    moreover have "(cp * 64 + y) div 64 = cp" "(cp * 64 + y) mod 64 = y" using div_mod_shift [OF y(1), of cp] by simp_all
    moreover have "0x800 \<le> cp'" using assms(3) 3(1) by (simp add: mqtt_codepoint_bad_def)
    moreover have "cp' \<le> 0xFFFF"
    proof -
      have "cp * 4096 \<le> 15 * 4096" "y * 64 \<le> 63 * 64" "z \<le> 63" using c(2) y(1) z(1) by simp_all
      then show ?thesis unfolding cp'(1) by simp
    qed
    ultimately show ?thesis using bad y(2) z(2) c(1) cp'(2) by (simp add: encode_codepoint_def)
  next
    case 4
    have "mqtt_continue (Suc (Suc (Suc 0))) cp cs = Some (cp', r)" using assms(2) 4(1) by (simp add: numeral_3_eq_3)
    then obtain y s' where y: "y < 64" "cs = char_of (128 + y) # s'" "mqtt_continue (Suc (Suc 0)) (cp * 64 + y) s' = Some (cp', r)"
      by (rule mqtt_continue_step)
    from y(3) obtain z s'' where z: "z < 64" "s' = char_of (128 + z) # s''" "mqtt_continue (Suc 0) ((cp * 64 + y) * 64 + z) s'' = Some (cp', r)"
      by (rule mqtt_continue_step)
    from z(3) obtain w t where w: "w < 64" "s'' = char_of (128 + w) # t" "mqtt_continue 0 (((cp * 64 + y) * 64 + z) * 64 + w) t = Some (cp', r)"
      by (rule mqtt_continue_step)
    have c: "c = char_of (240 + cp)" "cp < 8" using char_of_div [of 8 c] 4 by simp_all
    have cp': "cp' = ((cp * 64 + y) * 64 + z) * 64 + w" "t = r" using w(3) by simp_all
    have "cp' div 64 = (cp * 64 + y) * 64 + z" "cp' mod 64 = w"
      using div_mod_shift [OF w(1), of "(cp * 64 + y) * 64 + z"] cp'(1) by simp_all
    moreover have "cp' div 4096 = cp' div 64 div 64" "cp' div 262144 = cp' div 64 div 64 div 64"
      by (simp_all add: div_mult2_eq [symmetric])
    moreover have "((cp * 64 + y) * 64 + z) div 64 = cp * 64 + y" "((cp * 64 + y) * 64 + z) mod 64 = z"
      "(cp * 64 + y) div 64 = cp" "(cp * 64 + y) mod 64 = y"
      using div_mod_shift [OF z(1), of "cp * 64 + y"] div_mod_shift [OF y(1), of cp] by simp_all
    moreover have "0x10000 \<le> cp'" "cp' \<le> 0x10FFFF" using assms(3) 4(1) by (simp_all add: mqtt_codepoint_bad_def)
    ultimately show ?thesis using bad y(2) z(2) w(2) c(1) cp'(2) by (simp add: encode_codepoint_def)
  qed
qed

lemma mqtt_utf8_loop_text: "mqtt_utf8_loop s = 0 \<longleftrightarrow> mqtt_text s"
proof
  show "mqtt_text s" if "mqtt_utf8_loop s = 0"
    using that
  proof (induction s rule: mqtt_utf8_loop.induct)
    case 1
    show ?case by (auto simp: mqtt_text_def intro: exI [of _ "[]"])
  next
    case (2 c cs)
    from "2.prems" obtain k cp cp' r where st: "mqtt_lead (ord c) = Some (k, cp)" "length (c # cs) + 1 \<noteq> k"
      "mqtt_continue (k - 1) cp cs = Some (cp', r)" "\<not> mqtt_codepoint_bad k cp'" "mqtt_utf8_loop r = 0"
      by (auto split: option.splits if_splits)
    then have "mqtt_text r" using "2.IH" by blast
    then obtain cps where cps: "r = concat (map encode_codepoint cps)" "\<forall>cp\<in>set cps. mqtt_character cp"
      by (auto simp: mqtt_text_def)
    have "c # cs = encode_codepoint cp' @ r \<and> mqtt_character cp'" by (rule round_encodes [OF st(1,3,4)])
    with cps show ?case unfolding mqtt_text_def by (intro exI [of _ "cp' # cps"]) simp
  qed
  have "mqtt_utf8_loop (concat (map encode_codepoint cps)) = 0" if "\<forall>cp\<in>set cps. mqtt_character cp" for cps
    using that by (induction cps) (simp_all add: encoded_passes)
  then show "mqtt_utf8_loop s = 0" if "mqtt_text s" using that by (auto simp: mqtt_text_def)
qed

section \<open>Topic filters\<close>

text \<open>
  The rule of the protocol, level by level: \<open>+\<close> only as a whole level, \<open>#\<close> only as the whole last level.
\<close>

fun topic_levels :: "string \<Rightarrow> string list" where
  "topic_levels [] = [[]]"
| "topic_levels (x # xs) = (if x = CHR ''/'' then [] # topic_levels xs
     else case topic_levels xs of l # ls \<Rightarrow> (x # l) # ls | [] \<Rightarrow> [[x]])"

definition plain_level :: "string \<Rightarrow> bool" where
  "plain_level l \<longleftrightarrow> CHR ''+'' \<notin> set l \<and> CHR ''#'' \<notin> set l"

fun filter_levels_ok :: "string list \<Rightarrow> bool" where
  "filter_levels_ok [] \<longleftrightarrow> True"
| "filter_levels_ok [l] \<longleftrightarrow> l = ''+'' \<or> l = ''#'' \<or> plain_level l"
| "filter_levels_ok (l # ls) \<longleftrightarrow> (l = ''+'' \<or> plain_level l) \<and> filter_levels_ok ls"

lemma topic_levels_nonempty [simp]: "topic_levels s \<noteq> []"
  by (induction s) (auto split: list.splits)

lemma filter_levels_Cons:
  "ls \<noteq> [] \<Longrightarrow> filter_levels_ok (l # ls) \<longleftrightarrow> (l = ''+'' \<or> plain_level l) \<and> filter_levels_ok ls"
  by (cases ls) simp_all

text \<open>
  The loop inside a level goes on to its end and then, behind the slash, starts a new one; at the start of a
  level (the byte before is NUL or a slash) a wildcard is possible.
\<close>

definition rest_ok :: "char \<Rightarrow> string list \<Rightarrow> bool" where
  "rest_ok c ls \<longleftrightarrow> (if c = CHR 0x00 \<or> c = CHR ''/'' then filter_levels_ok ls
     else plain_level (hd ls) \<and> filter_levels_ok (tl ls))"

lemma sub_topic_loop_levels:
  "CHR 0x00 \<notin> set s \<Longrightarrow>
   sub_topic_loop c s len = (if rest_ok c (topic_levels s) then Some (len + int (length s)) else None)"
proof (induction s arbitrary: c len)
  case Nil
  show ?case by (simp add: rest_ok_def plain_level_def)
next
  case (Cons x xs)
  obtain l ls where ls: "topic_levels xs = l # ls" by (cases "topic_levels xs") auto
  have nul: "CHR 0x00 \<notin> set xs" "x \<noteq> CHR 0x00" using Cons.prems by auto
  have slash: "xs \<noteq> [] \<and> hd xs \<noteq> CHR ''/'' \<longleftrightarrow> l \<noteq> []"
    using ls by (cases xs) (auto split: if_splits list.splits)
  have one: "xs = [] \<longleftrightarrow> l = [] \<and> ls = []"
    using ls by (cases xs) (auto split: if_splits list.splits)
  have ok: "filter_levels_ok (l' # ls) \<longleftrightarrow> (l' = ''+'' \<or> plain_level l' \<or> ls = [] \<and> l' = ''#'') \<and> filter_levels_ok ls" for l'
    by (cases ls) auto
  note ih = Cons.IH [OF nul(1), unfolded ls]
  consider "x = CHR ''/''" | "x = CHR ''+''" | "x = CHR ''#''" | "x \<noteq> CHR ''/''" "x \<noteq> CHR ''+''" "x \<noteq> CHR ''#''" by blast
  then show ?case
  proof cases
    case 1
    then show ?thesis using ih by (auto simp: ls rest_ok_def plain_level_def ok)
  next
    case 2
    then show ?thesis using ih slash nul(2) by (auto simp: ls rest_ok_def plain_level_def ok)
  next
    case 3
    then show ?thesis using one by (auto simp: ls rest_ok_def plain_level_def ok)
  next
    case 4
    then show ?thesis using ih nul(2) by (auto simp: ls rest_ok_def plain_level_def ok)
  qed
qed

lemma sub_check_iff:
  "CHR 0x00 \<notin> set s \<Longrightarrow> mosquitto_sub_topic_check (Some s) =
     (if filter_levels_ok (topic_levels s) \<and> length s \<le> 65535 then MOSQ_ERR_SUCCESS else MOSQ_ERR_INVAL)"
  by (simp add: mosquitto_sub_topic_check_def sub_topic_loop_levels rest_ok_def)

lemma pub_topic_loop_plain: "pub_topic_loop s len = (if plain_level s then Some (len + int (length s)) else None)"
  by (induction s arbitrary: len) (auto simp: plain_level_def)

lemma pub_check_iff: "mosquitto_pub_topic_check (Some s) =
     (if plain_level s \<and> length s \<le> 65535 then MOSQ_ERR_SUCCESS else MOSQ_ERR_INVAL)"
  by (simp add: mosquitto_pub_topic_check_def pub_topic_loop_plain)

lemma validate_iff: "mosquitto_validate_utf8 (Some s) (int (length s)) = 0 \<longleftrightarrow> length s \<le> 65536 \<and> mqtt_text s"
  by (simp add: mosquitto_validate_utf8_def mqtt_utf8_loop_text)

text \<open>The calls of a connected client whose broker announced no limits.\<close>

lemma subscribe_result:
  assumes "sock_open m" "maximum_packet_size m = 0" "0 \<le> qos" "qos \<le> 2" "CHR 0x00 \<notin> set s"
  shows "mosquitto_subscribe m s qos send =
    (if \<not> (filter_levels_ok (topic_levels s) \<and> length s \<le> 65535) then MOSQ_ERR_INVAL
     else if \<not> mqtt_text s then MOSQ_ERR_MALFORMED_UTF8 else send)"
  using assms validate_iff [of s] by (simp add: mosquitto_subscribe_def sub_check_iff)

lemma publish_result:
  assumes "maximum_packet_size m = 0" "max_qos m = 2" "0 \<le> qos" "qos \<le> 2" "t \<noteq> []"
  shows "mosquitto_publish m (Some t) n qos send =
    (if \<not> (length t \<le> 65536 \<and> mqtt_text t) then MOSQ_ERR_MALFORMED_UTF8
     else if n < 0 \<or> 268435455 < n then MOSQ_ERR_PAYLOAD_SIZE
     else if \<not> (plain_level t \<and> length t \<le> 65535) then MOSQ_ERR_INVAL else send)"
  using assms validate_iff [of t] by (simp add: mosquitto_publish_def pub_check_iff Let_def)

section \<open>Topics with a fixed beginning\<close>

text \<open>The fixed part: printable, without wildcards, ending in a slash.\<close>

definition topic_prefix :: "string \<Rightarrow> bool" where
  "topic_prefix p \<longleftrightarrow> list_all (\<lambda>c. 0x20 \<le> ord c \<and> ord c \<le> 0x7E \<and> c \<noteq> CHR ''+'' \<and> c \<noteq> CHR ''#'') p \<and>
     p \<noteq> [] \<and> last p = CHR ''/''"

lemma topic_prefix_facts:
  assumes "topic_prefix p"
  shows "plain_level p \<and> CHR 0x00 \<notin> set p"
proof -
  have "plain_level q \<and> CHR 0x00 \<notin> set q"
    if "list_all (\<lambda>c. 0x20 \<le> ord c \<and> ord c \<le> 0x7E \<and> c \<noteq> CHR ''+'' \<and> c \<noteq> CHR ''#'') q" for q
    using that by (induction q) (auto simp: plain_level_def)
  with assms show ?thesis unfolding topic_prefix_def by blast
qed

lemma printable_passes:
  assumes "0x20 \<le> ord c" "ord c \<le> 0x7E"
  shows "mqtt_utf8_loop (c # s) = mqtt_utf8_loop s"
proof -
  have "mqtt_character (ord c)" using assms by (simp add: mqtt_character_def)
  moreover have "encode_codepoint (ord c) = [c]" using assms by (simp add: encode_codepoint_def)
  ultimately show ?thesis using encoded_passes [of "ord c" s] by simp
qed

lemma printables_pass: "list_all (\<lambda>c. 0x20 \<le> ord c \<and> ord c \<le> 0x7E) q \<Longrightarrow> mqtt_utf8_loop (q @ s) = mqtt_utf8_loop s"
proof (induction q)
  case (Cons c q)
  then have "mqtt_utf8_loop (c # q @ s) = mqtt_utf8_loop (q @ s)" by (intro printable_passes) simp_all
  with Cons show ?case by (simp del: mqtt_utf8_loop.simps)
qed simp

lemma prefix_text:
  assumes "topic_prefix p"
  shows "mqtt_text (p @ s) \<longleftrightarrow> mqtt_text s"
proof -
  have "list_all (\<lambda>c. 0x20 \<le> ord c \<and> ord c \<le> 0x7E) p" using assms by (auto simp: topic_prefix_def list_all_iff)
  then show ?thesis using printables_pass unfolding mqtt_utf8_loop_text [symmetric] by metis
qed

lemma topic_levels_append: "topic_levels (q @ CHR ''/'' # s) = topic_levels q @ topic_levels s"
proof (induction q)
  case (Cons x q)
  then show ?case by (cases "topic_levels q") auto
qed simp

lemma plain_levels: "plain_level q \<Longrightarrow> list_all plain_level (topic_levels q)"
  by (induction q) (auto simp: plain_level_def split: list.splits)

lemma filter_levels_append: "list_all plain_level ls \<Longrightarrow> ms \<noteq> [] \<Longrightarrow> filter_levels_ok (ls @ ms) = filter_levels_ok ms"
  by (induction ls) (simp_all add: filter_levels_Cons)

lemma prefix_levels:
  assumes "topic_prefix p"
  shows "filter_levels_ok (topic_levels (p @ s)) = filter_levels_ok (topic_levels s)"
proof -
  obtain q where p: "p = q @ [CHR ''/'']" using assms by (metis topic_prefix_def append_butlast_last_id)
  then have "plain_level q" using topic_prefix_facts [OF assms] by (simp add: plain_level_def)
  then show ?thesis by (simp add: p topic_levels_append filter_levels_append plain_levels)
qed

lemma prefix_plain: "topic_prefix p \<Longrightarrow> plain_level (p @ s) = plain_level s"
  using topic_prefix_facts [of p] by (simp add: plain_level_def)

section \<open>Properties\<close>

text \<open>
  The checks of the client library are exact: a C string passes as a topic to publish to when it has no
  wildcard and at most 65535 bytes, as a filter to subscribe to when in addition \<open>+\<close> stands only as a whole
  level and \<open>#\<close> only as the whole last one, and its encoding passes precisely when it is the UTF-8 encoding of
  characters other than control characters, surrogates and non-characters, in at most 65536 bytes.
\<close>

theorem topic_checks_exact:
  assumes "CHR 0x00 \<notin> set s"
  shows "(mosquitto_pub_topic_check (Some s) = MOSQ_ERR_SUCCESS \<longleftrightarrow> plain_level s \<and> length s \<le> 65535) \<and>
    (mosquitto_sub_topic_check (Some s) = MOSQ_ERR_SUCCESS \<longleftrightarrow>
       filter_levels_ok (topic_levels s) \<and> length s \<le> 65535) \<and>
    (mosquitto_validate_utf8 (Some s) (int (length s)) = MOSQ_ERR_SUCCESS \<longleftrightarrow> length s \<le> 65536 \<and> mqtt_text s)"
  using assms by (simp add: sub_check_iff pub_check_iff validate_iff)

lemma topic_checks_exact_witness:
  "mosquitto_sub_topic_check (Some ''a/+/b/#'') = MOSQ_ERR_SUCCESS \<and> mosquitto_pub_topic_check (Some ''a/+'') \<noteq> MOSQ_ERR_SUCCESS"
  using topic_checks_exact [of "''a/+/b/#''"] topic_checks_exact [of "''a/+''"] by (simp add: plain_level_def)

end
