(* ===== verification/ServiceTopics.thy ===== *)
theory ServiceTopics imports ServiceBehaviour MqttClient begin

text \<open>
  The topics of the service at the checks of the client library: which identifiers of the configuration let
  the connect callback subscribe to everything, and what happens to publications under them.
\<close>

section \<open>The fixed parts of the topics\<close>

lemma topic_prefixes:
  "topic_prefix ''/SmartSer/Robot/CtrlMove/''" "topic_prefix ''/SmartSer/Pad/Ctrl/''"
  "topic_prefix ''/SmartSer/PanTilt/Ctrl/''" "topic_prefix ''/SmartSer/Robot/Heart/''"
  "topic_prefix ''/SmartSer/Robot/CtrlOther/''" "topic_prefix ''/SmartSer/Robot/Task/''"
  "topic_prefix ''/Robot/Battery/''" "topic_prefix ''/SmartSer/Robot/TaskStatus/''"
  by code_simp+

lemma debug_topic_accepted: "mqtt_text ''/SmartSer/Debug'' \<and> filter_levels_ok (topic_levels ''/SmartSer/Debug'')"
proof
  have "list_all (\<lambda>c. 0x20 \<le> ord c \<and> ord c \<le> 0x7E) ''/SmartSer/Debug''" by code_simp
  from printables_pass [OF this, of "[]"] have "mqtt_utf8_loop ''/SmartSer/Debug'' = 0"
    by (simp only: append_Nil2 mqtt_utf8_loop.simps)
  then show "mqtt_text ''/SmartSer/Debug''" by (simp only: mqtt_utf8_loop_text)
  show "filter_levels_ok (topic_levels ''/SmartSer/Debug'')" by code_simp
qed

text \<open>An identifier that makes an acceptable filter behind a fixed part, in at most \<open>n\<close> bytes.\<close>

definition id_accepted :: "nat \<Rightarrow> string \<Rightarrow> bool" where
  "id_accepted n i \<longleftrightarrow> mqtt_text (c_str i) \<and> filter_levels_ok (topic_levels (c_str i)) \<and> length (c_str i) \<le> n"

lemma no_nul_c_str [simp]: "CHR 0x00 \<notin> set (c_str s)"
  by (auto simp: c_str_def dest: set_takeWhileD)

definition ready :: "mosq_client \<Rightarrow> bool" where
  "ready m \<longleftrightarrow> sock_open m \<and> max_qos m = 2 \<and> maximum_packet_size m = 0"

lemma prefixed_subscribe:
  assumes "ready m" "topic_prefix p" "q \<le> 2"
  shows "mosquitto_subscribe m (c_str (p @ i)) (int q) 0 = 0 \<longleftrightarrow> id_accepted (65535 - length p) i \<and> length p \<le> 65535"
proof -
  have c: "c_str (p @ i) = p @ c_str i" using topic_prefix_facts [OF assms(2)] by (simp add: c_str_append)
  have nul: "CHR 0x00 \<notin> set (p @ c_str i)" using topic_prefix_facts [OF assms(2)] by simp
  have "mosquitto_subscribe m (p @ c_str i) (int q) 0 = 0 \<longleftrightarrow>
      filter_levels_ok (topic_levels (c_str i)) \<and> length (p @ c_str i) \<le> 65535 \<and> mqtt_text (c_str i)"
    using subscribe_result [OF _ _ _ _ nul, of m "int q" 0] assms
    by (auto simp: ready_def prefix_levels prefix_text)
  then show ?thesis unfolding c id_accepted_def by auto
qed

lemma debug_subscribe: "ready m \<Longrightarrow> q \<le> 2 \<Longrightarrow> mosquitto_subscribe m (c_str task_debug_topic) (int q) 0 = 0"
  using subscribe_result [of m "int q" "''/SmartSer/Debug''" 0] debug_topic_accepted
  by (simp add: ready_def debug_c_str del: topic_levels.simps)

section \<open>The connect callback\<close>

lemma subscribe_all_iff:
  "fst (subscribe_all ts (map f ts)) = Inr () \<longleftrightarrow> (\<forall>t\<in>set ts. f t = 0)"
  by (induction ts) (auto split: prod.splits)

lemma id_accepted_mono: "id_accepted n i \<Longrightarrow> n \<le> k \<Longrightarrow> id_accepted k i"
  by (simp add: id_accepted_def)

lemma subscriptions_each:
  "(\<forall>(t, q)\<in>set (subscriptions cfg). P t q) \<longleftrightarrow>
    P (c_str (''/SmartSer/Robot/CtrlMove/'' @ conf_robot_id cfg)) 2 \<and>
    (robot_type cfg = ''Pad'' \<longrightarrow> P (c_str (''/SmartSer/Pad/Ctrl/'' @ conf_robot_id cfg)) 2) \<and>
    (\<forall>md\<in>set (modules cfg). mod_type md = ''PanTilt'' \<longrightarrow> P (c_str (''/SmartSer/PanTilt/Ctrl/'' @ mod_id md)) 2) \<and>
    P (c_str (heart_forward_topic cfg)) 2 \<and> P (c_str (direct_forward_topic cfg)) 2 \<and>
    P (c_str (service_task_topic cfg)) 2 \<and> P (c_str task_debug_topic) 2 \<and> P (c_str (robot_battery_recv_topic cfg)) 0"
proof -
  have pad: "(\<forall>x\<in>set (if b then [y] else []). Q x) \<longleftrightarrow> (b \<longrightarrow> Q y)" for b y and Q :: "string \<Rightarrow> bool" by simp
  have mods: "(\<forall>x\<in>set (map f (filter c ms)). Q x) \<longleftrightarrow> (\<forall>m\<in>set ms. c m \<longrightarrow> Q (f m))" for f c ms and Q :: "string \<Rightarrow> bool"
    by auto
  have pairs: "(\<forall>(t, q)\<in>set (map (\<lambda>t. (c_str t, k)) ts). P t q) \<longleftrightarrow> (\<forall>t\<in>set ts. P (c_str t) k)" for ts k by auto
  have both: "(\<forall>x\<in>set (xs @ ys). Q x) \<longleftrightarrow> (\<forall>x\<in>set xs. Q x) \<and> (\<forall>x\<in>set ys. Q x)" for xs ys and Q :: "'b \<Rightarrow> bool" by auto
  have cons: "(\<forall>x\<in>set (y # ys). Q x) \<longleftrightarrow> Q y \<and> (\<forall>x\<in>set ys. Q x)" "(\<forall>x\<in>set []. Q x) \<longleftrightarrow> True"
    for y ys and Q :: "'b \<Rightarrow> bool" by auto
  show ?thesis
    unfolding subscriptions_def real_ctrl_forward_topics_def both pairs pad mods cons prod.case simp_thms conj_assoc
    by (rule TrueI)
qed

lemma subscriptions_accepted:
  assumes "ready m"
  shows "(\<forall>(t, q)\<in>set (subscriptions cfg). mosquitto_subscribe m t (int q) 0 = 0) \<longleftrightarrow>
    id_accepted 65509 (conf_robot_id cfg) \<and>
    (\<forall>md\<in>set (modules cfg). mod_type md = ''PanTilt'' \<longrightarrow> id_accepted 65512 (mod_id md))"
proof -
  have len: "length ''/SmartSer/Robot/CtrlMove/'' = 25" "length ''/SmartSer/Pad/Ctrl/'' = 19"
    "length ''/SmartSer/PanTilt/Ctrl/'' = 23" "length ''/SmartSer/Robot/Heart/'' = 22"
    "length ''/SmartSer/Robot/CtrlOther/'' = 26" "length ''/SmartSer/Robot/Task/'' = 21" "length ''/Robot/Battery/'' = 15"
    by simp_all
  have sub: "mosquitto_subscribe m (c_str (p @ i)) (int q) 0 = 0 \<longleftrightarrow> id_accepted (65535 - n) i"
    if "topic_prefix p" "length p = n" "n \<le> 26" "q \<le> 2" for p i q n
    using prefixed_subscribe [OF assms that(1,4), of i] that(2,3) by simp
  have two: "(2 :: nat) \<le> 2" "(0 :: nat) \<le> 2" by simp_all
  note each = sub [OF topic_prefixes(1) len(1) _ two(1)] sub [OF topic_prefixes(2) len(2) _ two(1)]
    sub [OF topic_prefixes(3) len(3) _ two(1)] sub [OF topic_prefixes(4) len(4) _ two(1)]
    sub [OF topic_prefixes(5) len(5) _ two(1)] sub [OF topic_prefixes(6) len(6) _ two(1)]
    sub [OF topic_prefixes(7) len(7) _ two(2)]
  have "(\<forall>(t, q)\<in>set (subscriptions cfg). mosquitto_subscribe m t (int q) 0 = 0) \<longleftrightarrow>
      id_accepted (65535 - 25) (conf_robot_id cfg) \<and> (robot_type cfg = ''Pad'' \<longrightarrow> id_accepted (65535 - 19) (conf_robot_id cfg)) \<and>
      (\<forall>md\<in>set (modules cfg). mod_type md = ''PanTilt'' \<longrightarrow> id_accepted (65535 - 23) (mod_id md)) \<and>
      id_accepted (65535 - 22) (conf_robot_id cfg) \<and> id_accepted (65535 - 26) (conf_robot_id cfg) \<and>
      id_accepted (65535 - 21) (conf_robot_id cfg) \<and> id_accepted (65535 - 15) (conf_robot_id cfg)"
    unfolding subscriptions_each heart_forward_topic_def direct_forward_topic_def
      service_task_topic_def robot_battery_recv_topic_def
    by (subst each, simp)+ (simp only: debug_subscribe [OF assms] two simp_thms)
  then show ?thesis using id_accepted_mono [of 65509 "conf_robot_id cfg"] by auto
qed

lemma subscribe_all_outcome:
  "fst (subscribe_all ts (map f ts)) = (if \<forall>t\<in>set ts. f t = 0 then Inr () else Inl (Std_runtime_error ''Subscription failure''))"
  by (induction ts) (auto split: prod.splits)

lemma connect_outcome:
  assumes "ready m"
  shows "fst (connect_callback cfg 0 (map (\<lambda>(t, q). mosquitto_subscribe m t (int q) 0) (subscriptions cfg))) =
    (if id_accepted 65509 (conf_robot_id cfg) \<and>
        (\<forall>md\<in>set (modules cfg). mod_type md = ''PanTilt'' \<longrightarrow> id_accepted 65512 (mod_id md))
     then Inr () else Inl (Std_runtime_error ''Subscription failure''))"
  unfolding connect_callback_def subscriptions_accepted [OF assms, symmetric]
  by (simp add: subscribe_all_outcome case_prod_unfold)

text \<open>A wildcard in the identifier passes as a filter but not as a topic to publish to.\<close>

lemma feedback_outcome:
  assumes "ready m" "id_accepted 65508 (conf_robot_id cfg)" "0 \<le> n" "n \<le> 268435455"
  shows "mosquitto_publish m (Some (c_str (task_feedback_topic cfg))) n 2 send =
    (if plain_level (c_str (conf_robot_id cfg)) then send else MOSQ_ERR_INVAL)"
proof -
  let ?p = "''/SmartSer/Robot/TaskStatus/''" and ?i = "c_str (conf_robot_id cfg)"
  note p = topic_prefixes(8)
  have c: "c_str (task_feedback_topic cfg) = ?p @ ?i"
    unfolding task_feedback_topic_def by (rule c_str_append) (use topic_prefix_facts [OF p] in blast)
  have "length ?p = 27" by simp
  then have l: "length (?p @ ?i) \<le> 65535" "?p @ ?i \<noteq> []" using assms(2) unfolding id_accepted_def length_append by simp_all
  have t: "mqtt_text (?p @ ?i)" using assms(2) unfolding prefix_text [OF p] id_accepted_def by blast
  show ?thesis
    using publish_result [OF _ _ _ _ l(2), of m 2 n send] assms l(1) t
    unfolding c prefix_plain [OF p, of ?i] by (simp add: ready_def)
qed

section \<open>Properties\<close>

text \<open>
  C19. The identifiers of the configuration at the client library: with a connected client whose broker set no
  limits, the connect callback subscribes to all its topics precisely when the identifiers of the robot and of
  every pan-tilt module are UTF-8 text without control characters, with wildcards only as whole levels, and
  short enough; otherwise it throws, inside the library's thread.  An identifier with a wildcard lets the
  service run, but its task feedback never leaves the program: every publication is refused.
\<close>

theorem connect_accepts_ids:
  assumes "ready m"
  shows "fst (connect_callback cfg 0 (map (\<lambda>(t, q). mosquitto_subscribe m t (int q) 0) (subscriptions cfg))) =
      (if id_accepted 65509 (conf_robot_id cfg) \<and>
          (\<forall>md\<in>set (modules cfg). mod_type md = ''PanTilt'' \<longrightarrow> id_accepted 65512 (mod_id md))
       then Inr () else Inl (Std_runtime_error ''Subscription failure'')) \<and>
    (id_accepted 65508 (conf_robot_id cfg) \<and> 0 \<le> n \<and> n \<le> 268435455 \<longrightarrow>
      mosquitto_publish m (Some (c_str (task_feedback_topic cfg))) n 2 send =
        (if plain_level (c_str (conf_robot_id cfg)) then send else MOSQ_ERR_INVAL))"
  using connect_outcome [OF assms] feedback_outcome [OF assms] by blast

definition demo_client :: mosq_client where
  "demo_client = \<lparr>sock_open = True, max_qos = 2, maximum_packet_size = 0\<rparr>"

definition wildcard_config :: config_item where
  "wildcard_config = demo_config\<lparr>conf_robot_id := ''+'', modules := []\<rparr>"

lemma wildcard_accepted: "id_accepted 65508 ''+''" "id_accepted 65509 ''+''" "\<not> plain_level (c_str ''+'')"
proof -
  have "mqtt_utf8_loop (''+'' @ []) = mqtt_utf8_loop []" by (rule printables_pass) simp
  then have "mqtt_text ''+''" by (simp only: append_Nil2 mqtt_utf8_loop.simps mqtt_utf8_loop_text [symmetric])
  moreover have "c_str ''+'' = ''+''" by (simp add: c_str_def)
  ultimately show "id_accepted 65508 ''+''" "id_accepted 65509 ''+''" "\<not> plain_level (c_str ''+'')"
    by (simp_all add: id_accepted_def plain_level_def)
qed

lemma connect_accepts_ids_witness:
  "ready demo_client \<and>
   fst (connect_callback wildcard_config 0
      (map (\<lambda>(t, q). mosquitto_subscribe demo_client t (int q) 0) (subscriptions wildcard_config))) = Inr () \<and>
   mosquitto_publish demo_client (Some (c_str (task_feedback_topic wildcard_config))) 2 2 0 = MOSQ_ERR_INVAL"
proof -
  have r: "ready demo_client" by (simp add: ready_def demo_client_def)
  have c: "conf_robot_id wildcard_config = ''+''" "modules wildcard_config = []" by (simp_all add: wildcard_config_def)
  show ?thesis
    using connect_accepts_ids [OF r, of wildcard_config 2 0] wildcard_accepted r unfolding c by simp
qed

end
