(* ===== verification/Base64.thy ===== *)
theory Base64 imports Prelude "HOL-Library.Word"
begin

unbundle bit_operations_syntax

text \<open>
  Base64 as the image functions use it (\<open>cppcodec\<close>: \<open>base64_rfc4648.hpp\<close>, \<open>detail/base64.hpp\<close>,
  \<open>detail/stream_codec.hpp\<close>, \<open>data/access.hpp\<close>): the stream codec with its index buffer of four entries and a
  result buffer that is written without a bounds check.
\<close>

section \<open>The result buffer\<close>

text \<open>
  \<open>Overrun\<close>: a write behind the end of the result, whose size the caller computed in advance.  \<open>Domain_error\<close> and
  \<open>Aborted\<close> are branches the library marks as not reached.
\<close>

datatype base64_error =
    Symbol_error char
  | Padding_error
  | Invalid_input_length
  | Domain_error
  | Aborted
  | Overrun

text \<open>\<open>direct_data_access_result_state\<close>: the capacity and what has been put.\<close>

record 'c buffer =
  capacity :: nat
  content :: "'c list"

definition init_buffer :: "nat \<Rightarrow> 'c buffer" where
  "init_buffer n = \<lparr> capacity = n, content = [] \<rparr>"

definition put :: "'c buffer \<Rightarrow> 'c \<Rightarrow> base64_error + 'c buffer" where
  "put r c = (if length (content r) < capacity r then Inr (r\<lparr> content := content r @ [c] \<rparr>) else Inl Overrun)"

section \<open>The alphabet\<close>

type_synonym byte = "8 word"
type_synonym alphabet_index = "64 word"

definition base64_alphabet :: string where
  "base64_alphabet = ''ABCDEFGHIJKLMNOPQRSTUVWXYZabcdefghijklmnopqrstuvwxyz0123456789+/''"

definition symbol :: "byte \<Rightarrow> char" where
  "symbol idx = base64_alphabet ! unat idx"

definition padding_symbol :: char where
  "padding_symbol = CHR ''=''"

definition padding_idx :: alphabet_index where "padding_idx = push_bit 8 1"
definition invalid_idx :: alphabet_index where "invalid_idx = push_bit 9 1"
definition eof_idx :: alphabet_index where "eof_idx = push_bit 10 1"

definition is_stop_character :: "alphabet_index \<Rightarrow> bool" where
  "is_stop_character idx \<longleftrightarrow> idx AND (NOT 0xFF) \<noteq> 0"

text \<open>\<open>index_if_in_alphabet\<close>: the first index whose symbol it is.\<close>

fun index_if_in_alphabet :: "nat \<Rightarrow> string \<Rightarrow> char \<Rightarrow> alphabet_index" where
  "index_if_in_alphabet i [] c = invalid_idx"
| "index_if_in_alphabet i (a # as) c = (if a = c then of_nat i else index_if_in_alphabet (Suc i) as c)"

definition for_symbol :: "char \<Rightarrow> alphabet_index" where
  "for_symbol c = (let a = index_if_in_alphabet 0 base64_alphabet c in
     if a = invalid_idx then (if c = CHR 0x00 then eof_idx else if c = padding_symbol then padding_idx else invalid_idx)
     else a)"

section \<open>Encoding\<close>

definition index_of :: "nat \<Rightarrow> byte list \<Rightarrow> byte" where
  "index_of i b =
     (if i = 0 then drop_bit 2 (b ! 0)
      else if i = 1 then push_bit 4 (b ! 0 AND 0x3) OR drop_bit 4 (b ! 1)
      else if i = 2 then push_bit 2 (b ! 1 AND 0xF) OR drop_bit 6 (b ! 2)
      else b ! 2 AND 0x3F)"

definition index_last :: "nat \<Rightarrow> byte list \<Rightarrow> base64_error + byte" where
  "index_last i b =
     (if i = 1 then Inr (push_bit 4 (b ! 0 AND 0x3))
      else if i = 2 then Inr (push_bit 2 (b ! 1 AND 0xF))
      else Inl Domain_error)"

definition num_encoded_tail_symbols :: "nat \<Rightarrow> base64_error + nat" where
  "num_encoded_tail_symbols n = (if n = 1 then Inr 2 else if n = 2 then Inr 3 else Inl Domain_error)"

definition encoded_size :: "nat \<Rightarrow> nat" where
  "encoded_size n = (n + (3 - 1) - ((n + (3 - 1)) mod 3)) * 4 div 3"

fun put_padding :: "char buffer \<Rightarrow> nat \<Rightarrow> base64_error + char buffer" where
  "put_padding r 0 = Inr r"
| "put_padding r (Suc n) = rbind (put r padding_symbol) (\<lambda>r. put_padding r n)"

text \<open>The templates over the index of the symbol: \<open>enc<I>::block\<close> and \<open>enc<I>::tail\<close>.\<close>

fun enc_block :: "nat \<Rightarrow> char buffer \<Rightarrow> byte list \<Rightarrow> base64_error + char buffer" where
  "enc_block 0 r src = Inr r"
| "enc_block (Suc i) r src = rbind (enc_block i r src) (\<lambda>r. put r (symbol (index_of i src)))"

fun enc_tail :: "nat \<Rightarrow> char buffer \<Rightarrow> byte list \<Rightarrow> nat \<Rightarrow> base64_error + char buffer" where
  "enc_tail 0 r src num = Inl Aborted"
| "enc_tail (Suc i) r src num = (let k = 4 - Suc i in
     if num = k + 1 then
       rbind (index_last k src) (\<lambda>x. rbind (put r (symbol x)) (\<lambda>r. put_padding r (4 - (k + 1))))
     else rbind (put r (symbol (index_of k src))) (\<lambda>r. enc_tail i r src num))"

fun encode_loop :: "char buffer \<Rightarrow> byte list \<Rightarrow> base64_error + char buffer" where
  "encode_loop r (b0 # b1 # b2 # bs) = rbind (enc_block 4 r [b0, b1, b2]) (\<lambda>r. encode_loop r bs)"
| "encode_loop r bs =
     (if bs = [] then Inr r
      else rbind (num_encoded_tail_symbols (length bs)) (\<lambda>n. enc_tail 4 r bs n))"

definition base64_encode :: "byte list \<Rightarrow> base64_error + string" where
  "base64_encode bs = rbind (encode_loop (init_buffer (encoded_size (length bs))) bs) (\<lambda>r. Inr (content r))"

section \<open>Decoding\<close>

definition decoded_max_size :: "nat \<Rightarrow> nat" where
  "decoded_max_size n = n div 4 * 3"

definition decode_block :: "byte buffer \<Rightarrow> alphabet_index list \<Rightarrow> base64_error + byte buffer" where
  "decode_block r idx =
     (let dec = push_bit 18 (idx ! 0) OR push_bit 12 (idx ! 1) OR push_bit 6 (idx ! 2) OR idx ! 3 in
      rbind (put r (ucast (drop_bit 16 dec))) (\<lambda>r.
      rbind (put r (ucast (drop_bit 8 dec AND 0xFF))) (\<lambda>r.
      put r (ucast (dec AND 0xFF)))))"

definition decode_tail :: "byte buffer \<Rightarrow> alphabet_index list \<Rightarrow> nat \<Rightarrow> base64_error + byte buffer" where
  "decode_tail r idx idx_len =
     (if idx_len = 1 then Inl Invalid_input_length
      else rbind (put r (ucast (push_bit 2 (idx ! 0) + drop_bit 4 (idx ! 1 AND 0x30)))) (\<lambda>r.
        if idx_len = 2 then Inr r
        else put r (ucast (push_bit 4 (idx ! 1 AND 0xF) + drop_bit 2 (idx ! 2 AND 0x3C)))))"

text \<open>
  The main loop: \<open>idx\<close> is the array of indexes, \<open>p\<close> the position of \<open>alphabet_index_ptr\<close> in it.  The result holds
  what the code after the loop looks at.
\<close>

fun decode_loop ::
  "byte buffer \<Rightarrow> alphabet_index list \<Rightarrow> nat \<Rightarrow> string \<Rightarrow> base64_error + byte buffer \<times> alphabet_index list \<times> nat \<times> string" where
  "decode_loop r idx p [] = Inr (r, idx, p, [])"
| "decode_loop r idx p (c # src) =
     (let idx = idx[p := for_symbol c] in
      if is_stop_character (idx ! p) then Inr (r, idx, p, c # src)
      else if p + 1 = 4 then rbind (decode_block r idx) (\<lambda>r. decode_loop r idx 0 src)
      else decode_loop r idx (p + 1) src)"

text \<open>The loop over further padding characters: \<open>l\<close> is the position of \<open>last_index_ptr\<close>.\<close>

fun padding_loop :: "alphabet_index list \<Rightarrow> nat \<Rightarrow> nat \<Rightarrow> string \<Rightarrow> base64_error + alphabet_index list \<times> nat" where
  "padding_loop idx p l [] = Inr (idx, l)"
| "padding_loop idx p l (c # src) =
     (let idx = idx[p := for_symbol c] in
      if idx ! p = eof_idx then Inr (idx[p := padding_idx], l)
      else if idx ! p \<noteq> padding_idx then Inl Padding_error
      else if 4 < l + 1 then Inl Padding_error
      else padding_loop idx p (l + 1) src)"

definition decode_end :: "byte buffer \<Rightarrow> alphabet_index list \<Rightarrow> nat \<Rightarrow> string \<Rightarrow> base64_error + byte buffer" where
  "decode_end r idx p src =
     (if idx ! p = invalid_idx then Inl (Symbol_error (hd src))
      else rbind (if idx ! p = padding_idx
                  then (if p = 0 then Inl Padding_error else padding_loop idx p (p + 1) (drop 1 src))
                  else Inr (idx, p)) (\<lambda>(idx, l).
        if l \<noteq> 0 then
          (if l \<noteq> 4 then Inl Padding_error
           else if 4 \<le> p then Inl Aborted
           else decode_tail r idx p)
        else Inr r))"

definition base64_decode :: "string \<Rightarrow> base64_error + byte list" where
  "base64_decode s =
     rbind (decode_loop (init_buffer (decoded_max_size (length s))) [eof_idx, 0, 0, 0] 0 s) (\<lambda>(r, idx, p, src).
     rbind (decode_end r idx p src) (\<lambda>r. Inr (content r)))"

section \<open>Bits\<close>

lemma low_bits: "x AND 3 = take_bit 2 x" "x AND 15 = take_bit 4 x" "x AND 63 = take_bit 6 x" "x AND 255 = take_bit 8 x"
  for x :: "'a::len word"
  by (simp_all add: take_bit_eq_mask mask_eq_exp_minus_1)

lemma byte_bit: "bit (x :: byte) n \<Longrightarrow> n < 8"
  using bit_imp_le_length [of x n] by simp

lemma byte_high [simp]: "8 \<le> n \<Longrightarrow> \<not> bit (x :: byte) n"
  using byte_bit by fastforce

lemma byte_eqI:
  assumes "bit x 0 = bit y 0" "bit x 1 = bit y 1" "bit x 2 = bit y 2" "bit x 3 = bit y 3"
    "bit x 4 = bit y 4" "bit x 5 = bit y 5" "bit x 6 = bit y 6" "bit x 7 = bit y 7"
  shows "x = (y :: byte)"
proof (rule bit_word_eqI)
  fix n :: nat
  assume "n < LENGTH(8)"
  then have "n = 0 \<or> n = 1 \<or> n = 2 \<or> n = 3 \<or> n = 4 \<or> n = 5 \<or> n = 6 \<or> n = 7" by simp arith
  with assms show "bit x n = bit y n" by blast
qed

lemma sextet_less: "take_bit 6 x = x \<Longrightarrow> unat (x :: byte) < 64"
proof -
  assume "take_bit 6 x = x"
  then have "unat x = take_bit 6 (unat x)" by (metis unsigned_take_bit_eq)
  also have "\<dots> < 2 ^ 6" by (rule take_bit_nat_less_exp)
  finally show ?thesis by simp
qed

lemma index_of_less: "unat (index_of i b) < 64"
  by (rule sextet_less, unfold index_of_def low_bits, rule bit_word_eqI) (auto simp: bit_simps dest: byte_bit)

lemma index_last_less: "unat (push_bit 4 (b0 AND 3) :: byte) < 64" "unat (push_bit 2 (b1 AND 0xF) :: byte) < 64"
  unfolding low_bits
  by (rule sextet_less, rule bit_word_eqI, auto simp: bit_simps dest: byte_bit)+

lemma not_stop: "\<not> is_stop_character (ucast (x :: byte))"
proof -
  have m: "(255 :: alphabet_index) = mask 8" by (simp add: mask_eq_exp_minus_1)
  show ?thesis
    unfolding is_stop_character_def m
    by (simp, rule bit_word_eqI) (auto simp: bit_simps dest: byte_bit)
qed

lemma block_bytes:
  fixes b :: "byte list"
  defines "dec \<equiv> push_bit 18 (ucast (index_of 0 b)) OR push_bit 12 (ucast (index_of 1 b)) OR
     push_bit 6 (ucast (index_of 2 b)) OR (ucast (index_of 3 b) :: alphabet_index)"
  shows "ucast (drop_bit 16 dec) = b ! 0" "ucast (drop_bit 8 dec AND 0xFF) = b ! 1" "ucast (dec AND 0xFF) = b ! 2"
  unfolding dec_def index_of_def low_bits
  by (rule byte_eqI; simp add: bit_simps)+

lemma tail_byte0:
  "ucast (push_bit 2 (ucast (index_of 0 b) :: alphabet_index) +
     drop_bit 4 (ucast (push_bit 4 (b ! 0 AND 3) OR x :: byte) AND 0x30)) = b ! 0"
  if "\<And>n. 4 \<le> n \<Longrightarrow> \<not> bit x n"
proof (subst disjunctive_add)
  show "\<not> bit (push_bit 2 (ucast (index_of 0 b) :: alphabet_index)) n \<or>
      \<not> bit (drop_bit 4 (ucast (push_bit 4 (b ! 0 AND 3) OR x :: byte) AND 0x30 :: alphabet_index)) n" for n
    by (cases n rule: nat.exhaust; simp add: bit_simps)
  show "ucast (push_bit 2 (ucast (index_of 0 b) :: alphabet_index) OR
     drop_bit 4 (ucast (push_bit 4 (b ! 0 AND 3) OR x :: byte) AND 0x30)) = b ! 0"
    unfolding index_of_def low_bits using that
    by (rule_tac byte_eqI; simp add: bit_simps)
qed

lemma tail_byte1:
  "ucast (push_bit 4 (ucast (index_of 1 b) AND 0xF :: alphabet_index) +
     drop_bit 2 (ucast (push_bit 2 (b ! 1 AND 0xF) :: byte) AND 0x3C)) = b ! 1"
proof (subst disjunctive_add)
  show "\<not> bit (push_bit 4 (ucast (index_of 1 b) AND 0xF :: alphabet_index)) n \<or>
      \<not> bit (drop_bit 2 (ucast (push_bit 2 (b ! 1 AND 0xF) :: byte) AND 0x3C :: alphabet_index)) n" for n
    unfolding low_bits by (auto simp: bit_simps dest: byte_bit)
  show "ucast (push_bit 4 (ucast (index_of 1 b) AND 0xF :: alphabet_index) OR
     drop_bit 2 (ucast (push_bit 2 (b ! 1 AND 0xF) :: byte) AND 0x3C)) = b ! 1"
    unfolding index_of_def low_bits
    by (rule byte_eqI; simp add: bit_simps)
qed

section \<open>Symbols\<close>

lemma alphabet_indexes: "list_all (\<lambda>i. for_symbol (base64_alphabet ! i) = of_nat i) [0..<64]"
  by code_simp

lemma for_symbol_symbol: "unat x < 64 \<Longrightarrow> for_symbol (symbol x) = ucast x"
proof -
  assume x: "unat x < 64"
  then have "for_symbol (base64_alphabet ! unat x) = of_nat (unat x)"
    using alphabet_indexes by (simp add: list_all_iff del: upt_rec_numeral)
  then show ?thesis by (simp add: symbol_def)
qed

lemma for_symbol_padding: "for_symbol padding_symbol = padding_idx" "is_stop_character padding_idx"
  "padding_idx \<noteq> invalid_idx" "padding_idx \<noteq> eof_idx" "eof_idx \<noteq> invalid_idx"
  by code_simp+

section \<open>Encoding\<close>

text \<open>The text of a list of bytes, without the buffer.\<close>

fun encoded :: "byte list \<Rightarrow> string" where
  "encoded (b0 # b1 # b2 # bs) = map (\<lambda>i. symbol (index_of i [b0, b1, b2])) [0, 1, 2, 3] @ encoded bs"
| "encoded [b0, b1] = [symbol (index_of 0 [b0, b1]), symbol (index_of 1 [b0, b1]),
     symbol (push_bit 2 (b1 AND 0xF)), padding_symbol]"
| "encoded [b0] = [symbol (index_of 0 [b0]), symbol (push_bit 4 (b0 AND 3)), padding_symbol, padding_symbol]"
| "encoded [] = []"

lemma encoded_size_div: "encoded_size n = (n + 2) div 3 * 4"
proof -
  have "n + 2 - (n + 2) mod 3 = (n + 2) div 3 * 3" by (simp add: minus_mod_eq_div_mult)
  then have "encoded_size n = (n + 2) div 3 * 3 * 4 div 3" by (simp add: encoded_size_def)
  also have "\<dots> = (n + 2) div 3 * 4" by (simp add: mult.assoc mult.left_commute)
  finally show ?thesis .
qed

lemma length_encoded: "length (encoded bs) = encoded_size (length bs)"
proof (induction bs rule: encoded.induct)
  case (1 b0 b1 b2 bs)
  have "(length (b0 # b1 # b2 # bs) + 2) div 3 = Suc ((length bs + 2) div 3)" by simp
  with 1 show ?case by (simp add: encoded_size_div)
qed (simp_all add: encoded_size_div)

lemma put_ok: "length (content r) < capacity r \<Longrightarrow> put r c = Inr (r\<lparr> content := content r @ [c] \<rparr>)"
  by (simp add: put_def)

lemma encode_loop_encoded:
  "length (content r) + length (encoded bs) \<le> capacity r \<Longrightarrow>
   encode_loop r bs = Inr (r\<lparr> content := content r @ encoded bs \<rparr>)"
proof (induction bs arbitrary: r rule: encoded.induct)
  case (1 b0 b1 b2 bs)
  then show ?case by (simp add: put_ok numeral_eq_Suc)
next
  case (2 b0 b1)
  then show ?case by (simp add: put_ok numeral_eq_Suc num_encoded_tail_symbols_def index_last_def)
next
  case (3 b0)
  then show ?case by (simp add: put_ok numeral_eq_Suc num_encoded_tail_symbols_def index_last_def)
qed simp

lemma base64_encode_encoded: "base64_encode bs = Inr (encoded bs)"
  using encode_loop_encoded [of "init_buffer (encoded_size (length bs))" bs] length_encoded [of bs]
  by (simp add: base64_encode_def init_buffer_def)


section \<open>Decoding\<close>

definition decode_from :: "byte buffer \<Rightarrow> alphabet_index list \<Rightarrow> string \<Rightarrow> base64_error + byte buffer" where
  "decode_from r idx s = rbind (decode_loop r idx 0 s) (\<lambda>(r, idx, p, src). decode_end r idx p src)"

lemma decode_symbol:
  assumes "unat x < 64" "p < length idx"
  shows "decode_loop r idx p (symbol x # src) =
    (if p = 3 then rbind (decode_block r (idx[p := ucast x])) (\<lambda>r. decode_loop r (idx[p := ucast x]) 0 src)
     else decode_loop r (idx[p := ucast x]) (p + 1) src)"
  using assms for_symbol_symbol not_stop by (simp add: Let_def)

lemma decode_padding: "p < length idx \<Longrightarrow>
  decode_loop r idx p (padding_symbol # src) = Inr (r, idx[p := padding_idx], p, padding_symbol # src)"
  using for_symbol_padding by (simp add: Let_def)

lemma decode_block_encoded:
  assumes "length (content r) + 3 \<le> capacity r" "length b = 3"
  shows "decode_block r (map (\<lambda>i. ucast (index_of i b)) [0, 1, 2, 3]) = Inr (r\<lparr> content := content r @ b \<rparr>)"
proof -
  obtain b0 b1 b2 where b: "b = [b0, b1, b2]" using assms(2) by (auto simp: length_Suc_conv numeral_3_eq_3)
  show ?thesis
    using assms(1) block_bytes [of b]
    by (simp add: decode_block_def Let_def put_ok) (simp add: b)
qed

lemma decode_from_encoded:
  "length (content r) + length bs \<le> capacity r \<Longrightarrow> length idx = 4 \<Longrightarrow> idx ! 0 \<noteq> invalid_idx \<Longrightarrow> idx ! 0 \<noteq> padding_idx \<Longrightarrow>
   decode_from r idx (encoded bs) = Inr (r\<lparr> content := content r @ bs \<rparr>)"
proof (induction bs arbitrary: r idx rule: encoded.induct)
  case (1 b0 b1 b2 bs)
  obtain i0 i1 i2 i3 where i: "idx = [i0, i1, i2, i3]"
    using 1(3) by (auto simp: length_Suc_conv numeral_eq_Suc)
  let ?b = "[b0, b1, b2]" and ?r = "r\<lparr> content := content r @ [b0, b1, b2] \<rparr>"
  let ?idx = "map (\<lambda>i. ucast (index_of i ?b)) [0, 1, 2, 3] :: alphabet_index list"
  have "decode_loop r idx 0 (encoded (b0 # b1 # b2 # bs)) = rbind (decode_block r ?idx) (\<lambda>r. decode_loop r ?idx 0 (encoded bs))"
    by (simp add: i decode_symbol index_of_less numeral_2_eq_2 numeral_3_eq_3 del: decode_loop.simps(2))
  also have "decode_block r ?idx = Inr ?r" by (rule decode_block_encoded) (use 1(2) in simp_all)
  finally have "decode_from r idx (encoded (b0 # b1 # b2 # bs)) = decode_from ?r ?idx (encoded bs)"
    by (simp add: decode_from_def)
  moreover have "\<not> is_stop_character (?idx ! 0)" using not_stop by simp
  then have "?idx ! 0 \<noteq> invalid_idx" "?idx ! 0 \<noteq> padding_idx"
    using for_symbol_padding by (auto simp: invalid_idx_def is_stop_character_def)
  ultimately show ?case using 1(1) [of ?r ?idx] 1(2) by simp
next
  case (2 b0 b1)
  obtain i0 i1 i2 i3 where i: "idx = [i0, i1, i2, i3]"
    using 2(2) by (auto simp: length_Suc_conv numeral_eq_Suc)
  define y :: byte where "y = push_bit 2 (b1 AND 0xF)"
  let ?idx = "[ucast (index_of 0 [b0, b1]), ucast (index_of 1 [b0, b1]), ucast y, padding_idx]"
  have "encoded [b0, b1] = [symbol (index_of 0 [b0, b1]), symbol (index_of 1 [b0, b1]), symbol y, padding_symbol]"
    by (simp only: encoded.simps y_def)
  moreover have "unat y < 64" unfolding y_def by (rule index_last_less)
  ultimately have "decode_loop r idx 0 (encoded [b0, b1]) = Inr (r, ?idx, 3, [padding_symbol])"
    by (simp add: i decode_symbol decode_padding index_of_less numeral_2_eq_2 numeral_3_eq_3
        del: decode_loop.simps(2) encoded.simps)
  moreover have "decode_end r ?idx 3 [padding_symbol] = decode_tail r ?idx 3"
    using for_symbol_padding(3) by (simp add: decode_end_def numeral_eq_Suc)
  moreover have "decode_tail r ?idx 3 = Inr (r\<lparr> content := content r @ [b0, b1] \<rparr>)"
  proof -
    have "index_of 1 [b0, b1] = push_bit 4 ([b0, b1] ! 0 AND 3) OR drop_bit 4 b1" by (simp add: index_of_def)
    moreover have "\<not> bit (drop_bit 4 b1) n" if "4 \<le> n" for n using that by (simp add: bit_simps)
    then have "ucast (push_bit 2 (ucast (index_of 0 [b0, b1]) :: alphabet_index) +
        drop_bit 4 (ucast (push_bit 4 ([b0, b1] ! 0 AND 3) OR drop_bit 4 b1 :: byte) AND 0x30)) = [b0, b1] ! 0"
      by (rule tail_byte0)
    ultimately have "ucast (push_bit 2 (ucast (index_of 0 [b0, b1]) :: alphabet_index) +
        drop_bit 4 (ucast (index_of 1 [b0, b1]) AND 0x30)) = b0"
      by (simp only: nth_Cons_0)
    moreover have "ucast (push_bit 4 (ucast (index_of 1 [b0, b1]) AND 0xF :: alphabet_index) +
        drop_bit 2 (ucast y AND 0x3C)) = b1"
      using tail_byte1 [where b = "[b0, b1]"] unfolding y_def One_nat_def nth_Cons_Suc nth_Cons_0 .
    ultimately show ?thesis using 2(1)
      by (simp add: decode_tail_def put_ok del: push_bit_eq_mult drop_bit_eq_div)
  qed
  ultimately show ?case by (simp add: decode_from_def del: encoded.simps)
next
  case (3 b0)
  obtain i0 i1 i2 i3 where i: "idx = [i0, i1, i2, i3]"
    using 3(2) by (auto simp: length_Suc_conv numeral_eq_Suc)
  define y :: byte where "y = push_bit 4 (b0 AND 3)"
  let ?idx = "[ucast (index_of 0 [b0]), ucast y, padding_idx, i3]"
  have "encoded [b0] = [symbol (index_of 0 [b0]), symbol y, padding_symbol, padding_symbol]"
    by (simp only: encoded.simps y_def)
  moreover have "unat y < 64" unfolding y_def by (rule index_last_less)
  ultimately have "decode_loop r idx 0 (encoded [b0]) = Inr (r, ?idx, 2, [padding_symbol, padding_symbol])"
    by (simp add: i decode_symbol decode_padding index_of_less numeral_2_eq_2 numeral_3_eq_3
        del: decode_loop.simps(2) encoded.simps)
  moreover have "decode_end r ?idx 2 [padding_symbol, padding_symbol] = decode_tail r ?idx 2"
    using for_symbol_padding by (simp add: decode_end_def numeral_eq_Suc)
  moreover have "decode_tail r ?idx 2 = Inr (r\<lparr> content := content r @ [b0] \<rparr>)"
  proof -
    have "ucast (push_bit 2 (ucast (index_of 0 [b0]) :: alphabet_index) +
        drop_bit 4 (ucast (push_bit 4 ([b0] ! 0 AND 3) OR 0 :: byte) AND 0x30)) = [b0] ! 0"
      by (rule tail_byte0) simp
    then have "ucast (push_bit 2 (ucast (index_of 0 [b0]) :: alphabet_index) + drop_bit 4 (ucast y AND 0x30)) = b0"
      by (simp only: nth_Cons_0 y_def or.right_neutral)
    then show ?thesis using 3(1) by (simp add: decode_tail_def put_ok)
  qed
  ultimately show ?case by (simp add: decode_from_def del: encoded.simps)
qed (simp add: decode_from_def decode_end_def)


lemma base64_decode_from: "base64_decode s =
    rbind (decode_from (init_buffer (decoded_max_size (length s))) [eof_idx, 0, 0, 0] s) (\<lambda>r. Inr (content r))"
  by (simp add: base64_decode_def decode_from_def rbind_assoc case_prod_unfold)

lemma decode_encoded: "base64_decode (encoded bs) = Inr bs"
proof -
  have "length bs \<le> decoded_max_size (length (encoded bs))"
    unfolding length_encoded decoded_max_size_def encoded_size_div by simp
  then show ?thesis
    using decode_from_encoded [of "init_buffer (decoded_max_size (length (encoded bs)))" bs "[eof_idx, 0, 0, 0]"]
      for_symbol_padding(4,5)
    by (simp add: base64_decode_from init_buffer_def)
qed

section \<open>The buffers\<close>

text \<open>
  The bytes a decoding may still put: three for every four characters it has buffered or not read yet.  The
  entries of the index array before the current one are those of symbols, except for the initial one.
\<close>

definition room :: "byte buffer \<Rightarrow> nat \<Rightarrow> bool" where
  "room r n \<longleftrightarrow> length (content r) + 3 * (n div 4) \<le> capacity r"

lemma put_room: "put r c = Inr r' \<Longrightarrow> capacity r' = capacity r \<and> length (content r') = length (content r) + 1 \<and>
    length (content r') \<le> capacity r'"
  by (auto simp: put_def split: if_splits)

lemma decode_block_room:
  assumes "room r (n + 4)"
  shows "\<exists>r'. decode_block r idx = Inr r' \<and> room r' n \<and> capacity r' = capacity r"
proof -
  have "(n + 4) div 4 = n div 4 + 1" by simp
  with assms have "length (content r) + 3 + 3 * (n div 4) \<le> capacity r" by (simp add: room_def)
  then show ?thesis by (simp add: decode_block_def Let_def put_ok room_def)
qed

definition plain_idx :: "alphabet_index \<Rightarrow> bool" where
  "plain_idx i \<longleftrightarrow> i \<noteq> padding_idx \<and> i \<noteq> invalid_idx"

lemma not_stop_plain: "\<not> is_stop_character i \<Longrightarrow> plain_idx i"
  using for_symbol_padding(2) by (auto simp: plain_idx_def is_stop_character_def invalid_idx_def)

lemma decode_loop_room:
  "p < 4 \<Longrightarrow> length idx = 4 \<Longrightarrow> \<forall>i\<in>set idx. plain_idx i \<Longrightarrow> room r (p + length s) \<Longrightarrow>
   \<exists>r' idx' p' src. decode_loop r idx p s = Inr (r', idx', p', src) \<and> p' < 4 \<and> length idx' = 4 \<and>
     (src = [] \<longrightarrow> plain_idx (idx' ! p')) \<and> (src \<noteq> [] \<longrightarrow> idx' ! p' = for_symbol (hd src)) \<and>
     set src \<subseteq> set s \<and> room r' (p' + length src) \<and> capacity r' = capacity r"
proof (induction s arbitrary: r idx p)
  case Nil
  then show ?case by (simp add: nth_mem)
next
  case (Cons c s)
  let ?idx = "idx[p := for_symbol c]"
  show ?case
  proof (cases "is_stop_character (for_symbol c)")
    case True
    with Cons.prems show ?thesis by (simp add: Let_def)
  next
    case False
    then have pl: "\<forall>i\<in>set ?idx. plain_idx i"
      using Cons.prems(3) not_stop_plain set_update_subset_insert [of idx p "for_symbol c"] by blast
    show ?thesis
    proof (cases "p = 3")
      case True
      then have "room r (length s + 4)" using Cons.prems(4) by (simp add: add.commute)
      from decode_block_room [OF this] obtain r' where
        r': "decode_block r ?idx = Inr r'" "room r' (length s)" "capacity r' = capacity r" by blast
      with Cons.IH [of 0 ?idx r'] pl Cons.prems(2) False True show ?thesis
        by (auto simp: Let_def)
    next
      case p: False
      have "room r (p + 1 + length s)" using Cons.prems(4) by simp
      with Cons.IH [of "p + 1" ?idx r] pl Cons.prems(1,2) False p show ?thesis
        by (auto simp: Let_def)
    qed
  qed
qed

lemma padding_loop_bounds:
  "padding_loop idx p l s = Inr (idx', l') \<Longrightarrow> l \<le> 4 \<Longrightarrow> l \<le> l' \<and> l' \<le> 4 \<and> l' \<le> l + length s"
proof (induction s arbitrary: idx l)
  case (Cons c s)
  then show ?case by (fastforce simp: Let_def split: if_splits)
qed simp

lemma padding_loop_error: "padding_loop idx p l s = Inl e \<Longrightarrow> e = Padding_error"
  by (induction s arbitrary: idx l) (auto simp: Let_def split: if_splits)

lemma decode_end_safe:
  assumes "p < 4" "length idx = 4" "src = [] \<longrightarrow> plain_idx (idx ! p)" "src \<noteq> [] \<longrightarrow> idx ! p = for_symbol (hd src)"
    "room r (p + length src)" "length (content r) \<le> capacity r"
  shows "case decode_end r idx p src of
      Inl e \<Rightarrow> e = Padding_error \<or> e = Invalid_input_length \<or>
        (src \<noteq> [] \<and> e = Symbol_error (hd src) \<and> for_symbol (hd src) = invalid_idx)
    | Inr r' \<Rightarrow> length (content r') \<le> capacity r"
proof (cases "idx ! p = padding_idx")
  case False
  with assms show ?thesis by (auto simp: decode_end_def plain_idx_def)
next
  case True
  then have ne: "src \<noteq> []" using assms(3) by (auto simp: plain_idx_def)
  show ?thesis
  proof (cases "p = 0")
    case True
    then show ?thesis using \<open>idx ! p = padding_idx\<close> for_symbol_padding(3) by (simp add: decode_end_def)
  next
    case p: False
    show ?thesis
    proof (cases "padding_loop idx p (p + 1) (drop 1 src)")
      case (Inl e)
      then show ?thesis using True p for_symbol_padding(3) padding_loop_error [OF Inl]
        by (simp add: decode_end_def)
    next
      case (Inr il)
      obtain idx' l where il: "il = (idx', l)" by (cases il)
      from padding_loop_bounds [OF Inr [unfolded il]] assms(1) have l: "p + 1 \<le> l" "l \<le> 4" "l \<le> p + 1 + (length src - 1)"
        by auto
      show ?thesis
      proof (cases "l = 4")
        case False
        with l(1) show ?thesis using True p for_symbol_padding(3) Inr il by (simp add: decode_end_def)
      next
        case 4: True
        then have "4 \<le> p + length src" using l(3) ne by (cases src) auto
        then have "1 \<le> (p + length src) div 4" by simp
        then have "length (content r) + 3 \<le> capacity r" using assms(5) by (simp add: room_def)
        moreover have "decode_end r idx p src = decode_tail r idx' p"
          using True p for_symbol_padding(3) Inr il 4 assms(1) by (simp add: decode_end_def)
        ultimately show ?thesis by (simp add: decode_tail_def put_ok)
      qed
    qed
  qed
qed

section \<open>Properties\<close>

text \<open>
  C30. Images survive base64: encoding a list of bytes fills exactly the buffer of \<open>encoded_size\<close> characters
  reserved for it, without an overrun, and decoding the text gives the bytes back.
\<close>

theorem base64_roundtrip:
  "\<exists>t. base64_encode bs = Inr t \<and> length t = encoded_size (length bs) \<and> base64_decode t = Inr bs"
  using base64_encode_encoded length_encoded decode_encoded by blast

text \<open>
  C31. Decoding is safe on every text: it never writes behind the end of the buffer of \<open>decoded_max_size\<close> bytes
  (the writes are not checked), never reaches the branches that abort, and either returns at most that
  many bytes or fails with an error of padding or length, or with a symbol of the text that is outside
  of the alphabet.
\<close>

theorem base64_decode_safe:
  "case base64_decode s of
     Inl e \<Rightarrow> e = Padding_error \<or> e = Invalid_input_length \<or>
       (\<exists>c\<in>set s. e = Symbol_error c \<and> for_symbol c = invalid_idx)
   | Inr bs \<Rightarrow> length bs \<le> decoded_max_size (length s)"
proof -
  let ?r = "init_buffer (decoded_max_size (length s)) :: byte buffer" and ?idx = "[eof_idx, 0, 0, 0] :: alphabet_index list"
  have pl: "\<forall>i\<in>set ?idx. plain_idx i"
    using for_symbol_padding(4,5) by (simp add: plain_idx_def) (simp add: padding_idx_def invalid_idx_def)
  have "room ?r (0 + length s)" by (simp add: room_def init_buffer_def decoded_max_size_def)
  from decode_loop_room [OF _ _ pl this] obtain r' idx' p' src where
    d: "decode_loop ?r ?idx 0 s = Inr (r', idx', p', src)" "p' < 4" "length idx' = 4"
      "src = [] \<longrightarrow> plain_idx (idx' ! p')" "src \<noteq> [] \<longrightarrow> idx' ! p' = for_symbol (hd src)"
      "set src \<subseteq> set s" "room r' (p' + length src)" "capacity r' = capacity ?r"
    by auto
  have "length (content r') \<le> capacity r'" using d(7) by (simp add: room_def)
  from decode_end_safe [OF d(2-5,7) this] d(1,6,8) show ?thesis
    by (cases "decode_end r' idx' p' src")
      (auto simp: base64_decode_def init_buffer_def dest: hd_in_set)
qed

lemma base64_decode_examples: "base64_decode ''TWE='' = Inr [0x4D, 0x61] \<and> base64_decode ''T-E='' = Inl (Symbol_error CHR ''-'') \<and>
   base64_decode ''TWE'' = Inl Padding_error \<and> base64_decode ''T==='' = Inl Invalid_input_length"
  by code_simp

end
