(* ===== verification/ImageDetect.thy ===== *)
theory ImageDetect imports Base64 JsonText begin

text \<open>
  The image functions (\<open>image_detect.cpp\<close>): images as base64 texts, and a detection as a POST of a json text
  whose answer libcurl hands over in pieces.  OpenCV's conversions and what happens on the network are
  parameters.
\<close>

section \<open>Images as texts\<close>

definition img_to_base64 :: "('img \<Rightarrow> byte list) \<Rightarrow> 'img \<Rightarrow> base64_error + string" where
  "img_to_base64 imencode img = base64_encode (imencode img)"

definition base64_to_img :: "(byte list \<Rightarrow> 'img) \<Rightarrow> string \<Rightarrow> base64_error + 'img" where
  "base64_to_img imdecode base64_str =
     rbind (base64_decode base64_str) (\<lambda>decoded_data. Inr (imdecode decoded_data))"

section \<open>The answer\<close>

text \<open>The memory the callback fills: None is the null pointer; the terminating NUL is left out.\<close>

record response_memory =
  response :: "string option"
  response_size :: nat

definition empty_memory :: response_memory where
  "empty_memory = \<lparr> response = None, response_size = 0 \<rparr>"

text \<open>
  The write callback, with the data libcurl passes (\<open>size\<close> times \<open>nmemb\<close> bytes): the bytes kept, as the result of
  \<open>memcpy\<close> behind the first \<open>mem->size\<close>.  \<open>enough\<close>: \<open>realloc\<close> does not return null.
\<close>

definition cb :: "bool \<Rightarrow> string \<Rightarrow> response_memory \<Rightarrow> nat \<times> response_memory" where
  "cb enough data mem =
     (if \<not> enough then (0, mem)
      else (length data,
            \<lparr> response = Some (take (response_size mem) (case response mem of None \<Rightarrow> [] | Some s \<Rightarrow> s) @ data),
              response_size = response_size mem + length data \<rparr>))"

text \<open>libcurl calls the callback for each piece and gives up when it returns another number of bytes.\<close>

fun receive :: "(string \<times> bool) list \<Rightarrow> response_memory \<Rightarrow> bool \<times> response_memory" where
  "receive [] mem = (True, mem)"
| "receive ((data, enough) # cs) mem = (case cb enough data mem of
      (n, mem') \<Rightarrow> if n = length data then receive cs mem' else (False, mem'))"

section \<open>Detection\<close>

text \<open>
  What libcurl does in a call: whether \<open>curl_easy_init\<close> returns a handle, whether each option is accepted, the
  server's answer to a request body in pieces (and whether there is memory for each), whether the transfer
  succeeds otherwise, and the content of the error buffer.
\<close>

record transfer =
  handle_ok :: bool
  options_ok :: "bool list"
  answer :: "string \<Rightarrow> (string \<times> bool) list"
  transfer_ok :: "string \<Rightarrow> bool"
  error_text :: string

text \<open>\<open>json::parse\<close> of a character pointer, which takes its length with \<open>strlen\<close>.\<close>

definition parse_pointer :: "string option \<Rightarrow> json res" where
  "parse_pointer p = (case p of None \<Rightarrow> Inl Undefined_behaviour | Some s \<Rightarrow> json_parse_cstr s)"

text \<open>Beside the result: the bodies posted.  The eight options are set in order, each followed by a check.\<close>

definition detect_image :: "transfer \<Rightarrow> json \<Rightarrow> json res \<times> string list" where
  "detect_image tr detect_data = (case json_dump (-1) detect_data of
      Inl e \<Rightarrow> (Inl e, [])
    | Inr json_str \<Rightarrow>
        if \<not> handle_ok tr then (parse_pointer None, [])
        else if \<not> list_all (\<lambda>b. b) (take 8 (options_ok tr)) then (Inl (Std_runtime_error (error_text tr)), [])
        else (let body = c_str json_str in
          case receive (answer tr body) empty_memory of
            (ok, mem) \<Rightarrow>
              if \<not> (ok \<and> transfer_ok tr body) then (Inl (Std_runtime_error (error_text tr)), [body])
              else (parse_pointer (response mem), [body])))"

section \<open>Facts\<close>

lemma receive_all:
  "\<forall>(d, enough)\<in>set cs. enough \<Longrightarrow> response m = Some s \<Longrightarrow> response_size m = length s \<Longrightarrow>
   receive cs m = (True, \<lparr> response = Some (s @ concat (map fst cs)), response_size = length (s @ concat (map fst cs)) \<rparr>)"
proof (induction cs arbitrary: m s)
  case Nil
  then show ?case by (cases m) simp
next
  case (Cons c cs)
  then show ?case by (cases c) (simp add: cb_def)
qed

lemma receive_pieces:
  assumes "\<forall>(d, enough)\<in>set cs. enough" "cs \<noteq> []"
  shows "\<exists>n. receive cs empty_memory = (True, \<lparr> response = Some (concat (map fst cs)), response_size = n \<rparr>)"
proof -
  obtain d cs' where "cs = (d, True) # cs'" using assms by (cases cs) auto
  then show ?thesis
    using assms(1) receive_all [of cs' "\<lparr> response = Some d, response_size = length d \<rparr>" d]
    by (simp add: cb_def empty_memory_def)
qed

lemma c_str_dumped: "json_ok j \<Longrightarrow> json_dump n j = Inr t \<Longrightarrow> c_str t = t"
  using json_dump_text_ok [of j n t] by (simp add: text_ok_def c_str_id)

section \<open>Properties\<close>

text \<open>
  C29. A detection is a faithful exchange: the server is sent exactly one body, which parses to the request, and
  when it answers with the text of a json value, cut into pieces in any way, \<open>detect_image\<close> returns that
  value.
\<close>

theorem detect_image_exchange:
  assumes "json_ok j" "json_utf8 j" "handle_ok tr" "list_all (\<lambda>b. b) (options_ok tr)"
    "json_dump (-1) j = Inr body" "transfer_ok tr body" "answer tr body \<noteq> []"
    "\<forall>(d, enough)\<in>set (answer tr body). enough" "concat (map fst (answer tr body)) = txt"
    "json_ok v" "json_utf8 v" "json_dump indent v = Inr txt"
  shows "detect_image tr j = (Inr (json_norm v), [body]) \<and> json_parse body = Inr (json_norm j)"
proof -
  obtain n where r: "receive (answer tr body) empty_memory = (True, \<lparr> response = Some txt, response_size = n \<rparr>)"
    using receive_pieces [OF assms(8,7)] assms(9) by auto
  have "json_parse_cstr txt = Inr (json_norm v)"
    using json_dump_cstr [OF assms(10,12)] dumped_parses [OF assms(10-12)] by simp
  moreover have "list_all (\<lambda>b. b) (take 8 (options_ok tr))"
    using assms(4) by (auto simp: list_all_iff dest: in_set_takeD)
  ultimately show ?thesis
    using assms(3,5,6) r c_str_dumped [OF assms(1,5)] dumped_parses [OF assms(1,2,5)]
    by (simp add: detect_image_def parse_pointer_def)
qed

definition demo_transfer :: transfer where
  "demo_transfer = \<lparr> handle_ok = True, options_ok = replicate 8 True,
     answer = (\<lambda>body. [(''[1,'', True), (''2]'', True)]), transfer_ok = (\<lambda>_. True), error_text = '''' \<rparr>"

lemma detect_image_exchange_witness:
  "detect_image demo_transfer J_null = (Inr (J_array [J_unsigned 1, J_unsigned 2]), [''null''])"
proof -
  have "json_dump (-1) J_null = Inr ''null''" "json_dump (-1) (J_array [J_unsigned 1, J_unsigned 2]) = Inr ''[1,2]''"
    by code_simp+
  then show ?thesis
    using detect_image_exchange [of J_null demo_transfer "''null''" "''[1,2]''" "J_array [J_unsigned 1, J_unsigned 2]" "-1"]
    by (simp add: demo_transfer_def list_all_length)
qed

text \<open>
  An answer without a body: the callback is never called, the pointer stays null and \<open>json::parse\<close> takes the
  length of a null pointer.  The same happens when libcurl has no handle to give.
\<close>

lemma empty_answer:
  "json_dump (-1) j = Inr t \<Longrightarrow> \<not> handle_ok tr \<or> (list_all (\<lambda>b. b) (options_ok tr) \<and>
     answer tr (c_str t) = [] \<and> transfer_ok tr (c_str t)) \<Longrightarrow> fst (detect_image tr j) = Inl Undefined_behaviour"
  by (auto simp: detect_image_def parse_pointer_def empty_memory_def list_all_iff dest: in_set_takeD)

end
