(* ===== verification/NoReopen.thy ===== *)
theory NoReopen imports JsonRoundtrip begin

text \<open>
  The guard against a second instance (\<open>NoReopen\<close> in \<open>misc.hpp\<close>): a pid file that the constructor checks and
  creates and the destructor removes.  Every system call of the constructor and the destructor is a step, so
  that processes interleave between them; an open descriptor keeps the file it was opened on.
\<close>

section \<open>Reading a pid\<close>

definition c_space :: "char \<Rightarrow> bool" where
  "c_space c \<longleftrightarrow> c = CHR '' '' \<or> (9 \<le> ord c \<and> ord c \<le> 13)"

text \<open>\<open>atoi\<close>: None where the result does not fit an \<open>int\<close>, which the language leaves undefined.\<close>

definition c_atoi :: "string \<Rightarrow> int option" where
  "c_atoi s =
     (let t = dropWhile c_space s;
          neg = (t \<noteq> [] \<and> hd t = CHR ''-'');
          u = (if t \<noteq> [] \<and> (hd t = CHR ''-'' \<or> hd t = CHR ''+'') then tl t else t);
          n = int (dec_nat (fst (scan_digits u)) 0);
          v = (if neg then - n else n)
      in if is_int32 v then Some v else None)"

text \<open>The buffer of 255 zeroed bytes: a file that fills it leaves no terminating NUL.\<close>

definition pid_of_file :: "string \<Rightarrow> int option" where
  "pid_of_file text =
     (let b = take 255 text in if length b = 255 \<and> CHR 0x00 \<notin> set b then None else c_atoi (c_str b))"

section \<open>The steps\<close>

text \<open>The directory entry of the path, the contents of the files ever created, and the next free file.\<close>

record pid_disk =
  entry :: "nat option"
  content :: "nat \<Rightarrow> string"
  fresh :: nat

text \<open>
  The next system call of a process: opening, reading and checking, removing a stale file, creating, writing and
  closing the own one; then the scope of the object and its destructor.  \<open>N_done\<close> is past the destructor,
  \<open>N_exit\<close> the end by \<open>exit(1)\<close> or a signal, \<open>N_undefined\<close> behaviour the language does not define.
\<close>

datatype reopen_pc =
    N_absent | N_open | N_read nat | N_kill int | N_remove | N_create | N_write nat | N_close
  | N_running | N_destroy | N_done | N_exit | N_undefined

text \<open>
  A step of process \<open>p\<close>: \<open>kill\<close> tells whether the call with signal 0 succeeds for a pid, \<open>ok\<close> whether a call
  that may fail for outside reasons succeeds.
\<close>

fun no_reopen_step :: "(int \<Rightarrow> bool) \<Rightarrow> nat \<Rightarrow> bool \<Rightarrow> reopen_pc \<Rightarrow> pid_disk \<Rightarrow> reopen_pc \<times> pid_disk" where
  "no_reopen_step kill p ok N_open d = (case entry d of
      Some i \<Rightarrow> if ok then (N_read i, d) else (N_create, d)
    | None \<Rightarrow> (N_create, d))"
| "no_reopen_step kill p ok (N_read i) d =
     (if ok then (case pid_of_file (content d i) of Some k \<Rightarrow> (N_kill k, d) | None \<Rightarrow> (N_undefined, d))
      else (N_exit, d))"
| "no_reopen_step kill p ok (N_kill k) d = (if kill k then (N_exit, d) else (N_remove, d))"
| "no_reopen_step kill p ok N_remove d = (N_create, if ok then d\<lparr>entry := None\<rparr> else d)"
| "no_reopen_step kill p ok N_create d =
     (if ok \<and> entry d = None
      then (N_write (fresh d), d\<lparr>entry := Some (fresh d), content := (content d)(fresh d := []), fresh := fresh d + 1\<rparr>)
      else (N_exit, d))"
| "no_reopen_step kill p ok (N_write i) d =
     (if ok then (N_close, d\<lparr>content := (content d)(i := dec_string (int p))\<rparr>) else (N_exit, d))"
| "no_reopen_step kill p ok N_close d = (N_running, d)"
| "no_reopen_step kill p ok N_running d = (N_destroy, d)"
| "no_reopen_step kill p ok N_destroy d = (N_done, if ok then d\<lparr>entry := None\<rparr> else d)"
| "no_reopen_step kill p ok c d = (c, d)"

definition reopen_alive :: "reopen_pc \<Rightarrow> bool" where
  "reopen_alive c \<longleftrightarrow> c \<notin> {N_absent, N_done, N_exit, N_undefined}"

record pid_world =
  processes :: "nat \<Rightarrow> reopen_pc"
  pid_disk :: pid_disk

text \<open>
  Signal 0 finds a live process of this program or another one (\<open>others\<close>, for negative numbers the process
  groups); pid 0 is the group of the caller, which exists.
\<close>

definition kill_ok :: "(int \<Rightarrow> bool) \<Rightarrow> pid_world \<Rightarrow> int \<Rightarrow> bool" where
  "kill_ok others w k \<longleftrightarrow> k = 0 \<or> others k \<or> (0 < k \<and> reopen_alive (processes w (nat k)))"

text \<open>
  Processes start, step and die in any order.  A step is labelled with the program counter it leaves; \<open>may\<close>
  restricts a path to some labels.
\<close>

inductive reopen_path :: "(int \<Rightarrow> bool) \<Rightarrow> (reopen_pc \<Rightarrow> bool) \<Rightarrow> pid_world \<Rightarrow> pid_world \<Rightarrow> bool"
  for others may w0 where
  path_start: "reopen_path others may w0 w0"
| path_begin: "reopen_path others may w0 w \<Longrightarrow> processes w p = N_absent \<Longrightarrow>
    reopen_path others may w0 (w\<lparr>processes := (processes w)(p := N_open)\<rparr>)"
| path_step: "reopen_path others may w0 w \<Longrightarrow> reopen_alive (processes w p) \<Longrightarrow> may (processes w p) \<Longrightarrow>
    no_reopen_step (kill_ok others w) p ok (processes w p) (pid_disk w) = (c, d) \<Longrightarrow>
    reopen_path others may w0 (w\<lparr>processes := (processes w)(p := c), pid_disk := d\<rparr>)"
| path_die: "reopen_path others may w0 w \<Longrightarrow> reopen_alive (processes w p) \<Longrightarrow>
    reopen_path others may w0 (w\<lparr>processes := (processes w)(p := N_exit)\<rparr>)"

section \<open>One instance\<close>

text \<open>A process that got past the creation and has not removed the file.\<close>

definition holds_file :: "reopen_pc \<Rightarrow> bool" where
  "holds_file c \<longleftrightarrow> (case c of N_write _ \<Rightarrow> True | N_close \<Rightarrow> True | N_running \<Rightarrow> True | N_destroy \<Rightarrow> True | _ \<Rightarrow> False)"

definition exclusive :: "pid_world \<Rightarrow> bool" where
  "exclusive w \<longleftrightarrow> (\<forall>p q. holds_file (processes w p) \<longrightarrow> holds_file (processes w q) \<longrightarrow> p = q) \<and>
     (\<forall>p. holds_file (processes w p) \<longrightarrow> entry (pid_disk w) \<noteq> None)"

lemma holds_step:
  assumes "no_reopen_step kill p ok c d = (c', d')" "c \<noteq> N_remove"
  shows "holds_file c' \<Longrightarrow> holds_file c \<and> entry d' = entry d \<or> c = N_create \<and> entry d = None \<and> entry d' \<noteq> None"
    "\<not> holds_file c' \<Longrightarrow> holds_file c \<or> entry d' = entry d"
  using assms by (cases c; auto simp: holds_file_def split: option.splits if_splits)+

lemma exclusive_path:
  assumes "reopen_path others (\<lambda>c. c \<noteq> N_remove) w0 w" "exclusive w0"
  shows "exclusive w"
  using assms
proof induction
  case (path_begin w p)
  then show ?case by (auto simp: exclusive_def holds_file_def)
next
  case (path_step w p ok c d)
  note h = holds_step [OF path_step.hyps(4,3)]
  show ?case
  proof (cases "holds_file c")
    case True
    with h(1) path_step.IH path_step.prems show ?thesis
      by (auto simp: exclusive_def holds_file_def [of N_create])
  next
    case False
    with h(2) path_step.IH path_step.prems show ?thesis
      by (auto simp: exclusive_def) 
  qed
next
  case (path_die w p)
  then show ?case by (auto simp: exclusive_def holds_file_def)
qed

section \<open>The constructor without interruption\<close>

text \<open>The constructor runs until the object exists, the process exits or behaviour is undefined.\<close>

fun construct :: "nat \<Rightarrow> (int \<Rightarrow> bool) \<Rightarrow> nat \<Rightarrow> reopen_pc \<Rightarrow> pid_disk \<Rightarrow> reopen_pc \<times> pid_disk" where
  "construct 0 kill p c d = (c, d)"
| "construct (Suc n) kill p c d =
     (if c \<in> {N_running, N_exit, N_undefined} then (c, d)
      else case no_reopen_step kill p True c d of (c', d') \<Rightarrow> construct n kill p c' d')"

definition created :: "nat \<Rightarrow> pid_disk \<Rightarrow> pid_disk" where
  "created p d = d\<lparr>entry := Some (fresh d), content := (content d)(fresh d := dec_string (int p)), fresh := fresh d + 1\<rparr>"

lemma construct_outcome:
  "construct 7 kill p N_open d = (case entry d of
      None \<Rightarrow> (N_running, created p d)
    | Some i \<Rightarrow> (case pid_of_file (content d i) of
        None \<Rightarrow> (N_undefined, d)
      | Some k \<Rightarrow> if kill k then (N_exit, d) else (N_running, created p (d\<lparr>entry := None\<rparr>))))"
  by (simp add: eval_nat_numeral created_def split: option.split)

lemma dec_digits_plain: "c \<in> set (dec_digits n) \<Longrightarrow> c \<noteq> CHR 0x00 \<and> \<not> c_space c \<and> c \<noteq> CHR ''-'' \<and> c \<noteq> CHR ''+''"
  using dec_digits_digits [of n] by (force simp: is_digit_def c_space_def)

lemma pid_of_written:
  assumes "int p \<le> 2147483647"
  shows "pid_of_file (dec_string (int p)) = Some (int p)"
proof -
  let ?s = "dec_digits p"
  obtain c cs where s: "?s = c # cs" by (cases ?s) auto
  have c: "\<not> c_space c" "c \<noteq> CHR ''-''" "c \<noteq> CHR ''+''" using dec_digits_plain [of c p] s by simp_all
  have "length ?s \<le> 10" using assms by (intro length_dec_digits_le) simp_all
  then have t: "take 255 ?s = ?s" "length ?s \<noteq> 255" by simp_all
  have n: "c_str ?s = ?s" using dec_digits_plain by (intro c_str_id) blast
  have d: "scan_digits ?s = (?s, [])" using scan_digits_append [of ?s "[]"] dec_digits_digits by simp
  have "c_atoi ?s = Some (int p)"
    unfolding c_atoi_def using c d assms dec_nat_dec_digits [of p] unfolding s by (simp add: Let_def is_int32_def)
  then show ?thesis using t n by (simp add: pid_of_file_def dec_string_def Let_def)
qed

section \<open>Moves\<close>

text \<open>A schedule of processes, each begun by its first turn, all calls succeeding.\<close>

definition reopen_move :: "(int \<Rightarrow> bool) \<Rightarrow> pid_world \<Rightarrow> nat \<Rightarrow> pid_world" where
  "reopen_move others w p =
     (if processes w p = N_absent then w\<lparr>processes := (processes w)(p := N_open)\<rparr>
      else if reopen_alive (processes w p) then
        (case no_reopen_step (kill_ok others w) p True (processes w p) (pid_disk w) of
           (c, d) \<Rightarrow> w\<lparr>processes := (processes w)(p := c), pid_disk := d\<rparr>)
      else w)"

lemma path_moves:
  assumes "reopen_path others (\<lambda>_. True) w0 w"
  shows "reopen_path others (\<lambda>_. True) w0 (foldl (reopen_move others) w ps)"
  using assms
proof (induction ps arbitrary: w)
  case (Cons p ps)
  have "reopen_path others (\<lambda>_. True) w0 (reopen_move others w p)"
    using Cons.prems path_begin [OF Cons.prems] path_step [OF Cons.prems, of p True]
    by (auto simp: reopen_move_def split: prod.split)
  with Cons.IH show ?case by simp
qed simp

definition stale_world :: pid_world where
  "stale_world = \<lparr>processes = \<lambda>_. N_absent, pid_disk = \<lparr>entry = Some 0, content = \<lambda>_. ''999'', fresh = 1\<rparr>\<rparr>"

lemma race_run:
  "let w = foldl (reopen_move (\<lambda>_. False)) stale_world ([10, 10, 10, 10] @ [20, 20, 20, 20] @ [10, 10, 10, 10] @ [20, 20, 20, 20])
   in processes w 10 = N_running \<and> processes w 20 = N_running"
proof -
  have "pid_of_file ''999'' = Some 999" by code_simp
  then show ?thesis by (simp add: Let_def stale_world_def reopen_move_def reopen_alive_def kill_ok_def)
qed

section \<open>Properties\<close>

text \<open>
  C40. At most one instance while no stale file is removed: whatever the order of the system calls of the
  processes, with calls failing and processes dying at any point, and whatever a pid file holds, as long as no
  constructor removes a file it takes for stale no two processes have got past the creation.
\<close>

theorem no_reopen_exclusive:
  assumes "reopen_path others (\<lambda>c. c \<noteq> N_remove) w0 w" "\<forall>p. processes w0 p = N_absent"
    "holds_file (processes w p)" "holds_file (processes w q)"
  shows "p = q"
proof -
  have "exclusive w0" using assms(2) by (simp add: exclusive_def holds_file_def)
  then show ?thesis using exclusive_path [OF assms(1)] assms(3,4) by (auto simp: exclusive_def)
qed

definition empty_world :: pid_world where
  "empty_world = \<lparr>processes = \<lambda>_. N_absent, pid_disk = \<lparr>entry = None, content = \<lambda>_. [], fresh = 0\<rparr>\<rparr>"

lemma holder_reached:
  "\<exists>w. reopen_path (\<lambda>_. False) (\<lambda>c. c \<noteq> N_remove) empty_world w \<and> holds_file (processes w 7)"
proof -
  let ?path = "reopen_path (\<lambda>_. False) (\<lambda>c. c \<noteq> N_remove) empty_world"
  let ?turn = "\<lambda>w c d. w\<lparr>processes := (processes w)(7 := c), pid_disk := d\<rparr>"
  have begun: "?path (empty_world\<lparr>processes := (processes empty_world)(7 := N_open)\<rparr>)"
    by (rule path_begin [OF path_start]) (simp add: empty_world_def)
  have "?path (?turn (empty_world\<lparr>processes := (processes empty_world)(7 := N_open)\<rparr>) N_create (pid_disk empty_world))"
    by (rule path_step [OF begun, of 7 True]) (simp_all add: empty_world_def reopen_alive_def)
  from path_step [OF this, of 7 True] show ?thesis
    by (intro exI conjI, assumption?) (auto simp: empty_world_def reopen_alive_def holds_file_def)
qed

lemma no_reopen_exclusive_witness:
  "\<exists>w :: pid_world. holds_file (processes w 7) \<and> (\<forall>q. holds_file (processes w q) \<longrightarrow> q = 7)"
proof -
  obtain w where w: "reopen_path (\<lambda>_. False) (\<lambda>c. c \<noteq> N_remove) empty_world w" "holds_file (processes w 7)"
    using holder_reached by blast
  have "\<forall>p. processes empty_world p = N_absent" by (simp add: empty_world_def)
  with no_reopen_exclusive [OF w(1)] w(2) show ?thesis by blast
qed

text \<open>
  A second instance started while the first is alive exits and leaves the disk as it is: the pid written is the
  pid read back.
\<close>

theorem second_instance_refused:
  assumes "entry d = None" "int p \<le> 2147483647" "kill (int p)"
  shows "construct 7 kill q N_open (snd (construct 7 kill p N_open d)) = (N_exit, created p d)"
  using assms pid_of_written [of p] by (simp add: construct_outcome created_def)

text \<open>
  With a stale file the guard fails: two constructors that have both found the process of the file dead remove
  it in turn, the second one the file the first has just created, and both instances run.
\<close>

theorem two_instances_run:
  "\<exists>w. reopen_path (\<lambda>_. False) (\<lambda>_. True) stale_world w \<and> processes w 10 = N_running \<and> processes w 20 = N_running"
  using race_run path_moves [OF path_start] unfolding Let_def by blast

text \<open>An empty pid file, as a process leaves it that dies between creating and writing, refuses every start.\<close>

theorem empty_file_refuses:
  assumes "entry d = Some i" "content d i = []"
  shows "construct 7 (kill_ok others w) p N_open d = (N_exit, d)"
proof -
  have "pid_of_file [] = Some 0" by code_simp
  then show ?thesis using assms by (simp add: construct_outcome kill_ok_def)
qed

end
