(* ===== verification/TestProgram.thy ===== *)
theory TestProgram imports NoReopen begin

text \<open>
  The test program (\<open>test.cpp\<close>): it subscribes through the helper of the client library that calls back for every
  message until the callback asks to disconnect (\<open>helpers.c\<close>), and then waits for the flag the callback sets.
\<close>

text \<open>
  The callback on a payload: the flag it stores and its result; None for a message without payload, where
  \<open>atoi\<close> gets a null pointer, and for a number that does not fit.
\<close>

definition test_callback :: "string option \<Rightarrow> (bool \<times> int) option" where
  "test_callback payload = (case payload of
      None \<Rightarrow> None
    | Some s \<Rightarrow> (case c_atoi (c_str s) of
         None \<Rightarrow> None
       | Some n \<Rightarrow> Some (n = 10, if n = 10 then 1 else 0)))"

text \<open>The helper hands the messages to the callback and disconnects on the first result that is not 0.\<close>

fun helper_loop :: "(string option \<Rightarrow> (bool \<times> int) option) \<Rightarrow> bool \<Rightarrow> string option list \<Rightarrow> bool option" where
  "helper_loop callback flag [] = Some flag"
| "helper_loop callback flag (m # ms) = (case callback m of
      None \<Rightarrow> None
    | Some (flag', rc) \<Rightarrow> if rc \<noteq> 0 then Some flag' else helper_loop callback flag' ms)"

datatype test_outcome = Test_exits | Test_spins | Test_undefined

text \<open>\<open>main\<close>: \<open>ms\<close> are the messages that arrive before the helper returns, for whatever reason it does.\<close>

definition test_main :: "string option list \<Rightarrow> test_outcome" where
  "test_main ms = (case helper_loop test_callback False ms of
      None \<Rightarrow> Test_undefined
    | Some flag \<Rightarrow> if flag then Test_exits else Test_spins)"

text \<open>The program ends exactly when a ten arrives; when the helper returns earlier, the empty loop never ends.\<close>

lemma helper_loop_flag:
  "\<forall>m\<in>set ms. test_callback m \<noteq> None \<Longrightarrow>
   helper_loop test_callback False ms = Some (\<exists>m\<in>set ms. test_callback m = Some (True, 1))"
proof (induction ms)
  case (Cons m ms)
  then obtain s n where m: "m = Some s" "c_atoi (c_str s) = Some n"
    by (auto simp: test_callback_def split: option.splits)
  then have "test_callback m = Some (n = 10, if n = 10 then 1 else 0)" by (simp add: test_callback_def)
  with Cons show ?case by auto
qed simp

theorem test_main_outcome:
  assumes "\<forall>m\<in>set ms. test_callback m \<noteq> None"
  shows "test_main ms = (if \<exists>m\<in>set ms. test_callback m = Some (True, 1) then Test_exits else Test_spins)"
  using helper_loop_flag [OF assms] by (simp add: test_main_def)

lemma test_main_outcome_witness: "test_main [] = Test_spins"
  using test_main_outcome [of "[]"] by simp

end
