(* ===== verification/Spec2Isabelle.thy ===== *)
theory Spec2Isabelle imports StopProtocol ServiceSurvival ServiceTopics ImageDetect TestProgram begin

text \<open>
  The smart service of a rail or pad inspection robot: a daemon between a backend and the devices of the
  robot.  It receives tasks (lists of device actions), timed tasks and control requests over MQTT, runs one
  task at a time, reports each step, forwards real-time commands and sends the robot to its charger when
  the battery is low.  This development models the program's own code and the parts of the json, base64
  and MQTT libraries it calls.

  Parts and theories.  Each theory follows one file or one part of it; a definition has the name of the
  function it models, with a prefix or suffix where Isabelle reserves the name.

  \<^item> \<open>Prelude\<close>: exceptions as values of the sum type \<open>'a res\<close>, conversions to 32 and 64 bits, C strings, lists.
  \<^item> \<open>StdMap\<close>: \<open>std::map\<close> as a strictly sorted association list; the contract is the locale \<open>std_map\<close>.
  \<^item> \<open>Ieee754\<close>: \<open>double\<close> as rationals with one rounding per operation.
  \<^item> \<open>Json\<close>, \<open>JsonLexer\<close>, \<open>JsonParser\<close>, \<open>JsonDtoa\<close>, \<open>JsonSerializer\<close> (\<open>json.hpp\<close>): values and access,
    the lexer's character and number automata, the parser with its explicit stack, Grisu2 and the
    serializer with its UTF-8 decoder and 512-byte buffer.  \<open>JsonString\<close>, \<open>JsonRoundtrip\<close> and \<open>JsonText\<close>
    prove that strings, numbers and whole values survive printing and parsing and which errors occur.
    The exactness of floating-point numbers is proved in four steps: \<open>JsonPowers\<close>, the cached powers of ten
    are accurate to half a unit; \<open>JsonGrisu\<close>, the interval the digits are taken from lies between the midpoints
    to the neighbouring doubles; \<open>JsonFloat\<close>, the digits stay in it, and in their buffer; \<open>JsonFloatText\<close>, the
    lexer reads the text as the decimal that the digits denote, which rounds to the double that was printed.
  \<^item> \<open>Base64\<close> (\<open>cppcodec\<close>) and \<open>ImageDetect\<close> (\<open>image_detect.cpp\<close>): the codec with its index and result buffers,
    images as texts, and the exchange with the detection server.
  \<^item> \<open>SafeQueue\<close> (\<open>ThreadSafeQueue.hpp\<close>): the operations as critical sections and the threads, the mutex and the
    condition variable as a step relation; the contract is the locale \<open>fifo\<close>.
  \<^item> \<open>Device\<close> (\<open>device.hpp\<close>, \<open>device_mqtt.hpp\<close>, \<open>device_mqtt.cpp\<close>): the action tables and every action, with
    the waiting loops as functions of what each turn observes.  \<open>StopProtocol\<close>: a stop against a move, every
    load and store of the two atomics a step.
  \<^item> \<open>Robot\<close> (\<open>robot.hpp\<close>, \<open>robot.cpp\<close>): the device map and the dispatch of an action.
  \<^item> \<open>Task\<close> (\<open>task.hpp\<close>, \<open>task.cpp\<close>): the task's data, its construction from json, assignment and feedback.
    \<open>TaskRun\<close>: \<open>run\<close>, \<open>pause\<close>, \<open>resume\<close> and \<open>cancel\<close> as a deterministic step of the run thread (\<open>run_turn\<close>), one of
    the control functions (\<open>control_turn\<close>), and their interleaving (\<open>task_step\<close>).  \<open>TaskControl\<close> proves the
    invariant, the answers to the three requests and the transitions of the status; \<open>TaskProgress\<close> the order
    of the actions, survival and termination.
  \<^item> \<open>Config\<close> (\<open>config.hpp\<close>, \<open>config.cpp\<close>): the configuration and its set of modules.
  \<^item> \<open>TimedTask\<close> (\<open>timed_task.hpp\<close>, \<open>timed_task.cpp\<close>): the timed tasks, the crontab and the task files on a file
    system that is a map.  \<open>TimedTaskFiles\<close>: reading back what was written, and the locale \<open>keyed_store\<close>.
  \<^item> \<open>SmartService\<close> (\<open>smart_service.cpp\<close>): topics, construction of the robot, the request handler, the routing of
    messages and the feedback callback.  \<open>ServiceBehaviour\<close>: their properties.
  \<^item> \<open>MqttClient\<close> (\<open>mosquitto-2.0.15/lib\<close>): what the client library checks before it publishes or subscribes.
    \<open>ServiceTopics\<close>: the topics of the service at these checks.
  \<^item> \<open>NoReopen\<close> (\<open>misc.hpp\<close>): the guard against a second instance, as system calls of interleaving processes.
    \<open>TestProgram\<close> (\<open>test.cpp\<close>).
  \<^item> \<open>ServiceSystem\<close> (\<open>main\<close> and \<open>mqtt_msg_handler\<close>): the whole service as a step relation (\<open>system_step\<close>) of the
    network thread, the handler and the run threads with their callbacks.  \<open>ServiceControl\<close> proves that it
    refines the model of a task, serves messages in order and forwards real-time commands at rest only;
    \<open>ServiceStore\<close>, \<open>ServiceLife\<close> and \<open>ServiceSurvival\<close> follow the timed tasks through every interleaving: they
    can be read back after a stop at any moment, and no harmless message ends the service.

  How the parts interact.  \<open>mqtt_msg_handler\<close> takes a message to a handler; a handler returns its outcome and
  the list of what it does in order, where \<open>Control\<close>, \<open>Assign_task\<close>, \<open>Install_callbacks\<close>, \<open>Spawn_run\<close> and \<open>Charge\<close>
  are the actors \<open>Call\<close>, \<open>Assign\<close>, \<open>Install\<close>, \<open>Spawn\<close> and \<open>Use\<close> of \<open>task_step\<close>; \<open>system_step\<close> performs them one by one.
  The run thread calls the devices through \<open>dispatch\<close>, and its callbacks are events that \<open>deliver\<close> hands to
  \<open>service_callback\<close> in the step that makes them.

  Interfaces.  \<open>std_map\<close> is interpreted by the sorted lists, \<open>fifo\<close> by the queue and \<open>keyed_store\<close> by the timed
  tasks.  \<open>timer_kind\<close> states what a class of timed tasks must satisfy to be kept through an execution; it is
  interpreted by the tasks that can be written and by those that can also be found again.  Clients use the
  facts of the interpretations.

  Conventions.  Bytes are HOL characters and texts lists of them.  An \<open>int\<close> is the HOL integer it denotes and
  conversions wrap explicitly.  \<open>Undefined_behaviour\<close> marks an access outside of a buffer or a call the code
  cannot make; \<open>R_dead\<close> the end of the process through an exception in the run thread.  The only fuel is that of
  \<open>construct\<close>, seven steps, which are all the constructor has; other
  loops are structural, have a measure (the parser, the reader of crontab lines), consume a list of
  observations (the waiting loops of the devices, None while they still wait), or are step relations.

  Parameters.  The order \<open>std::sort\<close> leaves equal elements in (\<open>sorts_actions\<close> is its specification, met by the
  stable sort), the YAML library, the rebalancing of the set, which files can be opened, time, what other
  threads stored when a load happens, the results of calls of the mosquitto library and the compiler's
  function names.

  Not modelled.  The mosquitto, curl, spdlog and yaml-cpp libraries are vendored; calls that publish are
  effects, what happens to a message behind the checks of the client library and what libcurl calls back and
  returns are parameters, and logging is left out.  Of \<open>json.hpp\<close> the binary formats, pointers, patches,
  iterators and allocators are left out, as the service never calls them, and of cppcodec the other codecs.
  The unlocked accesses to the timed tasks from two threads are taken to be atomic; an action in progress
  is one step of the run thread except in \<open>StopProtocol\<close>.
\<close>

end
